(* ===== verification/Axi_Prelude.thy ===== *)
theory Axi_Prelude
  imports Complex_Main "HOL-Library.Word"
begin

text \<open>
  Shared vocabulary of the development: the C++ integer types as words, C++ exceptions as the
  sum type \<open>result\<close>, code that mutates an object and may throw as the state-and-exception
  computations \<open>exec\<close> (the state survives a throw, as the C++ object does) with weakest
  preconditions for them, the stream formatting of unsigned numbers, and the facts on words, lists and
  sums that several components use.
\<close>

unbundle bit_operations_syntax

section \<open>Machine integers\<close>

type_synonym u8 = "8 word"
type_synonym u16 = "16 word"
type_synonym u32 = "32 word"
type_synonym u64 = "64 word"
type_synonym u128 = "128 word"

section \<open>Exceptions as values\<close>

text \<open>One constructor per exception class the sources throw, with its message. \<open>UndefinedBehaviour\<close> is not thrown: it is
  the outcome of an access outside a raw array, which the theorems about such accesses exclude.\<close>

datatype exn =
    ProtocolError string
  | LogicError string
  | InvalidArgument string
  | OutOfRange string
  | ElfError string
  | RuntimeError string
  | UndefinedBehaviour string

type_synonym 'a result = "exn + 'a"

definition result_bind :: "'a result \<Rightarrow> ('a \<Rightarrow> 'b result) \<Rightarrow> 'b result" where
  "result_bind r f = (case r of Inl e \<Rightarrow> Inl e | Inr x \<Rightarrow> f x)"

text \<open>\<open>throw_if b e\<close> is the statement \<^verbatim>\<open>if (b) throw e;\<close>.\<close>

definition throw_if :: "bool \<Rightarrow> exn \<Rightarrow> unit result" where
  "throw_if b e = (if b then Inl e else Inr ())"

text \<open>A loop over a range whose body may throw.\<close>

primrec result_all :: "('i \<Rightarrow> unit result) \<Rightarrow> 'i list \<Rightarrow> unit result" where
  "result_all f [] = Inr ()"
| "result_all f (x # xs) = result_bind (f x) (\<lambda>_. result_all f xs)"

primrec result_map :: "('i \<Rightarrow> 'a result) \<Rightarrow> 'i list \<Rightarrow> 'a list result" where
  "result_map f [] = Inr []"
| "result_map f (x # xs) =
     result_bind (f x) (\<lambda>y. result_bind (result_map f xs) (\<lambda>ys. Inr (y # ys)))"

primrec result_fold :: "('i \<Rightarrow> 'a \<Rightarrow> 'a result) \<Rightarrow> 'i list \<Rightarrow> 'a \<Rightarrow> 'a result" where
  "result_fold f [] a = Inr a"
| "result_fold f (x # xs) a = result_bind (f x a) (result_fold f xs)"

lemma result_bind_simps [simp]:
  "result_bind (Inl e) f = Inl e"
  "result_bind (Inr x) f = f x"
  by (simp_all add: result_bind_def)

lemma result_bind_Inr_iff [simp]:
  "result_bind r f = Inr y \<longleftrightarrow> (\<exists>x. r = Inr x \<and> f x = Inr y)"
  by (cases r) auto

lemma result_bind_Inl_iff:
  "result_bind r f = Inl e \<longleftrightarrow> r = Inl e \<or> (\<exists>x. r = Inr x \<and> f x = Inl e)"
  by (cases r) auto

lemma result_bind_assoc:
  "result_bind (result_bind r f) g = result_bind r (\<lambda>x. result_bind (f x) g)"
  by (cases r) auto

lemma result_bind_cong [fundef_cong]:
  "r = r' \<Longrightarrow> (\<And>x. r' = Inr x \<Longrightarrow> f x = f' x) \<Longrightarrow> result_bind r f = result_bind r' f'"
  by (cases r') auto

lemma throw_if_simps [simp]:
  "throw_if True e = Inl e"
  "throw_if False e = Inr ()"
  "throw_if b e = Inr u \<longleftrightarrow> \<not> b"
  "throw_if b e = Inl e' \<longleftrightarrow> b \<and> e' = e"
  by (auto simp: throw_if_def)

lemma result_all_Inr_iff:
  "result_all f xs = Inr u \<longleftrightarrow> (\<forall>x\<in>set xs. f x = Inr ())"
  by (induction xs) (auto simp: old.unit.exhaust)

lemma result_all_Inl: "result_all f xs = Inl e \<Longrightarrow> \<exists>x\<in>set xs. f x = Inl e"
  by (induction xs) (auto simp: result_bind_Inl_iff)

lemma result_fold_append:
  "result_fold f (xs @ ys) a = result_bind (result_fold f xs a) (result_fold f ys)"
  by (induction xs arbitrary: a) (simp_all add: result_bind_assoc cong: result_bind_cong)

lemma result_fold_Inl:
  "result_fold f xs a = Inl e \<Longrightarrow> \<exists>x\<in>set xs. \<exists>b. f x b = Inl e"
  by (induction xs arbitrary: a) (auto simp: result_bind_Inl_iff)

lemma result_fold_Inr:
  assumes "result_fold f xs a = Inr b" and "P a"
    and "\<And>x y z. x \<in> set xs \<Longrightarrow> P y \<Longrightarrow> f x y = Inr z \<Longrightarrow> P z"
  shows "P b"
  using assms
proof (induction xs arbitrary: a)
  case Nil
  then show ?case by simp
next
  case (Cons x xs)
  then obtain c where c: "f x a = Inr c" "result_fold f xs c = Inr b" by auto
  show ?case by (rule Cons.IH [OF c(2)]) (use Cons.prems c(1) in auto)
qed

lemma result_map_Inr_iff:
  "result_map f xs = Inr ys \<longleftrightarrow> list_all2 (\<lambda>x y. f x = Inr y) xs ys"
  by (induction xs arbitrary: ys) (auto simp: list_all2_Cons1)

lemma not_Inl_imp_Inr: "(\<And>e. r \<noteq> Inl e) \<Longrightarrow> \<exists>x. r = Inr x"
  by (cases r) auto

section \<open>Mutating computations that may throw\<close>

type_synonym ('s, 'a) exec = "'s \<Rightarrow> 'a result \<times> 's"

definition return_exec :: "'a \<Rightarrow> ('s, 'a) exec" where
  "return_exec x s = (Inr x, s)"

definition throw_exec :: "exn \<Rightarrow> ('s, 'a) exec" where
  "throw_exec e s = (Inl e, s)"

definition bind_exec :: "('s, 'a) exec \<Rightarrow> ('a \<Rightarrow> ('s, 'b) exec) \<Rightarrow> ('s, 'b) exec" where
  "bind_exec m k s = (case m s of (Inl e, s') \<Rightarrow> (Inl e, s') | (Inr x, s') \<Rightarrow> k x s')"

definition then_exec :: "('s, unit) exec \<Rightarrow> ('s, 'b) exec \<Rightarrow> ('s, 'b) exec" where
  "then_exec m k = bind_exec m (\<lambda>_. k)"

definition gets_exec :: "('s \<Rightarrow> 'a) \<Rightarrow> ('s, 'a) exec" where
  "gets_exec f s = (Inr (f s), s)"

definition modify_exec :: "('s \<Rightarrow> 's) \<Rightarrow> ('s, unit) exec" where
  "modify_exec f s = (Inr (), f s)"

text \<open>Code on the object whose result depends on its present value: \<open>read_exec\<close> hands
  the state to the body.\<close>

definition read_exec :: "('s \<Rightarrow> ('s, 'a) exec) \<Rightarrow> ('s, 'a) exec" where
  "read_exec f s = f s s"

definition lift_result :: "'a result \<Rightarrow> ('s, 'a) exec" where
  "lift_result r s = (r, s)"

primrec foreach_exec :: "'i list \<Rightarrow> ('i \<Rightarrow> ('s, unit) exec) \<Rightarrow> ('s, unit) exec" where
  "foreach_exec [] f = return_exec ()"
| "foreach_exec (x # xs) f = then_exec (f x) (foreach_exec xs f)"

lemmas exec_defs =
  return_exec_def throw_exec_def bind_exec_def then_exec_def gets_exec_def
  modify_exec_def read_exec_def lift_result_def

subsection \<open>Weakest preconditions with an exceptional postcondition\<close>

text \<open>\<open>wp m Q E s\<close>: started in \<open>s\<close>, the computation either returns \<open>x\<close> in a state where \<open>Q x\<close> holds or throws \<open>e\<close>
  in a state where \<open>E e\<close> holds. The equations \<open>wp_simps\<close> reduce it to a statement about states.\<close>

definition wp :: "('s, 'a) exec \<Rightarrow> ('a \<Rightarrow> 's \<Rightarrow> bool) \<Rightarrow> (exn \<Rightarrow> 's \<Rightarrow> bool) \<Rightarrow> 's \<Rightarrow> bool" where
  "wp m Q E s \<longleftrightarrow> (case m s of (Inr x, s') \<Rightarrow> Q x s' | (Inl e, s') \<Rightarrow> E e s')"

named_theorems wp_simps \<open>equations for \<open>wp\<close>\<close>

lemma wp_basic [wp_simps]:
  "wp (return_exec x) Q E s \<longleftrightarrow> Q x s"
  "wp (throw_exec e) Q E s \<longleftrightarrow> E e s"
  "wp (gets_exec g) Q E s \<longleftrightarrow> Q (g s) s"
  "wp (lift_result (Inr x)) Q E s \<longleftrightarrow> Q x s"
  "wp (lift_result (Inl e)) Q E s \<longleftrightarrow> E e s"
  by (simp_all add: wp_def exec_defs)

lemma wp_modify [wp_simps]: "wp (modify_exec f) Q E s \<longleftrightarrow> Q () (f s)"
  by (simp add: wp_def exec_defs)

lemma wp_read [wp_simps]: "wp (read_exec g) Q E s \<longleftrightarrow> wp (g s) Q E s"
  by (simp add: wp_def exec_defs)

lemma wp_bind [wp_simps]:
  "wp (bind_exec m k) Q E s \<longleftrightarrow> wp m (\<lambda>x. wp (k x) Q E) E s"
  by (simp add: wp_def exec_defs split: prod.splits sum.splits)

lemma wp_then [wp_simps]: "wp (then_exec m n) Q E s \<longleftrightarrow> wp m (\<lambda>_. wp n Q E) E s"
  by (simp add: wp_def exec_defs split: prod.splits sum.splits)

lemma wp_lift_result:
  "wp (lift_result r) Q E s \<longleftrightarrow> (\<forall>x. r = Inr x \<longrightarrow> Q x s) \<and> (\<forall>e. r = Inl e \<longrightarrow> E e s)"
  by (cases r) (simp_all add: wp_simps)

lemma wp_if [wp_simps]:
  "wp (if b then m else n) Q E s \<longleftrightarrow> (b \<longrightarrow> wp m Q E s) \<and> (\<not> b \<longrightarrow> wp n Q E s)"
  by simp

lemma wp_mono:
  assumes "wp m Q E s" and "\<And>x s'. Q x s' \<Longrightarrow> Q' x s'" and "\<And>e s'. E e s' \<Longrightarrow> E' e s'"
  shows "wp m Q' E' s"
  using assms by (auto simp: wp_def split: prod.splits sum.splits)

text \<open>Sequencing with an intermediate assertion.\<close>

lemma wp_thenI:
  assumes "wp m (\<lambda>_. R) E s" and "\<And>t. R t \<Longrightarrow> wp n Q E t"
  shows "wp (then_exec m n) Q E s"
  unfolding wp_then by (rule wp_mono [OF assms(1)]) (use assms(2) in auto)

lemma wp_conj:
  "wp m Q E s \<Longrightarrow> wp m Q' E' s \<Longrightarrow> wp m (\<lambda>x s'. Q x s' \<and> Q' x s') (\<lambda>e s'. E e s' \<and> E' e s') s"
  by (auto simp: wp_def split: prod.splits sum.splits)

lemma wpD:
  assumes "wp m Q E s"
  shows "m s = (Inr x, s') \<Longrightarrow> Q x s'" and "m s = (Inl e, s') \<Longrightarrow> E e s'"
  using assms by (auto simp: wp_def)

text \<open>The outcome of a computation that does not throw.\<close>

lemma exec_returns:
  assumes "\<not> isl (fst (m s))"
  obtains x where "m s = (Inr x, snd (m s))"
  using assms by (metis prod.collapse sum.collapse(2))

lemma wp_foreach:
  assumes "\<And>x t. x \<in> set xs \<Longrightarrow> I t \<Longrightarrow> wp (f x) (\<lambda>_. I) E t" and "I s"
  shows "wp (foreach_exec xs f) (\<lambda>_. I) E s"
  using assms
proof (induction xs arbitrary: s)
  case Nil
  then show ?case by (simp add: wp_simps)
next
  case (Cons x xs)
  have "wp (f x) (\<lambda>_. I) E s" using Cons.prems by simp
  then have "wp (f x) (\<lambda>_. wp (foreach_exec xs f) (\<lambda>_. I) E) E s"
    by (rule wp_mono) (use Cons in auto)
  then show ?case by (simp add: wp_simps)
qed

text \<open>A loop invariant indexed by the iterations still to come.\<close>

lemma wp_foreach_rest:
  assumes "\<And>x rest t. I (x # rest) t \<Longrightarrow> wp (f x) (\<lambda>_. I rest) E t" and "I xs s"
  shows "wp (foreach_exec xs f) (\<lambda>_. I []) E s"
  using assms(2)
proof (induction xs arbitrary: s)
  case Nil
  then show ?case by (simp add: wp_simps)
next
  case (Cons x xs)
  have "wp (f x) (\<lambda>_. wp (foreach_exec xs f) (\<lambda>_. I []) E) E s"
    by (rule wp_mono [OF assms(1) [OF Cons.prems]]) (use Cons.IH in auto)
  then show ?case by (simp add: wp_simps)
qed

section \<open>Stream formatting of unsigned numbers\<close>

definition digit_char :: "nat \<Rightarrow> char" where
  "digit_char d = ''0123456789abcdef'' ! d"

fun show_base :: "nat \<Rightarrow> nat \<Rightarrow> string" where
  "show_base b n =
     (if b < 2 \<or> n < b then [digit_char n] else show_base b (n div b) @ [digit_char (n mod b)])"

declare show_base.simps [simp del]

definition show_dec :: "nat \<Rightarrow> string" where
  "show_dec = show_base 10"

definition show_hex :: "nat \<Rightarrow> string" where
  "show_hex = show_base 16"

lemma show_base_nonempty [simp]: "show_base b n \<noteq> []"
  by (subst show_base.simps) simp

text \<open>Parsing a complete string of digits: the success case of \<^verbatim>\<open>std::from_chars\<close> that consumes its whole
  input, before the range check of the target type.\<close>

definition digit_value :: "char \<Rightarrow> nat option" where
  "digit_value c =
     (let n = of_char c :: nat
      in if 48 \<le> n \<and> n \<le> 57 then Some (n - 48)
         else if 97 \<le> n \<and> n \<le> 122 then Some (n - 87)
         else if 65 \<le> n \<and> n \<le> 90 then Some (n - 55)
         else None)"

fun parse_digits :: "nat \<Rightarrow> string \<Rightarrow> nat \<Rightarrow> nat option" where
  "parse_digits base [] acc = Some acc"
| "parse_digits base (c # cs) acc =
     (case digit_value c of
        None \<Rightarrow> None
      | Some v \<Rightarrow> if v < base then parse_digits base cs (acc * base + v) else None)"

definition from_chars :: "nat \<Rightarrow> nat \<Rightarrow> string \<Rightarrow> nat option" where
  "from_chars base bits s =
     (if s = [] then None
      else case parse_digits base s 0 of
             None \<Rightarrow> None
           | Some v \<Rightarrow> if v < 2 ^ bits then Some v else None)"

lemma parse_digits_append:
  "parse_digits base (xs @ ys) acc =
     (case parse_digits base xs acc of None \<Rightarrow> None | Some v \<Rightarrow> parse_digits base ys v)"
  by (induction base xs acc rule: parse_digits.induct) (auto split: option.splits)

lemma digit_value_digit_char: "d < 16 \<Longrightarrow> digit_value (digit_char d) = Some d"
proof -
  have "\<forall>d\<in>set [0..<16]. digit_value (digit_char d) = Some d" by code_simp
  then show "d < 16 \<Longrightarrow> digit_value (digit_char d) = Some d" by simp
qed

lemma parse_digits_show_base:
  assumes "2 \<le> b" and "b \<le> 16"
  shows "parse_digits b (show_base b n) 0 = Some n"
proof (induction n rule: less_induct)
  case (less n)
  show ?case
  proof (cases "n < b")
    case True
    then show ?thesis
      using assms by (subst show_base.simps) (simp add: digit_value_digit_char)
  next
    case False
    then have ih: "parse_digits b (show_base b (n div b)) 0 = Some (n div b)"
      using assms less by simp
    have m: "n mod b < b" using assms(1) by simp
    then have "digit_value (digit_char (n mod b)) = Some (n mod b)"
      using assms(2) by (intro digit_value_digit_char) linarith
    then show ?thesis
      using False assms ih m by (subst show_base.simps) (simp add: parse_digits_append)
  qed
qed

lemma from_chars_show_base:
  "2 \<le> b \<Longrightarrow> b \<le> 16 \<Longrightarrow> n < 2 ^ bits \<Longrightarrow> from_chars b bits (show_base b n) = Some n"
  by (simp add: from_chars_def parse_digits_show_base)

section \<open>Words\<close>

text \<open>Clearing the low bits with \<open>x & ~(2\<^sup>k - 1)\<close> rounds down to a multiple of \<open>2\<^sup>k\<close>.\<close>

lemma unat_take_bit_word: "unat (take_bit k (x :: 'a::len word)) = unat x mod 2 ^ k"
  by (metis take_bit_eq_mod unsigned_take_bit_eq)

lemma unat_and_mask: "unat ((x :: 'a::len word) AND mask k) = unat x mod 2 ^ k"
  by (simp only: unat_take_bit_word flip: take_bit_eq_mask)

lemma and_not_mask: "(x :: 'a::len word) AND NOT (mask k) = x - (x AND mask k)"
proof -
  have "x - (x AND mask k) = x AND NOT (x AND mask k)"
    by (rule disjunctive_diff) (simp add: bit_simps)
  also have "\<dots> = x AND NOT (mask k)"
    by (rule bit_word_eqI) (auto simp: bit_simps)
  finally show ?thesis ..
qed

lemma unat_and_not_mask:
  "unat ((x :: 'a::len word) AND NOT (mask k)) = unat x - unat x mod 2 ^ k"
proof -
  have "x AND mask k \<le> x"
    by (simp add: word_le_nat_alt unat_and_mask)
  then show ?thesis
    by (simp add: and_not_mask unat_sub unat_and_mask)
qed

lemma of_nat_mask: "of_nat (2 ^ k - 1) = (mask k :: 'a::len word)"
  by (simp add: mask_eq_exp_minus_1 of_nat_diff)

lemma of_nat_mask_Suc: "of_nat (2 ^ k - Suc 0) = (mask k :: 'a::len word)"
  using of_nat_mask [of k] by simp

lemma and_mask_eq_0_iff: "(x :: 'a::len word) AND mask k = 0 \<longleftrightarrow> 2 ^ k dvd unat x"
  by (simp add: unat_and_mask dvd_eq_mod_eq_0 flip: unat_eq_0)

lemma unat_less_pow [simp]: "unat (x :: 'a::len word) < 2 ^ LENGTH('a)"
  by (rule unsigned_less)

lemma unat_u8_less: "unat (x :: u8) < 256"
  using unat_less_pow [of x] by simp

lemma unat_u64_less: "unat (x :: u64) < 2 ^ 64"
  using unat_less_pow [of x] by simp

lemma unat_plus_exact:
  "unat (x :: 'a::len word) + unat y < 2 ^ LENGTH('a) \<Longrightarrow> unat (x + y) = unat x + unat y"
  by (simp add: unat_add_lem)

lemma unat_of_nat_exact: "n < 2 ^ LENGTH('a) \<Longrightarrow> unat (of_nat n :: 'a::len word) = n"
  by (simp add: unat_of_nat take_bit_nat_eq_self_iff)

text \<open>Little-endian composition of bytes with shifts and ors is addition.\<close>

lemma unat_or_push_bit:
  fixes x y :: "'a::len word"
  assumes "unat x < 2 ^ k" and "unat y < 2 ^ m" and "k + m \<le> LENGTH('a)"
  shows "unat (x OR push_bit k y) = unat x + 2 ^ k * unat y"
proof -
  have "take_bit k x = x"
    using assms(1) by (simp add: word_unat_eq_iff unat_take_bit_word)
  then have "n < k" if "bit x n" for n
    using that by (metis bit_take_bit_iff)
  then have "x AND push_bit k y = 0"
    by (intro bit_word_eqI) (force simp: bit_simps)
  then have or: "x OR push_bit k y = x + push_bit k y"
    by (simp add: disjunctive_add_eq_or)
  have "unat x + 2 ^ k * unat y < 2 ^ k + 2 ^ k * unat y" using assms(1) by simp
  also have "\<dots> = 2 ^ k * Suc (unat y)" by simp
  also have "\<dots> \<le> 2 ^ k * 2 ^ m" using assms(2) by (intro mult_le_mono2) simp
  also have "\<dots> \<le> 2 ^ LENGTH('a)" using assms(3) by (simp flip: power_add add: power_increasing)
  finally have b: "unat x + 2 ^ k * unat y < 2 ^ LENGTH('a)" .
  have "unat (push_bit k y) = 2 ^ k * unat y"
    using b unfolding unsigned_push_bit_eq
    by (simp add: push_bit_eq_mult [of k "unat y"] take_bit_nat_eq_self_iff mult.commute)
  then show ?thesis
    unfolding or using b by (subst unat_plus_exact) simp_all
qed

lemma unat_ucast_up: "LENGTH('a) \<le> LENGTH('b) \<Longrightarrow> unat (ucast (x :: 'a::len word) :: 'b::len word) = unat x"
  by (metis nat_le_linear unsigned_ucast_eq take_bit_nat_eq_self_iff order_less_le_trans power_increasing_iff unat_less_pow one_less_numeral_iff semiring_norm(76))

lemma bit_255_iff: "bit (255 :: 'a::len word) n \<longleftrightarrow> n < LENGTH('a) \<and> n < 8"
proof -
  have "(255 :: 'a word) = mask 8" by (simp add: mask_eq_exp_minus_1)
  then show ?thesis by (simp only: bit_mask_iff possible_bit_word)
qed

lemma u8_and_255 [simp]: "(x :: u8) AND 255 = x"
  by (rule bit_word_eqI) (simp add: bit_and_iff bit_255_iff del: bit_numeral_word_iff)

lemma word_xor_eq_0: "(x :: 'a::len word) XOR y = 0 \<Longrightarrow> x = y"
  by (metis xor.assoc xor.left_neutral xor.right_neutral xor_self_eq)

section \<open>Lists\<close>

lemma filter_upt_interval:
  "filter (\<lambda>x. a \<le> x \<and> x < e) [b..<d] = [max a b..<min e d]"
  by (induction d) (auto simp: max_def min_def not_le less_Suc_eq_le le_Suc_eq)

lemma filter_map_shift:
  assumes "b \<le> a" and "e \<le> b + n"
  shows "map (\<lambda>i. b + i) (filter (\<lambda>i. a \<le> b + i \<and> b + i < e) [0..<n]) = [a..<e]"
proof -
  have "map (\<lambda>i. b + i) (filter (\<lambda>i. a \<le> b + i \<and> b + i < e) [0..<n]) =
        filter (\<lambda>x. a \<le> x \<and> x < e) (map (\<lambda>i. b + i) [0..<n])"
    by (simp add: filter_map o_def)
  also have "map (\<lambda>i. b + i) [0..<n] = [b..<b + n]"
    by (simp add: map_add_upt add.commute)
  finally show ?thesis
    using assms by (simp add: filter_upt_interval max_absorb1 min_absorb1)
qed

text \<open>Consecutive intervals concatenate.\<close>

lemma append_upt: "i \<le> j \<Longrightarrow> j \<le> k \<Longrightarrow> [i..<j] @ [j..<k] = [i..<k]"
  by (metis le_Suc_ex upt_add_eq_append)

lemma concat_intervals:
  assumes "mono f"
  shows "concat (map (\<lambda>i. [f i..<f (Suc i)]) [m..<m + n]) = [f m..<f (m + n)]"
proof (induction n)
  case 0
  then show ?case by simp
next
  case (Suc n)
  have "f m \<le> f (m + n)" "f (m + n) \<le> f (Suc (m + n))"
    using assms by (auto intro: monoD)
  then show ?case
    using Suc by (simp add: append_upt)
qed

end
