(* ===== verification/Axi_Types.thy ===== *)
theory Axi_Types
  imports Axi_Prelude
begin

text \<open>
  The channel data types of \<^verbatim>\<open>src/axi.hpp\<close>: response codes, burst kinds, the payloads of the five
  AXI channels, the signals a master and the fabric drive, and the rule that merges the responses of
  the beats of a burst. \<open>combine_response\<close> is shown to be the maximum in the order of the two-bit
  response codes.
\<close>

section \<open>Response codes\<close>

datatype response = Okay | ExclusiveOkay | SlaveError | DecodeError

fun response_code :: "response \<Rightarrow> u8" where
  "response_code Okay = 0"
| "response_code ExclusiveOkay = 1"
| "response_code SlaveError = 2"
| "response_code DecodeError = 3"

definition combine_response :: "response \<Rightarrow> response \<Rightarrow> response" where
  "combine_response lhs rhs =
     (if lhs = DecodeError \<or> rhs = DecodeError then DecodeError
      else if lhs = SlaveError \<or> rhs = SlaveError then SlaveError
      else if lhs = ExclusiveOkay \<or> rhs = ExclusiveOkay then ExclusiveOkay
      else Okay)"

definition response_is_success :: "response \<Rightarrow> bool" where
  "response_is_success r \<longleftrightarrow> r = Okay \<or> r = ExclusiveOkay"

instantiation response :: linorder
begin

definition less_eq_response :: "response \<Rightarrow> response \<Rightarrow> bool" where
  "less_eq_response a b \<longleftrightarrow> response_code a \<le> response_code b"

definition less_response :: "response \<Rightarrow> response \<Rightarrow> bool" where
  "less_response a b \<longleftrightarrow> response_code a < response_code b"

instance
proof
  fix x y z :: response
  show "(x < y) = (x \<le> y \<and> \<not> y \<le> x)"
    by (auto simp: less_eq_response_def less_response_def)
  show "x \<le> x"
    by (simp add: less_eq_response_def)
  show "x \<le> y \<Longrightarrow> y \<le> z \<Longrightarrow> x \<le> z"
    by (simp add: less_eq_response_def)
  show "x \<le> y \<Longrightarrow> y \<le> x \<Longrightarrow> x = y"
    by (cases x; cases y) (simp_all add: less_eq_response_def word_le_nat_alt)
  show "x \<le> y \<or> y \<le> x"
    by (auto simp: less_eq_response_def)
qed

end

lemma combine_response_max: "combine_response a b = max a b"
  by (cases a; cases b) (simp_all add: combine_response_def max_def less_eq_response_def word_le_nat_alt)

lemma response_is_success_iff: "response_is_success r \<longleftrightarrow> r \<le> ExclusiveOkay"
  by (cases r) (simp_all add: response_is_success_def less_eq_response_def word_le_nat_alt)

section \<open>Channel payloads\<close>

datatype burst = Fixed | Increment | Wrap | Reserved

record address_payload =
  ax_id :: u64
  ax_address :: u64
  ax_length :: u8
  ax_size :: u8
  ax_burst :: burst
  ax_lock :: bool
  ax_cache :: u8
  ax_protection :: u8

record write_data_payload =
  w_data :: "u8 list"
  w_strobe :: "u8 list"
  w_last :: bool

record read_data_payload =
  r_id :: u64
  r_data :: "u8 list"
  r_response :: response
  r_last :: bool

record write_response_payload =
  b_id :: u64
  b_response :: response
  b_exit_response :: bool
  b_exit_code :: u32

text \<open>The member initialisers of the payload structs; arrays have \<open>DataBytes\<close> elements.\<close>

definition default_address_payload :: address_payload where
  "default_address_payload =
     \<lparr>ax_id = 0, ax_address = 0, ax_length = 0, ax_size = 0, ax_burst = Increment,
      ax_lock = False, ax_cache = 0, ax_protection = 0\<rparr>"

definition default_write_data :: "nat \<Rightarrow> write_data_payload" where
  "default_write_data db = \<lparr>w_data = replicate db 0, w_strobe = replicate db 0, w_last = False\<rparr>"

definition default_read_data :: "nat \<Rightarrow> read_data_payload" where
  "default_read_data db =
     \<lparr>r_id = 0, r_data = replicate db 0, r_response = Okay, r_last = False\<rparr>"

definition default_write_response :: write_response_payload where
  "default_write_response =
     \<lparr>b_id = 0, b_response = Okay, b_exit_response = False, b_exit_code = 0\<rparr>"

section \<open>Signals at a port\<close>

record master_signals =
  aw_valid :: bool
  m_aw :: address_payload
  w_valid :: bool
  m_w :: write_data_payload
  b_ready :: bool
  ar_valid :: bool
  m_ar :: address_payload
  r_ready :: bool

record slave_signals =
  aw_ready :: bool
  w_ready :: bool
  b_valid :: bool
  s_b :: write_response_payload
  ar_ready :: bool
  r_valid :: bool
  s_r :: read_data_payload

definition default_master_signals :: "nat \<Rightarrow> master_signals" where
  "default_master_signals db =
     \<lparr>aw_valid = False, m_aw = default_address_payload, w_valid = False,
      m_w = default_write_data db, b_ready = False, ar_valid = False,
      m_ar = default_address_payload, r_ready = False\<rparr>"

definition default_slave_signals :: "nat \<Rightarrow> slave_signals" where
  "default_slave_signals db =
     \<lparr>aw_ready = False, w_ready = False, b_valid = False, s_b = default_write_response,
      ar_ready = False, r_valid = False, s_r = default_read_data db\<rparr>"

text \<open>Merging the responses of two beats (\<^verbatim>\<open>combine_response\<close>) keeps the more severe one: it is
  the least upper bound of the two in the order of the response codes OKAY < EXOKAY < SLVERR <
  DECERR, so the response of a burst does not depend on the order of its beats, and it reports
  success exactly when every merged response does.\<close>

theorem combine_response_least_upper_bound:
  "response_code (combine_response a b) = max (response_code a) (response_code b) \<and>
   combine_response a b = combine_response b a \<and>
   combine_response (combine_response a b) c = combine_response a (combine_response b c) \<and>
   response_is_success (combine_response a b) = (response_is_success a \<and> response_is_success b)"
proof -
  have "response_code (combine_response a b) = max (response_code a) (response_code b)"
    by (cases a; cases b) (simp_all add: combine_response_def)
  then show ?thesis
    by (simp add: combine_response_max response_is_success_iff ac_simps)
qed

end
