(* ===== verification/Burst_Cursor.thy ===== *)
theory Burst_Cursor
  imports Axi_Types
begin

text \<open>
  \<^verbatim>\<open>BurstCursor<DataBytes>\<close> of \<^verbatim>\<open>src/axi.hpp\<close>: the addresses and byte lanes of every beat of an AXI
  burst. The template parameter is the argument \<open>db\<close>. The 128-bit intermediate arithmetic and the
  64-bit masks are kept at their widths; the lemmas relate them to natural-number address arithmetic
  (\<open>spec_beat_address\<close>) and then to the list of byte addresses a whole burst touches.
\<close>

section \<open>The cursor\<close>

record burst_cursor =
  bc_payload :: address_payload
  bc_beats :: nat
  bc_beat_bytes :: nat

definition checked_beat_bytes :: "u8 \<Rightarrow> nat result" where
  "checked_beat_bytes sz =
     (if unat sz \<ge> 8 * 8 then Inl (ProtocolError ''AXI AxSIZE is not representable'')
      else Inr (2 ^ unat sz))"

definition validate_shape :: "nat \<Rightarrow> burst_cursor \<Rightarrow> unit result" where
  "validate_shape db c =
     (if bc_beat_bytes c > db then Inl (ProtocolError ''AXI AxSIZE exceeds the data bus width'')
      else if ax_burst (bc_payload c) = Reserved then Inl (ProtocolError ''reserved AXI burst type'')
      else if ax_burst (bc_payload c) = Fixed \<and> bc_beats c > 16
      then Inl (ProtocolError ''AXI FIXED burst contains more than 16 beats'')
      else if ax_burst (bc_payload c) = Wrap then
        (if bc_beats c \<noteq> 2 \<and> bc_beats c \<noteq> 4 \<and> bc_beats c \<noteq> 8 \<and> bc_beats c \<noteq> 16
         then Inl (ProtocolError ''AXI WRAP burst length is not 2, 4, 8, or 16'')
         else if ax_address (bc_payload c) AND of_nat (bc_beat_bytes c - 1) \<noteq> 0
         then Inl (ProtocolError ''AXI WRAP burst start is not beat-aligned'')
         else Inr ())
      else Inr ())"

text \<open>The constructor.\<close>

definition burst_cursor_new :: "nat \<Rightarrow> address_payload \<Rightarrow> burst_cursor result" where
  "burst_cursor_new db p =
     result_bind (checked_beat_bytes (ax_size p)) (\<lambda>bb.
       let c = \<lparr>bc_payload = p, bc_beats = unat (ax_length p) + 1, bc_beat_bytes = bb\<rparr>
       in result_bind (validate_shape db c) (\<lambda>_. Inr c))"

definition beat_address :: "burst_cursor \<Rightarrow> nat \<Rightarrow> u64 result" where
  "beat_address c index =
     (if index \<ge> bc_beats c then Inl (OutOfRange ''AXI beat index out of range'')
      else
        let start = ucast (ax_address (bc_payload c)) :: u128;
            aligned = start AND NOT (of_nat (bc_beat_bytes c - 1))
        in result_bind
             (case ax_burst (bc_payload c) of
                Fixed \<Rightarrow> Inr start
              | Increment \<Rightarrow>
                  Inr (if index = 0 then start
                       else aligned + of_nat index * of_nat (bc_beat_bytes c))
              | Wrap \<Rightarrow>
                  (let boundary = of_nat (bc_beats c) * of_nat (bc_beat_bytes c);
                       base = start AND NOT (boundary - 1)
                   in Inr (base + (start - base + of_nat index * of_nat (bc_beat_bytes c)) mod boundary))
              | Reserved \<Rightarrow> Inl (ProtocolError ''reserved AXI burst type''))
             (\<lambda>res. if res > 0xFFFFFFFFFFFFFFFF
                    then Inl (ProtocolError ''AXI address arithmetic overflow'')
                    else Inr (ucast res)))"

definition lane_mask :: "nat \<Rightarrow> burst_cursor \<Rightarrow> nat \<Rightarrow> u8 list result" where
  "lane_mask db c index =
     result_bind (beat_address c index) (\<lambda>address.
       let aligned_to_size = address AND NOT (of_nat (bc_beat_bytes c - 1));
           first = address;
           last = aligned_to_size + of_nat (bc_beat_bytes c);
           bus_base = address AND NOT (of_nat (db - 1))
       in Inr (map (\<lambda>lane. let byte_address = bus_base + of_nat lane
                           in if byte_address \<ge> first \<and> byte_address < last then 1 else 0)
                 [0..<db]))"

definition bus_word_address :: "nat \<Rightarrow> burst_cursor \<Rightarrow> nat \<Rightarrow> u64 result" where
  "bus_word_address db c index =
     result_bind (beat_address c index) (\<lambda>a. Inr (a AND NOT (of_nat db - 1)))"

definition validate_4k_boundary :: "nat \<Rightarrow> burst_cursor \<Rightarrow> unit result" where
  "validate_4k_boundary db c =
     (let page = drop_bit 12 (ax_address (bc_payload c))
      in result_all (\<lambda>beat.
           result_bind (bus_word_address db c beat) (\<lambda>base.
             result_bind (lane_mask db c beat) (\<lambda>lanes.
               result_all (\<lambda>lane.
                 throw_if (lanes ! lane \<noteq> 0 \<and> drop_bit 12 (base + of_nat lane) \<noteq> page)
                   (ProtocolError ''AXI burst crosses a 4 KiB boundary''))
                 [0..<db])))
           [0..<bc_beats c])"

section \<open>Shape facts of a constructed cursor\<close>

text \<open>The data bus widths: any power of two up to the 128 bytes AxSIZE can name. The fabric
  instantiates 4, 8 and 16.\<close>

definition bus_bytes_ok :: "nat \<Rightarrow> bool" where
  "bus_bytes_ok db \<longleftrightarrow> db \<in> {1, 2, 4, 8, 16, 32, 64, 128}"

definition cursor_of :: "nat \<Rightarrow> burst_cursor \<Rightarrow> bool" where
  "cursor_of db c \<longleftrightarrow> bus_bytes_ok db \<and> burst_cursor_new db (bc_payload c) = Inr c"

lemma bus_bytes_okE:
  assumes "bus_bytes_ok db"
  obtains j where "db = 2 ^ j" "j \<le> 7"
proof -
  have "db = 2 ^ 0 \<or> db = 2 ^ 1 \<or> db = 2 ^ 2 \<or> db = 2 ^ 3 \<or> db = 2 ^ 4 \<or> db = 2 ^ 5 \<or> db = 2 ^ 6 \<or> db = 2 ^ 7"
    using assms by (auto simp: bus_bytes_ok_def)
  then show ?thesis
    using that by (elim disjE) (rule that, assumption, simp)+
qed

lemma burst_cursor_new_payload: "burst_cursor_new db p = Inr c \<Longrightarrow> bc_payload c = p"
  by (auto simp: burst_cursor_new_def Let_def)

lemma cursor_ofI: "bus_bytes_ok db \<Longrightarrow> burst_cursor_new db p = Inr c \<Longrightarrow> cursor_of db c"
  by (simp add: cursor_of_def burst_cursor_new_payload)

text \<open>Everything the constructor guarantees, over natural numbers.\<close>

lemma cursor_shape:
  assumes "cursor_of db c"
  obtains j k where "db = 2 ^ j" "j \<le> 7" "bc_beat_bytes c = 2 ^ k" "k \<le> j"
    "k = unat (ax_size (bc_payload c))" "bc_beats c = unat (ax_length (bc_payload c)) + 1"
    "bc_beats c \<le> 256" "ax_burst (bc_payload c) \<noteq> Reserved"
    "ax_burst (bc_payload c) = Fixed \<Longrightarrow> bc_beats c \<le> 16"
    "ax_burst (bc_payload c) = Wrap \<Longrightarrow> bc_beats c \<in> {2, 4, 8, 16} \<and>
       2 ^ k dvd unat (ax_address (bc_payload c))"
proof -
  obtain j where j: "db = 2 ^ j" "j \<le> 7"
    using assms bus_bytes_okE by (auto simp: cursor_of_def)
  let ?p = "bc_payload c"
  let ?k = "unat (ax_size ?p)"
  have c: "c = \<lparr>bc_payload = ?p, bc_beats = unat (ax_length ?p) + 1, bc_beat_bytes = 2 ^ ?k\<rparr>"
    and v: "validate_shape db c = Inr ()"
    using assms by (auto simp: cursor_of_def burst_cursor_new_def checked_beat_bytes_def Let_def split: if_splits)
  have bb: "bc_beat_bytes c = 2 ^ ?k" and n: "bc_beats c = unat (ax_length ?p) + 1"
    by (subst c, simp)+
  have n256: "bc_beats c \<le> 256"
    using n unat_u8_less [of "ax_length ?p"] by simp
  have "(2::nat) ^ ?k \<le> 2 ^ j"
    using v bb j by (auto simp: validate_shape_def split: if_splits)
  then have kj: "?k \<le> j" by simp
  show ?thesis
  proof (rule that [OF j bb kj refl n n256])
    show "ax_burst ?p \<noteq> Reserved" and "ax_burst ?p = Fixed \<Longrightarrow> bc_beats c \<le> 16"
      using v by (auto simp: validate_shape_def split: if_splits)
    assume "ax_burst ?p = Wrap"
    then have "bc_beats c \<in> {2, 4, 8, 16}" and "ax_address ?p AND of_nat (2 ^ ?k - 1) = 0"
      using v bb by (auto simp: validate_shape_def split: if_splits)
    then show "bc_beats c \<in> {2, 4, 8, 16} \<and> 2 ^ ?k dvd unat (ax_address ?p)"
      by (simp add: of_nat_mask_Suc and_mask_eq_0_iff)
  qed
qed

lemma wrap_shape:
  assumes "cursor_of db c" and "ax_burst (bc_payload c) = Wrap"
  obtains m k where "bc_beats c = 2 ^ m" "m \<le> 4" "bc_beat_bytes c = 2 ^ k" "k \<le> 7"
    "2 ^ k dvd unat (ax_address (bc_payload c))"
proof -
  obtain j k where k: "bc_beat_bytes c = 2 ^ k" "j \<le> 7" "k \<le> j"
      and w: "bc_beats c \<in> {2, 4, 8, 16} \<and> 2 ^ k dvd unat (ax_address (bc_payload c))"
    using cursor_shape [OF assms(1)] assms(2) by metis
  have "bc_beats c = 2 ^ 1 \<or> bc_beats c = 2 ^ 2 \<or> bc_beats c = 2 ^ 3 \<or> bc_beats c = 2 ^ 4"
    using w by auto
  then obtain m where "m \<le> 4" "bc_beats c = 2 ^ m"
    by (elim disjE) (erule_tac that [rotated], simp)+
  with k w that show ?thesis by auto
qed

section \<open>Beat addresses over natural numbers\<close>

definition spec_beat_address :: "nat \<Rightarrow> nat \<Rightarrow> nat \<Rightarrow> burst \<Rightarrow> nat \<Rightarrow> nat" where
  "spec_beat_address start bytes n b i =
     (case b of
        Fixed \<Rightarrow> start
      | Increment \<Rightarrow> if i = 0 then start else start div bytes * bytes + i * bytes
      | Wrap \<Rightarrow> let base = start div (n * bytes) * (n * bytes)
                in base + (start - base + i * bytes) mod (n * bytes)
      | Reserved \<Rightarrow> 0)"

lemma unat_ucast_u128 [simp]: "unat (ucast (a :: u64) :: u128) = unat a"
  using unat_u64_less [of a] by (simp add: unsigned_ucast_eq take_bit_nat_eq_self_iff)

lemma unat_ucast_u64: "unat (ucast (a :: u128) :: u64) = unat a mod 2 ^ 64"
  by (simp add: unsigned_ucast_eq take_bit_eq_mod)

lemma unat_incr_u128:
  assumes "i \<le> 256" and "k \<le> 7"
  shows "unat (((ucast (a :: u64) :: u128) AND NOT (mask k)) + of_nat i * of_nat (2 ^ k)) =
         unat a div 2 ^ k * 2 ^ k + i * 2 ^ k"
proof -
  let ?x = "(ucast a :: u128) AND NOT (mask k)"
  have "i * 2 ^ k \<le> 256 * 2 ^ 7"
    using assms by (intro mult_le_mono power_increasing) auto
  then have y: "unat (of_nat (i * 2 ^ k) :: u128) = i * 2 ^ k" and yb: "i * 2 ^ k \<le> 2 ^ 15"
    by (simp_all add: unat_of_nat_exact del: of_nat_mult)
  have x: "unat ?x = unat a div 2 ^ k * 2 ^ k"
    by (simp add: unat_and_not_mask minus_mod_eq_div_mult)
  have "unat ?x \<le> unat a" using x by (simp add: div_times_less_eq_dividend)
  then have "unat ?x + unat (of_nat (i * 2 ^ k) :: u128) < 2 ^ LENGTH(128)"
    using y yb unat_u64_less [of a] by simp
  from unat_plus_exact [OF this] x y show ?thesis by simp
qed

lemma unat_wrap_u128:
  fixes a :: u64
  assumes "i \<le> 256" and "k \<le> 7" and "m \<le> 4"
  defines "T \<equiv> 2 ^ m * 2 ^ k :: nat"
  defines "base \<equiv> (ucast a :: u128) AND NOT (of_nat (2 ^ m) * of_nat (2 ^ k) - 1)"
  shows "unat (base + (ucast a - base + of_nat i * of_nat (2 ^ k)) mod (of_nat (2 ^ m) * of_nat (2 ^ k))) =
         unat a div T * T + (unat a - unat a div T * T + i * 2 ^ k) mod T"
proof -
  have T: "T = 2 ^ (m + k)" by (simp add: T_def power_add)
  have mk: "m + k \<le> 11" using assms by simp
  then have Tle: "T \<le> 2 ^ 11" unfolding T by (rule power_increasing) simp
  have bw: "of_nat (2 ^ m) * of_nat (2 ^ k) = (2 ^ (m + k) :: u128)" by (simp add: power_add)
  have b: "base = (ucast a :: u128) AND NOT (mask (m + k))"
    by (simp add: base_def bw mask_eq_exp_minus_1 power_add)
  have ub: "unat base = unat a div T * T"
    unfolding b T by (simp add: unat_and_not_mask minus_mod_eq_div_mult)
  have le: "unat a div T * T \<le> unat a" by (simp add: div_times_less_eq_dividend)
  have "base \<le> ucast a" using ub le by (simp add: word_le_nat_alt)
  then have d: "unat (ucast a - base) = unat a - unat a div T * T" by (simp add: unat_sub ub)
  have dT: "unat a - unat a div T * T \<le> T"
    using T by (metis less_or_eq_imp_le minus_div_mult_eq_mod mod_less_divisor pos2 zero_less_power)
  have "i * 2 ^ k \<le> 256 * 2 ^ 7"
    using assms by (intro mult_le_mono power_increasing) auto
  then have y: "unat (of_nat (i * 2 ^ k) :: u128) = i * 2 ^ k" and yb: "i * 2 ^ k \<le> 2 ^ 15"
    by (simp_all add: unat_of_nat_exact del: of_nat_mult)
  have "unat (ucast a - base + of_nat (i * 2 ^ k)) = unat a - unat a div T * T + i * 2 ^ k"
    using d y yb dT Tle by (subst unat_plus_exact) (simp_all del: of_nat_mult)
  moreover have "unat (2 ^ (m + k) :: u128) = T"
    using unat_of_nat_exact [of T, where ?'a = 128] Tle T by simp
  ultimately have r: "unat ((ucast a - base + of_nat (i * 2 ^ k)) mod 2 ^ (m + k)) =
      (unat a - unat a div T * T + i * 2 ^ k) mod T"
    by (simp only: unat_mod_distrib)
  let ?r = "(unat a - unat a div T * T + i * 2 ^ k) mod T"
  have "?r < T" using T by simp
  then have "unat a div T * T + ?r < 2 ^ 64 + 2 ^ 11"
    using le Tle unat_u64_less [of a] by linarith
  then have "unat a div T * T + ?r < 2 ^ LENGTH(128)" by simp
  then show ?thesis
    unfolding bw using r ub by (subst unat_plus_exact) simp_all
qed

text \<open>A wrapping burst stays inside its aligned container, so below \<open>2 ^ 64\<close>.\<close>

lemma wrap_container_bound:
  assumes "a < 2 ^ 64" and "T = 2 ^ t" and "t \<le> 64" and "r < T"
  shows "a div T * T + r < (2::nat) ^ 64"
proof -
  have "T * 2 ^ (64 - t) = 2 ^ 64" using assms by (simp flip: power_add)
  then have "a div T < 2 ^ (64 - t)"
    using assms by (simp add: less_mult_imp_div_less mult.commute)
  then have "Suc (a div T) * T \<le> 2 ^ (64 - t) * T" by (intro mult_le_mono) auto
  also have "\<dots> = 2 ^ 64" using \<open>T * 2 ^ (64 - t) = 2 ^ 64\<close> by (simp add: mult.commute)
  finally show ?thesis using assms(4) by simp
qed

text \<open>\<open>beat_address\<close> computes the natural-number address, and throws exactly on overflow.\<close>

lemma narrow_u128:
  assumes "unat (r :: u128) = n"
  shows "(if r > 0xFFFFFFFFFFFFFFFF then Inl (ProtocolError ''AXI address arithmetic overflow'') else Inr (ucast r)) =
    (if n < 2 ^ 64 then Inr (of_nat n :: u64) else Inl (ProtocolError ''AXI address arithmetic overflow''))"
proof -
  have "ucast r = (of_nat n :: u64)"
    using assms by (simp add: word_unat_eq_iff unat_ucast_u64 unat_of_nat take_bit_eq_mod)
  then show ?thesis using assms by (auto simp: word_less_nat_alt)
qed

lemma beat_address_spec:
  assumes "cursor_of db c" and "i < bc_beats c"
  defines "s \<equiv> spec_beat_address (unat (ax_address (bc_payload c))) (bc_beat_bytes c) (bc_beats c)
                 (ax_burst (bc_payload c)) i"
  shows "beat_address c i =
           (if s < 2 ^ 64 then Inr (of_nat s)
            else Inl (ProtocolError ''AXI address arithmetic overflow''))"
    and "ax_burst (bc_payload c) \<noteq> Increment \<Longrightarrow> s < 2 ^ 64"
proof -
  let ?a = "ax_address (bc_payload c)"
  obtain j k where sh: "db = 2 ^ j" "j \<le> 7" "bc_beat_bytes c = 2 ^ k" "k \<le> j"
      "bc_beats c \<le> 256" "ax_burst (bc_payload c) \<noteq> Reserved"
    using cursor_shape [OF assms(1)] by metis
  have k7: "k \<le> 7" and i256: "i \<le> 256" and ge: "(i \<ge> bc_beats c) = False"
    using sh assms(2) by auto
  have "beat_address c i =
           (if s < 2 ^ 64 then Inr (of_nat s)
            else Inl (ProtocolError ''AXI address arithmetic overflow'')) \<and>
        (ax_burst (bc_payload c) \<noteq> Increment \<longrightarrow> s < 2 ^ 64)"
  proof (cases "ax_burst (bc_payload c)")
    case Fixed
    then show ?thesis
      using assms(2) narrow_u128 [of "ucast ?a"] unat_u64_less [of ?a]
      by (simp add: beat_address_def s_def spec_beat_address_def)
  next
    case Increment
    show ?thesis
    proof (cases "i = 0")
      case True
      then show ?thesis
        using Increment assms(2) narrow_u128 [of "ucast ?a"] unat_u64_less [of ?a]
        by (simp add: beat_address_def s_def spec_beat_address_def)
    next
      case False
      then have s: "s = unat ?a div 2 ^ k * 2 ^ k + i * 2 ^ k"
        using Increment sh(3) by (simp add: s_def spec_beat_address_def)
      have "beat_address c i = (if s < 2 ^ 64 then Inr (of_nat s)
            else Inl (ProtocolError ''AXI address arithmetic overflow''))"
        using Increment False ge narrow_u128 [OF unat_incr_u128 [OF i256 k7, of ?a]] sh(3)
        by (simp only: beat_address_def Let_def s burst.case result_bind_simps if_False
            of_nat_mask)
      then show ?thesis using Increment by simp
    qed
  next
    case Wrap
    obtain m where m: "m \<le> 4" "bc_beats c = 2 ^ m"
      using wrap_shape [OF assms(1) Wrap] by metis
    have s: "s = unat ?a div (2 ^ m * 2 ^ k) * (2 ^ m * 2 ^ k) +
        (unat ?a - unat ?a div (2 ^ m * 2 ^ k) * (2 ^ m * 2 ^ k) + i * 2 ^ k) mod (2 ^ m * 2 ^ k)"
      using Wrap m sh(3) by (simp add: s_def spec_beat_address_def Let_def)
    have "s < 2 ^ 64"
      unfolding s using m k7 unat_u64_less [of ?a]
      by (intro wrap_container_bound [where t = "m + k"]) (auto simp: power_add)
    moreover have "beat_address c i = (if s < 2 ^ 64 then Inr (of_nat s)
            else Inl (ProtocolError ''AXI address arithmetic overflow''))"
      using Wrap ge narrow_u128 [OF unat_wrap_u128 [OF i256 k7 m(1), of ?a]] sh(3) m(2)
      by (simp only: beat_address_def Let_def s burst.case result_bind_simps if_False)
    ultimately show ?thesis by simp
  next
    case Reserved
    then show ?thesis using sh by simp
  qed
  then show "beat_address c i =
           (if s < 2 ^ 64 then Inr (of_nat s)
            else Inl (ProtocolError ''AXI address arithmetic overflow''))"
    and "ax_burst (bc_payload c) \<noteq> Increment \<Longrightarrow> s < 2 ^ 64"
    by blast+
qed

section \<open>The bytes of a beat\<close>

text \<open>The byte addresses a beat enables, in lane order: what \<^verbatim>\<open>initialize_route\<close> and
  \<^verbatim>\<open>validate_4k_boundary\<close> walk over. The list is empty when the cursor throws.\<close>

definition cursor_bytes :: "nat \<Rightarrow> burst_cursor \<Rightarrow> nat \<Rightarrow> nat list" where
  "cursor_bytes db c i =
     (case (bus_word_address db c i, lane_mask db c i) of
        (Inr base, Inr lanes) \<Rightarrow>
          map (\<lambda>lane. unat (base + of_nat lane)) (filter (\<lambda>lane. lanes ! lane \<noteq> 0) [0..<db])
      | _ \<Rightarrow> [])"

definition burst_bytes :: "nat \<Rightarrow> burst_cursor \<Rightarrow> nat list" where
  "burst_bytes db c = concat (map (cursor_bytes db c) [0..<bc_beats c])"

lemma align_up_bound:
  assumes "a < 2 ^ 64" and "T = 2 ^ t" and "t \<le> 64"
  shows "a div T * T + T \<le> (2::nat) ^ 64"
proof -
  have "0 < T" using assms by simp
  then have "T - 1 < T" by simp
  from wrap_container_bound [OF assms this] \<open>0 < T\<close> show ?thesis by simp
qed

lemma bus_word_address_spec:
  assumes "db = 2 ^ j" and "beat_address c i = Inr a"
  shows "bus_word_address db c i = Inr (a AND NOT (mask j))"
    and "unat (a AND NOT (mask j)) = unat a div db * db"
  using assms by (simp_all add: bus_word_address_def mask_eq_exp_minus_1 unat_and_not_mask
      minus_mod_eq_div_mult flip: mask_eq_exp_minus_1)

lemma unat_lane_address:
  assumes "db = 2 ^ j" and "j \<le> 7" and "l < db"
  shows "unat ((a AND NOT (mask j)) + of_nat l :: u64) = unat a div db * db + l"
proof -
  have base: "unat (a AND NOT (mask j)) = unat a div db * db"
    using assms by (simp add: unat_and_not_mask minus_mod_eq_div_mult)
  have "unat a div db * db + l < 2 ^ 64"
    using assms unat_u64_less [of a] by (intro wrap_container_bound [of _ _ j]) auto
  moreover from this have "unat (of_nat l :: u64) = l"
    by (intro unat_of_nat_exact) simp
  ultimately show ?thesis
    using base by (subst unat_plus_exact) simp_all
qed

lemma lane_mask_spec:
  assumes "db = 2 ^ j" and "j \<le> 7" and "bc_beat_bytes c = 2 ^ k" and "k \<le> j"
    and "beat_address c i = Inr a"
  defines "e \<equiv> unat a div 2 ^ k * 2 ^ k + 2 ^ k"
  shows "lane_mask db c i =
    Inr (map (\<lambda>l. if e < 2 ^ 64 \<and> unat a \<le> unat a div db * db + l \<and> unat a div db * db + l < e
                   then 1 else 0) [0..<db])"
proof -
  have al: "unat (a AND NOT (mask k)) = unat a div 2 ^ k * 2 ^ k"
    by (simp add: unat_and_not_mask minus_mod_eq_div_mult)
  have "e \<le> 2 ^ 64"
    unfolding e_def using assms(2,4) unat_u64_less [of a] by (intro align_up_bound [of _ _ k]) auto
  have "(2::nat) ^ k < 2 ^ 64"
    using assms(2,4) by (intro power_strict_increasing) auto
  then have two: "unat (2 ^ k :: u64) = 2 ^ k"
    using unat_of_nat_exact [of "2 ^ k", where ?'a = 64] by simp
  have last: "unat ((a AND NOT (mask k)) + 2 ^ k) = (if e < 2 ^ 64 then e else 0)"
    using al two \<open>e \<le> 2 ^ 64\<close> by (auto simp: unat_word_ariths e_def)
  have "(if (a AND NOT (mask j)) + of_nat l \<ge> a \<and> (a AND NOT (mask j)) + of_nat l < (a AND NOT (mask k)) + 2 ^ k
         then 1 else 0 :: u8) =
        (if e < 2 ^ 64 \<and> unat a \<le> unat a div db * db + l \<and> unat a div db * db + l < e then 1 else 0)"
    if "l < db" for l
    using unat_lane_address [OF assms(1,2) that, of a] last
    by (auto simp: word_le_nat_alt word_less_nat_alt)
  then show ?thesis
    using assms(1,3,5) by (auto simp: lane_mask_def Let_def of_nat_mask_Suc)
qed

text \<open>A beat at address \<open>a\<close> enables the bytes from \<open>a\<close> to the end of its size-aligned window, and
  none when that window ends at \<open>2 ^ 64\<close>, where the exclusive bound wraps to zero.\<close>

lemma cursor_bytes_spec:
  assumes "cursor_of db c" and "beat_address c i = Inr a"
  defines "e \<equiv> unat a div bc_beat_bytes c * bc_beat_bytes c + bc_beat_bytes c"
  shows "cursor_bytes db c i = (if e < 2 ^ 64 then [unat a..<e] else [])" and "e \<le> 2 ^ 64"
proof -
  obtain j k where sh: "db = 2 ^ j" "j \<le> 7" "bc_beat_bytes c = 2 ^ k" "k \<le> j"
    using cursor_shape [OF assms(1)] by metis
  let ?b = "unat a div db * db"
  have e: "e = unat a div 2 ^ k * 2 ^ k + 2 ^ k" by (simp add: e_def sh)
  show "e \<le> 2 ^ 64"
    unfolding e using sh(2,4) unat_u64_less [of a] by (intro align_up_bound [of _ _ k]) auto
  have b: "?b \<le> unat a" by (simp add: div_times_less_eq_dividend)
  have eb: "e \<le> ?b + db"
  proof -
    have jk: "db = 2 ^ k * 2 ^ (j - k)" using sh(1,4) by (simp flip: power_add)
    have "unat a div 2 ^ k div 2 ^ (j - k) = unat a div db"
      by (simp add: jk div_mult2_eq)
    then have "unat a div 2 ^ k < (unat a div db + 1) * 2 ^ (j - k)"
      by (metis add.commute dividend_less_div_times less_exp mult.commute plus_1_eq_Suc mult_Suc_right pos2 zero_less_power)
    then have "(unat a div 2 ^ k + 1) * 2 ^ k \<le> (unat a div db + 1) * 2 ^ (j - k) * 2 ^ k"
      by (intro mult_le_mono1) simp
    then show ?thesis unfolding e by (simp add: jk algebra_simps)
  qed
  have "cursor_bytes db c i =
      map (\<lambda>l. unat ((a AND NOT (mask j)) + of_nat l))
        (filter (\<lambda>l. e < 2 ^ 64 \<and> unat a \<le> ?b + l \<and> ?b + l < e) [0..<db])"
    using lane_mask_spec [OF sh assms(2)] bus_word_address_spec(1) [OF sh(1) assms(2)]
    by (auto simp: cursor_bytes_def e intro!: arg_cong [where f = "map _"] filter_cong
        split: if_splits)
  also have "\<dots> = map (\<lambda>l. ?b + l) (filter (\<lambda>l. e < 2 ^ 64 \<and> unat a \<le> ?b + l \<and> ?b + l < e) [0..<db])"
    by (rule map_cong) (auto simp: unat_lane_address [OF sh(1,2)])
  finally show "cursor_bytes db c i = (if e < 2 ^ 64 then [unat a..<e] else [])"
    using filter_map_shift [OF b eb] by auto
qed

section \<open>The bytes of a burst\<close>

text \<open>First byte past an incrementing burst.\<close>

definition burst_end :: "burst_cursor \<Rightarrow> nat" where
  "burst_end c = unat (ax_address (bc_payload c)) div bc_beat_bytes c * bc_beat_bytes c +
                 bc_beats c * bc_beat_bytes c"

lemma beat_address_ok:
  assumes "cursor_of db c" and "i < bc_beats c"
    and "spec_beat_address (unat (ax_address (bc_payload c))) (bc_beat_bytes c) (bc_beats c)
           (ax_burst (bc_payload c)) i = s" and "s < 2 ^ 64"
  obtains a where "beat_address c i = Inr a" "unat a = s"
proof
  show "beat_address c i = Inr (of_nat s)"
    using beat_address_spec(1) [OF assms(1,2)] assms(3,4) by simp
  show "unat (of_nat s :: u64) = s"
    using assms(4) by (intro unat_of_nat_exact) simp
qed

lemma incr_beat:
  assumes c: "cursor_of db c" and inc: "ax_burst (bc_payload c) = Increment"
    and i: "i < bc_beats c" and fit: "burst_end c \<le> 2 ^ 64"
  defines "A \<equiv> unat (ax_address (bc_payload c))" and "B \<equiv> bc_beat_bytes c"
  obtains a where "beat_address c i = Inr a" "unat a = (if i = 0 then A else A div B * B + i * B)"
    "unat a div B * B + B = A div B * B + Suc i * B"
proof -
  obtain k where k: "B = 2 ^ k" using cursor_shape [OF c] B_def by metis
  have Bpos: "0 < B" by (simp add: k)
  let ?s = "if i = 0 then A else A div B * B + i * B"
  have "?s < 2 ^ 64"
  proof (cases "i = 0")
    case True
    then show ?thesis using unat_u64_less by (simp add: A_def)
  next
    case False
    have "Suc i * B \<le> bc_beats c * B" using i by (intro mult_le_mono) auto
    then have "A div B * B + Suc i * B \<le> 2 ^ 64"
      using fit unfolding burst_end_def A_def B_def by linarith
    then show ?thesis using False Bpos by simp
  qed
  moreover have "spec_beat_address A B (bc_beats c) (ax_burst (bc_payload c)) i = ?s"
    by (simp add: spec_beat_address_def inc)
  ultimately obtain a where a: "beat_address c i = Inr a" "unat a = ?s"
    using beat_address_ok [OF c i, of ?s] unfolding A_def B_def by blast
  have "unat a div B = A div B + i"
    using a(2) Bpos by (cases "i = 0") (simp_all add: add_mult_distrib [symmetric])
  then have "unat a div B * B + B = A div B * B + Suc i * B"
    by (simp add: algebra_simps)
  with a that show ?thesis by blast
qed

lemma incr_burst_bytes:
  assumes c: "cursor_of db c" and inc: "ax_burst (bc_payload c) = Increment"
    and fit: "burst_end c < 2 ^ 64"
  shows "burst_bytes db c = [unat (ax_address (bc_payload c))..<burst_end c]"
proof -
  define A where "A = unat (ax_address (bc_payload c))"
  define B where "B = bc_beat_bytes c"
  define f where "f i = (if i = 0 then A else A div B * B + i * B)" for i
  obtain k where "B = 2 ^ k" and n: "0 < bc_beats c"
    using cursor_shape [OF c] B_def by (metis Suc_eq_plus1 zero_less_Suc)
  then have Bpos: "0 < B" by simp
  have A: "A < A div B * B + B" using Bpos dividend_less_div_times [of B A] by simp
  have "mono f"
  proof (rule mono_iff_le_Suc [THEN iffD2], rule allI)
    show "f i \<le> f (Suc i)" for i
      using A by (cases i) (simp_all add: f_def)
  qed
  have "cursor_bytes db c i = [f i..<f (Suc i)]" if i: "i < bc_beats c" for i
  proof -
    have fit': "burst_end c \<le> 2 ^ 64" using fit by simp
    obtain a where a: "beat_address c i = Inr a" "unat a = f i"
        "unat a div B * B + B = A div B * B + Suc i * B"
      using incr_beat [OF c inc i fit'] unfolding A_def B_def f_def by metis
    have "Suc i * B \<le> bc_beats c * B" using i by (intro mult_le_mono) auto
    then have "A div B * B + Suc i * B < 2 ^ 64"
      using fit unfolding burst_end_def A_def B_def by linarith
    moreover have "f (Suc i) = A div B * B + Suc i * B" by (simp add: f_def)
    ultimately show ?thesis
      using cursor_bytes_spec(1) [OF c a(1), folded B_def, unfolded a(3)] a(2) by simp
  qed
  then have "burst_bytes db c = concat (map (\<lambda>i. [f i..<f (Suc i)]) [0..<0 + bc_beats c])"
    unfolding burst_bytes_def by (intro arg_cong [where f = concat] map_cong) auto
  also have "\<dots> = [f 0..<f (bc_beats c)]"
    using concat_intervals [OF \<open>mono f\<close>, of 0 "bc_beats c"] by simp
  finally show ?thesis
    using n by (simp add: f_def burst_end_def A_def B_def)
qed

text \<open>The aligned container of a wrapping burst.\<close>

definition wrap_base :: "burst_cursor \<Rightarrow> nat" where
  "wrap_base c = (let T = bc_beats c * bc_beat_bytes c
                  in unat (ax_address (bc_payload c)) div T * T)"

lemma wrap_beat_arith:
  assumes "0 < B" and "0 < n" and "a0 = b + j * B" and "j < n"
  shows "b + (a0 - b + i * B) mod (n * B) = b + (j + i) mod n * (B::nat)"
proof -
  have "a0 - b + i * B = (j + i) * B" using assms by (simp add: algebra_simps)
  then show ?thesis by (simp add: mult_mod_left mult.commute)
qed

lemma wrap_burst_bytes:
  assumes c: "cursor_of db c" and wr: "ax_burst (bc_payload c) = Wrap"
    and fit: "wrap_base c + bc_beats c * bc_beat_bytes c < 2 ^ 64"
  shows "burst_bytes db c =
           [unat (ax_address (bc_payload c))..<wrap_base c + bc_beats c * bc_beat_bytes c] @
           [wrap_base c..<unat (ax_address (bc_payload c))]"
proof -
  define A where "A = unat (ax_address (bc_payload c))"
  define B where "B = bc_beat_bytes c"
  define n where "n = bc_beats c"
  define b where "b = wrap_base c"
  obtain k where Bk: "B = 2 ^ k" and n: "0 < n" and dv: "2 ^ k dvd A"
    using cursor_shape [OF c] wr unfolding B_def n_def A_def
    by (metis Suc_eq_plus1 zero_less_Suc)
  then have Bpos: "0 < B" by simp
  have b: "b = A div (n * B) * (n * B)"
    by (simp add: b_def wrap_base_def Let_def A_def B_def n_def)
  define j where "j = A div B mod n"
  have jn: "j < n" using n by (simp add: j_def)
  have AB: "A = A div B * B" using dv Bk by simp
  have "b + j * B = (A div B div n * n + A div B mod n) * B"
    unfolding b j_def using div_mult2_eq [of A B n] 
    by (simp only: add_mult_distrib2 mult.commute mult.assoc mult.left_commute)
  then have Aj: "A = b + j * B" using AB by (metis div_mult_mod_eq)
  define g where "g i = b + i * B" for i
  have mg: "mono g" unfolding g_def by (rule monoI) (simp add: mult_le_mono1)
  have beat: "cursor_bytes db c i = [g ((j + i) mod n)..<g (Suc ((j + i) mod n))]"
    if i: "i < bc_beats c" for i
  proof -
    let ?m = "(j + i) mod n"
    have m: "?m < n" using n by simp
    have s: "spec_beat_address A B n Wrap i = g ?m"
      using wrap_beat_arith [OF Bpos n Aj jn, of i] unfolding g_def
      by (simp add: spec_beat_address_def Let_def flip: b)
    have "Suc ?m * B \<le> n * B" using m by (intro mult_le_mono1) simp
    then have lt: "g (Suc ?m) < 2 ^ 64"
      using fit unfolding g_def b_def n_def B_def by linarith
    then have "g ?m < 2 ^ 64" using Bpos by (simp add: g_def)
    then obtain a where a: "beat_address c i = Inr a" "unat a = g ?m"
      using beat_address_ok [OF c i] s unfolding A_def B_def n_def wr by blast
    have "B dvd b" unfolding b by (simp add: dvd_mult)
    then have "B dvd g ?m" unfolding g_def by simp
    then have "g ?m div B * B = g ?m" by simp
    then show ?thesis
      using cursor_bytes_spec(1) [OF c a(1), folded B_def] a(2) lt by (simp add: g_def algebra_simps)
  qed
  have "map (cursor_bytes db c) [0..<n] =
      map (\<lambda>i. [g ((j + i) mod n)..<g (Suc ((j + i) mod n))]) ([0..<n - j] @ [n - j..<n])"
    using beat jn by (simp add: append_upt n_def)
  also have "\<dots> = map (\<lambda>i. [g i..<g (Suc i)]) [j..<j + (n - j)] @ map (\<lambda>i. [g i..<g (Suc i)]) [0..<0 + j]"
  proof -
    have "map (\<lambda>i. [g ((j + i) mod n)..<g (Suc ((j + i) mod n))]) [0..<n - j] =
          map (\<lambda>i. [g (i + j)..<g (Suc (i + j))]) [0..<n - j]"
      by (rule map_cong) (auto simp: add.commute)
    also have "\<dots> = map (\<lambda>i. [g i..<g (Suc i)]) (map (\<lambda>i. i + j) [0..<n - j])" by simp
    finally have l: "map (\<lambda>i. [g ((j + i) mod n)..<g (Suc ((j + i) mod n))]) [0..<n - j] =
        map (\<lambda>i. [g i..<g (Suc i)]) [j..<j + (n - j)]"
      by (simp only: map_add_upt add.commute)
    have up: "[n - j..<n] = map (\<lambda>i. i + (n - j)) [0..<j]"
      using jn by (simp only: map_add_upt) simp
    have "(j + (i + (n - j))) mod n = i" if "i < j" for i
      using that jn by simp
    then have "map (\<lambda>i. [g ((j + i) mod n)..<g (Suc ((j + i) mod n))]) [n - j..<n] =
          map (\<lambda>i. [g i..<g (Suc i)]) [0..<j]"
      unfolding up map_map o_def by (intro map_cong) auto
    then show ?thesis using l by simp
  qed
  finally have "burst_bytes db c = [g j..<g n] @ [g 0..<g j]"
    using concat_intervals [OF mg, of j "n - j"] concat_intervals [OF mg, of 0 j] jn
    by (simp add: burst_bytes_def n_def)
  then show ?thesis
    using Aj by (simp add: g_def A_def B_def n_def b_def)
qed

lemma fixed_burst_bytes:
  assumes c: "cursor_of db c" and fx: "ax_burst (bc_payload c) = Fixed"
    and i: "i < bc_beats c"
  defines "A \<equiv> unat (ax_address (bc_payload c))" and "B \<equiv> bc_beat_bytes c"
  assumes "A div B * B + B < 2 ^ 64"
  shows "cursor_bytes db c i = [A..<A div B * B + B]"
proof -
  have "spec_beat_address A B (bc_beats c) (ax_burst (bc_payload c)) i = A"
    by (simp add: spec_beat_address_def fx)
  then obtain a where "beat_address c i = Inr a" "unat a = A"
    using beat_address_ok [OF c i] unat_u64_less unfolding A_def B_def by metis
  then show ?thesis
    using cursor_bytes_spec(1) [OF c, of i a] assms by (simp add: B_def)
qed

section \<open>The 4 KiB rule\<close>

lemma unat_drop_bit_12: "unat (drop_bit 12 (w :: u64)) = unat w div 4096"
  by (simp add: drop_bit_eq_div unat_div_distrib)

lemma page_neq_iff: "drop_bit 12 (x :: u64) \<noteq> drop_bit 12 y \<longleftrightarrow> unat x div 4096 \<noteq> unat y div 4096"
  by (simp add: word_unat_eq_iff unat_drop_bit_12)

lemma same_page_window:
  assumes "T = 2 ^ t" and "t \<le> 12" and "x div T = y div T"
  shows "x div 4096 = y div (4096::nat)"
proof -
  have "4096 = T * 2 ^ (12 - t)" using assms(1,2) by (simp flip: power_add)
  then show ?thesis using assms(3) by (simp only: div_mult2_eq)
qed

lemma cursor_bytes_window:
  assumes "cursor_of db c" and "beat_address c i = Inr a" and "x \<in> set (cursor_bytes db c i)"
  shows "unat a \<le> x" and "x div bc_beat_bytes c = unat a div bc_beat_bytes c"
proof -
  let ?B = "bc_beat_bytes c"
  have x: "unat a \<le> x" "x < unat a div ?B * ?B + ?B"
    using assms(3) cursor_bytes_spec(1) [OF assms(1,2)] by (auto split: if_splits)
  then show "unat a \<le> x" by simp
  have "unat a div ?B * ?B \<le> x"
    using x(1) div_times_less_eq_dividend [of "unat a" ?B] by linarith
  then show "x div ?B = unat a div ?B"
    using x(2) by (intro div_nat_eqI) (simp_all add: mult.commute)
qed

lemma validate_4k_iff:
  assumes "cursor_of db c"
  shows "validate_4k_boundary db c = Inr () \<longleftrightarrow>
    (\<forall>i<bc_beats c. (\<exists>a. beat_address c i = Inr a) \<and>
      (\<forall>x\<in>set (cursor_bytes db c i). x div 4096 = unat (ax_address (bc_payload c)) div 4096))"
proof -
  obtain j k where sh: "db = 2 ^ j" "j \<le> 7" "bc_beat_bytes c = 2 ^ k" "k \<le> j"
    using cursor_shape [OF assms] by metis
  let ?A = "ax_address (bc_payload c)"
  have "result_bind (bus_word_address db c i) (\<lambda>base. result_bind (lane_mask db c i) (\<lambda>lanes.
          result_all (\<lambda>lane. throw_if (lanes ! lane \<noteq> 0 \<and> drop_bit 12 (base + of_nat lane) \<noteq> drop_bit 12 ?A)
            (ProtocolError ''AXI burst crosses a 4 KiB boundary'')) [0..<db])) = Inr () \<longleftrightarrow>
        (\<exists>a. beat_address c i = Inr a) \<and> (\<forall>x\<in>set (cursor_bytes db c i). x div 4096 = unat ?A div 4096)"
    (is "?L i = _ \<longleftrightarrow> _") for i
  proof (cases "beat_address c i")
    case (Inl e)
    then show ?thesis by (simp add: bus_word_address_def)
  next
    case (Inr a)
    then show ?thesis
      using lane_mask_spec [OF sh Inr] bus_word_address_spec(1) [OF sh(1) Inr]
      by (auto simp: result_all_Inr_iff page_neq_iff cursor_bytes_def split: if_splits)
  qed
  then show ?thesis
    unfolding validate_4k_boundary_def Let_def result_all_Inr_iff by auto
qed

lemma cursor_numbers:
  assumes c: "cursor_of db c"
  defines "A \<equiv> unat (ax_address (bc_payload c))" and "B \<equiv> bc_beat_bytes c"
  shows "0 < B" "B \<le> 128" "B dvd 2 ^ 64" "0 < bc_beats c" "A < 2 ^ 64" "A < A div B * B + B"
    "A div B * B \<le> A" "A < burst_end c" "B dvd burst_end c"
proof -
  obtain k where k: "B = 2 ^ k" "k \<le> 7" and n: "0 < bc_beats c"
    using cursor_shape [OF c] unfolding B_def by (metis Suc_eq_plus1 zero_less_Suc order_trans)
  show "0 < B" "0 < bc_beats c" using k n by simp_all
  have "(2::nat) ^ k \<le> 2 ^ 7" using k(2) by (intro power_increasing) auto
  then show "B \<le> 128" by (simp add: k)
  show "B dvd 2 ^ 64" unfolding k(1) using k(2) by (intro le_imp_power_dvd) simp
  show "A < 2 ^ 64" by (simp only: A_def unat_u64_less)
  show up: "A < A div B * B + B"
    using \<open>0 < B\<close> dividend_less_div_times [of B A] by simp
  show "A div B * B \<le> A" by simp
  have "B \<le> bc_beats c * B" using n by simp
  then show "A < burst_end c"
    using up unfolding burst_end_def A_def B_def by linarith
  show "B dvd burst_end c" unfolding burst_end_def B_def by simp
qed

text \<open>An incrementing burst that runs past the address space throws at its last beat.\<close>

lemma incr_overflow_throws:
  assumes c: "cursor_of db c" and inc: "ax_burst (bc_payload c) = Increment"
    and gt: "2 ^ 64 < burst_end c"
  shows "\<nexists>a. beat_address c (bc_beats c - 1) = Inr a"
proof -
  let ?A = "unat (ax_address (bc_payload c))" and ?B = "bc_beat_bytes c" and ?n = "bc_beats c"
  note num = cursor_numbers [OF c]
  have "?B dvd burst_end c - 2 ^ 64" using num(3,9) by (rule dvd_diff_nat [rotated])
  then have "?B \<le> burst_end c - 2 ^ 64" using gt by (intro dvd_imp_le) simp_all
  then have "2 ^ 64 + ?B \<le> ?A div ?B * ?B + ?n * ?B" using gt unfolding burst_end_def by linarith
  moreover have "?n * ?B = (?n - 1) * ?B + ?B" using num(4) by (simp add: diff_mult_distrib)
  ultimately have s: "2 ^ 64 \<le> ?A div ?B * ?B + (?n - 1) * ?B" by linarith
  have "?n - 1 \<noteq> 0"
  proof
    assume "?n - 1 = 0"
    then have "(?n - 1) * ?B = 0" by simp
    then show False using s num(5,7) by linarith
  qed
  then have "\<not> spec_beat_address ?A ?B ?n Increment (?n - 1) < 2 ^ 64"
    using s by (simp add: spec_beat_address_def)
  then show ?thesis
    using num(4) beat_address_spec(1) [OF c, of "?n - 1"] inc by simp
qed

lemma incr_4k_sound:
  assumes c: "cursor_of db c" and inc: "ax_burst (bc_payload c) = Increment"
    and v: "validate_4k_boundary db c = Inr ()"
  shows "burst_end c \<le> 2 ^ 64"
    and "(burst_end c - 1) div 4096 = unat (ax_address (bc_payload c)) div 4096"
proof -
  let ?A = "unat (ax_address (bc_payload c))" and ?B = "bc_beat_bytes c" and ?n = "bc_beats c"
  note num = cursor_numbers [OF c]
  have all: "\<exists>a. beat_address c i = Inr a" "\<And>x. x \<in> set (cursor_bytes db c i) \<Longrightarrow> x div 4096 = ?A div 4096"
    if "i < ?n" for i
    using that v validate_4k_iff [OF c] by auto
  show le: "burst_end c \<le> 2 ^ 64"
    using incr_overflow_throws [OF c inc] all(1) [of "?n - 1"] num(4) by fastforce
  show "(burst_end c - 1) div 4096 = ?A div 4096"
  proof (cases "burst_end c < 2 ^ 64")
    case True
    have "burst_end c - 1 \<in> set (burst_bytes db c)"
      using incr_burst_bytes [OF c inc True] num(8) by auto
    then show ?thesis using all(2) by (auto simp: burst_bytes_def)
  next
    case False
    then have top: "burst_end c = 2 ^ 64" using le by simp
    have last_page: "x div 4096 = (2 ^ 64 - 1) div (4096::nat)"
      if "2 ^ 64 \<le> x + 256" "x < 2 ^ 64" for x
      using that by (intro div_nat_eqI) simp_all
    show ?thesis
    proof (cases "?n = 1")
      case True
      have "?A div ?B * ?B + ?B = 2 ^ 64" using top True by (simp add: burst_end_def)
      then have "2 ^ 64 \<le> ?A + 256" using num(2,7) by linarith
      then show ?thesis using last_page [of ?A] num(5) top by simp
    next
      case False
      then have i: "?n - 2 < ?n" and nn: "Suc (?n - 2) = ?n - 1" using num(4) by auto
      obtain a where a: "beat_address c (?n - 2) = Inr a"
          "unat a div ?B * ?B + ?B = ?A div ?B * ?B + Suc (?n - 2) * ?B"
        using incr_beat [OF c inc i le] by metis
      have "?n * ?B = (?n - 1) * ?B + ?B" using num(4) by (simp add: diff_mult_distrib)
      then have lim: "unat a div ?B * ?B + ?B = 2 ^ 64 - ?B"
        using a(2) top unfolding nn burst_end_def by linarith
      have "unat a < 2 ^ 64 - ?B"
        using num(1) dividend_less_div_times [of ?B "unat a"] lim by simp
      then have "2 ^ 64 - ?B - 1 \<in> set (cursor_bytes db c (?n - 2))"
        using cursor_bytes_spec(1) [OF c a(1), unfolded lim] num(1) by auto
      then have "(2 ^ 64 - ?B - 1) div 4096 = ?A div 4096" using all(2) i by blast
      moreover have "(2 ^ 64 - ?B - 1) div 4096 = (2 ^ 64 - 1) div 4096"
        using num(2) by (intro last_page) simp_all
      ultimately show ?thesis using top by simp
    qed
  qed
qed

lemma incr_4k_complete:
  assumes c: "cursor_of db c" and inc: "ax_burst (bc_payload c) = Increment"
    and pg: "(burst_end c - 1) div 4096 = unat (ax_address (bc_payload c)) div 4096"
  shows "validate_4k_boundary db c = Inr ()"
  unfolding validate_4k_iff [OF c]
proof (intro allI impI conjI ballI)
  let ?A = "unat (ax_address (bc_payload c))" and ?B = "bc_beat_bytes c" and ?n = "bc_beats c"
  note num = cursor_numbers [OF c]
  have "?A div 4096 < 2 ^ 52"
    using num(5) by (intro less_mult_imp_div_less) simp
  then have "(burst_end c - 1) div 4096 < 2 ^ 52" using pg by simp
  then have le: "burst_end c \<le> 2 ^ 64"
    by (simp add: div_less_iff_less_mult)
  fix i assume i: "i < bc_beats c"
  obtain a where a: "beat_address c i = Inr a" "unat a = (if i = 0 then ?A else ?A div ?B * ?B + i * ?B)"
      "unat a div ?B * ?B + ?B = ?A div ?B * ?B + Suc i * ?B"
    using incr_beat [OF c inc i le] by metis
  then show "\<exists>a. beat_address c i = Inr a" by blast
  fix x assume x: "x \<in> set (cursor_bytes db c i)"
  have "Suc i * ?B \<le> ?n * ?B" using i by (intro mult_le_mono1) simp
  moreover have "x < ?A div ?B * ?B + Suc i * ?B"
    using x cursor_bytes_spec(1) [OF c a(1), unfolded a(3)] by (auto split: if_splits)
  ultimately have "x \<le> burst_end c - 1" unfolding burst_end_def by linarith
  moreover have "?A \<le> unat a"
  proof (cases i)
    case (Suc m)
    have "?B \<le> i * ?B" using Suc by simp
    then show ?thesis using a(2) Suc num(6) by simp
  qed (use a(2) in simp)
  then have "?A \<le> x" using cursor_bytes_window(1) [OF c a(1) x] by simp
  ultimately have "?A div 4096 \<le> x div 4096" "x div 4096 \<le> (burst_end c - 1) div 4096"
    by (simp_all add: div_le_mono)
  then show "x div 4096 = ?A div 4096"
    using pg by simp
qed

lemma fixed_4k:
  assumes c: "cursor_of db c" and fx: "ax_burst (bc_payload c) = Fixed"
  shows "validate_4k_boundary db c = Inr ()"
  unfolding validate_4k_iff [OF c]
proof (intro allI impI conjI ballI)
  fix i assume i: "i < bc_beats c"
  obtain k where k: "bc_beat_bytes c = 2 ^ k" "k \<le> 7"
    using cursor_shape [OF c] by (metis order_trans)
  obtain a where a: "beat_address c i = Inr a" "unat a = unat (ax_address (bc_payload c))"
    using beat_address_ok [OF c i refl] unat_u64_less
    by (auto simp: spec_beat_address_def fx)
  then show "\<exists>a. beat_address c i = Inr a" by blast
  fix x assume "x \<in> set (cursor_bytes db c i)"
  from cursor_bytes_window(2) [OF c a(1) this] a(2) k
  show "x div 4096 = unat (ax_address (bc_payload c)) div 4096"
    by (intro same_page_window [of "2 ^ k" k]) auto
qed

lemma wrap_4k:
  assumes c: "cursor_of db c" and wr: "ax_burst (bc_payload c) = Wrap"
  shows "validate_4k_boundary db c = Inr ()"
  unfolding validate_4k_iff [OF c]
proof (intro allI impI conjI ballI)
  fix i assume i: "i < bc_beats c"
  let ?A = "unat (ax_address (bc_payload c))" and ?B = "bc_beat_bytes c" and ?n = "bc_beats c"
  obtain m k where m: "?n = 2 ^ m" "m \<le> 4" and k: "?B = 2 ^ k" "k \<le> 7"
    using wrap_shape [OF c wr] by metis
  let ?T = "?n * ?B"
  have T: "?T = 2 ^ (m + k)" using m k by (simp add: power_add)
  let ?s = "spec_beat_address ?A ?B ?n Wrap i"
  obtain a where a: "beat_address c i = Inr a" "unat a = ?s"
    using beat_address_ok [OF c i refl] beat_address_spec(2) [OF c i] wr by auto
  then show "\<exists>a. beat_address c i = Inr a" by blast
  have "?s div ?T = ?A div ?T"
    using T by (simp add: spec_beat_address_def Let_def)
  moreover fix x assume "x \<in> set (cursor_bytes db c i)"
  then have "x div ?B = unat a div ?B" by (rule cursor_bytes_window(2) [OF c a(1)])
  then have "x div ?B div ?n = unat a div ?B div ?n" by simp
  ultimately have "x div ?T = ?A div ?T"
    using a(2) by (simp add: div_mult2_eq mult.commute)
  then show "x div 4096 = ?A div 4096"
    using T m(2) k(2) by (intro same_page_window [of ?T "m + k"]) auto
qed

text \<open>Every shape the constructor accepts, in closed form.\<close>

definition stays_in_page :: "burst_cursor \<Rightarrow> bool" where
  "stays_in_page c \<longleftrightarrow>
     (ax_burst (bc_payload c) = Increment \<longrightarrow>
        (burst_end c - 1) div 4096 = unat (ax_address (bc_payload c)) div 4096)"

lemma validate_4k_closed_form:
  assumes c: "cursor_of db c"
  shows "validate_4k_boundary db c = Inr () \<longleftrightarrow> stays_in_page c"
proof (cases "ax_burst (bc_payload c)")
  case Reserved
  then show ?thesis using cursor_shape [OF c] by metis
qed (use fixed_4k [OF c] wrap_4k [OF c] incr_4k_sound(2) [OF c] incr_4k_complete [OF c]
     in \<open>auto simp: stays_in_page_def\<close>)

lemma validated_beats:
  assumes c: "cursor_of db c" and v: "validate_4k_boundary db c = Inr ()" and i: "i < bc_beats c"
  obtains a base lanes where "beat_address c i = Inr a" "bus_word_address db c i = Inr base"
    "lane_mask db c i = Inr lanes" "length lanes = db"
proof -
  obtain a where a: "beat_address c i = Inr a"
    using v i validate_4k_iff [OF c] by blast
  obtain j k where sh: "db = 2 ^ j" "j \<le> 7" "bc_beat_bytes c = 2 ^ k" "k \<le> j"
    using cursor_shape [OF c] by metis
  show ?thesis
    using that a bus_word_address_spec(1) [OF sh(1) a] lane_mask_spec [OF sh a] by simp
qed

section \<open>Properties\<close>


definition example_incr :: address_payload where
  "example_incr = default_address_payload
     \<lparr>ax_address := 0x102, ax_length := 3, ax_size := 2, ax_burst := Increment\<rparr>"



definition example_wrap :: address_payload where
  "example_wrap = default_address_payload
     \<lparr>ax_address := 0x11c, ax_length := 3, ax_size := 2, ax_burst := Wrap\<rparr>"


text \<open>C36: \<^verbatim>\<open>validate_4k_boundary\<close>, which walks over every lane of every beat, accepts a constructed
  cursor exactly when the burst is FIXED or WRAP (these can never leave their page) or is an INCR
  burst whose last byte lies in the 4 KiB page of its start address; address overflow past \<open>2 ^ 64\<close> is
  rejected as well.\<close>

theorem validate_4k_boundary_exact:
  assumes "bus_bytes_ok db" and "burst_cursor_new db p = Inr c"
  shows "(validate_4k_boundary db c = Inr ()) =
    (ax_burst p = Fixed \<or> ax_burst p = Wrap \<or>
     (unat (ax_address p) div 2 ^ unat (ax_size p) * 2 ^ unat (ax_size p) +
        (unat (ax_length p) + 1) * 2 ^ unat (ax_size p) - 1) div 4096 = unat (ax_address p) div 4096)"
proof -
  have c: "cursor_of db c" and p: "bc_payload c = p"
    using assms by (auto intro: cursor_ofI dest: burst_cursor_new_payload)
  have "bc_beat_bytes c = 2 ^ unat (ax_size p)" "bc_beats c = unat (ax_length p) + 1"
      "ax_burst p \<noteq> Reserved"
    using cursor_shape [OF c] p by metis+
  then show ?thesis
    using validate_4k_closed_form [OF c] p
    by (cases "ax_burst p") (simp_all add: stays_in_page_def burst_end_def)
qed

theorem validate_4k_boundary_exact_witness:
  "validate_4k_boundary 8 \<lparr>bc_payload = example_incr, bc_beats = 4, bc_beat_bytes = 4\<rparr> = Inr ()"
proof -
  have "bus_bytes_ok 8" by (simp add: bus_bytes_ok_def)
  moreover have "burst_cursor_new 8 example_incr =
      Inr \<lparr>bc_payload = example_incr, bc_beats = 4, bc_beat_bytes = 4\<rparr>" by code_simp
  ultimately show ?thesis
    using validate_4k_boundary_exact [of 8 example_incr]
    by (simp add: example_incr_def default_address_payload_def)
qed

text \<open>Once a cursor has passed \<^verbatim>\<open>validate_4k_boundary\<close>, none of the calls the fabric makes per beat
  (\<^verbatim>\<open>beat_address\<close>, \<^verbatim>\<open>bus_word_address\<close>, \<^verbatim>\<open>lane_mask\<close>) throws for any beat of the burst, and the lane mask has
  one entry per byte of the bus.\<close>

theorem validated_cursor_never_throws:
  assumes "bus_bytes_ok db" and "burst_cursor_new db p = Inr c" and "validate_4k_boundary db c = Inr ()"
    and "i < bc_beats c"
  shows "\<exists>a base lanes. beat_address c i = Inr a \<and> bus_word_address db c i = Inr base \<and>
           lane_mask db c i = Inr lanes \<and> length lanes = db"
  using validated_beats [OF cursor_ofI [OF assms(1,2)] assms(3,4)] by metis

theorem validated_cursor_never_throws_witness:
  "\<exists>a base lanes. beat_address \<lparr>bc_payload = example_incr, bc_beats = 4, bc_beat_bytes = 4\<rparr> 3 = Inr a \<and>
     bus_word_address 8 \<lparr>bc_payload = example_incr, bc_beats = 4, bc_beat_bytes = 4\<rparr> 3 = Inr base \<and>
     lane_mask 8 \<lparr>bc_payload = example_incr, bc_beats = 4, bc_beat_bytes = 4\<rparr> 3 = Inr lanes \<and>
     length lanes = 8"
proof (rule validated_cursor_never_throws)
  show "bus_bytes_ok 8" by (simp add: bus_bytes_ok_def)
  show "burst_cursor_new 8 example_incr = Inr \<lparr>bc_payload = example_incr, bc_beats = 4, bc_beat_bytes = 4\<rparr>"
    by code_simp
  show "validate_4k_boundary 8 \<lparr>bc_payload = example_incr, bc_beats = 4, bc_beat_bytes = 4\<rparr> = Inr ()"
    by code_simp
qed simp

text \<open>A beat whose size-aligned window ends at the very top of the 64-bit address space has an empty
  lane mask, because the exclusive bound \<^verbatim>\<open>aligned_to_size + beat_bytes\<close> wraps around to zero: such an
  access enables no byte at all, so any WSTRB bit of a write there selects an illegal lane.\<close>

theorem top_of_address_space_has_no_lanes:
  assumes "bus_bytes_ok db" and "burst_cursor_new db p = Inr c" and "beat_address c i = Inr a"
    and "unat a div bc_beat_bytes c * bc_beat_bytes c + bc_beat_bytes c = 2 ^ 64"
  shows "lane_mask db c i = Inr (replicate db 0)"
proof -
  obtain j k where sh: "db = 2 ^ j" "j \<le> 7" "bc_beat_bytes c = 2 ^ k" "k \<le> j"
    using cursor_shape [OF cursor_ofI [OF assms(1,2)]] by metis
  have "\<not> unat a div 2 ^ k * 2 ^ k + 2 ^ k < 2 ^ 64" using assms(4) sh(3) by simp
  then show ?thesis
    using lane_mask_spec [OF sh assms(3)] by (simp add: map_replicate_const)
qed

definition example_top :: address_payload where
  "example_top = default_address_payload \<lparr>ax_address := 0xFFFFFFFFFFFFFFF8, ax_size := 3\<rparr>"

theorem top_of_address_space_has_no_lanes_witness:
  "lane_mask 8 \<lparr>bc_payload = example_top, bc_beats = 1, bc_beat_bytes = 8\<rparr> 0 = Inr [0, 0, 0, 0, 0, 0, 0, 0]"
proof -
  let ?c = "\<lparr>bc_payload = example_top, bc_beats = 1, bc_beat_bytes = 8\<rparr>"
  have "bus_bytes_ok 8" by (simp add: bus_bytes_ok_def)
  moreover have "burst_cursor_new 8 example_top = Inr ?c" by code_simp
  moreover have "beat_address ?c 0 = Inr 0xFFFFFFFFFFFFFFF8" by code_simp
  moreover have "replicate 8 (0::u8) = [0, 0, 0, 0, 0, 0, 0, 0]" by code_simp
  ultimately show ?thesis
    using top_of_address_space_has_no_lanes [of 8 example_top ?c 0 "0xFFFFFFFFFFFFFFF8"] by simp
qed

end
