(* ===== verification/Ring_Buffer.thy ===== *)
theory Ring_Buffer
  imports Axi_Types
begin

text \<open>
  \<^verbatim>\<open>RingBuffer<Capacity, T>\<close> of \<^verbatim>\<open>src/axi.hpp\<close>: a fixed array with a head index and a size. The
  interface locale \<open>bounded_fifo\<close> states what the fabric and the UART rely on; it is interpreted on
  the array implementation, whose abstraction \<open>rb_list\<close> reads the stored elements in queue order.
\<close>

section \<open>The array implementation\<close>

text \<open>\<open>rb_values\<close> is the \<^verbatim>\<open>std::array\<close>, so the template parameter \<open>Capacity\<close> is its length.\<close>

record 'a ring_buffer =
  rb_values :: "'a list"
  rb_head :: nat
  rb_size :: nat

definition rb_new :: "nat \<Rightarrow> 'a \<Rightarrow> 'a ring_buffer" where
  "rb_new capacity dflt = \<lparr>rb_values = replicate capacity dflt, rb_head = 0, rb_size = 0\<rparr>"

definition rb_capacity :: "'a ring_buffer \<Rightarrow> nat" where
  "rb_capacity q = length (rb_values q)"

definition rb_empty :: "'a ring_buffer \<Rightarrow> bool" where
  "rb_empty q \<longleftrightarrow> rb_size q = 0"

definition rb_full :: "'a ring_buffer \<Rightarrow> bool" where
  "rb_full q \<longleftrightarrow> rb_size q = rb_capacity q"

definition rb_front :: "'a ring_buffer \<Rightarrow> 'a result" where
  "rb_front q =
     (if rb_empty q then Inl (LogicError ''front() on empty RingBuffer'')
      else Inr (rb_values q ! rb_head q))"

definition rb_push :: "'a \<Rightarrow> 'a ring_buffer \<Rightarrow> bool \<times> 'a ring_buffer" where
  "rb_push v q =
     (if rb_full q then (False, q)
      else (True, q\<lparr>rb_values := (rb_values q)[(rb_head q + rb_size q) mod rb_capacity q := v],
                    rb_size := rb_size q + 1\<rparr>))"

definition rb_pop :: "'a ring_buffer \<Rightarrow> 'a ring_buffer result" where
  "rb_pop q =
     (if rb_empty q then Inl (LogicError ''pop() on empty RingBuffer'')
      else Inr (q\<lparr>rb_head := (rb_head q + 1) mod rb_capacity q, rb_size := rb_size q - 1\<rparr>))"

definition rb_clear :: "'a ring_buffer \<Rightarrow> 'a ring_buffer" where
  "rb_clear q = q\<lparr>rb_head := 0, rb_size := 0\<rparr>"

text \<open>\<^verbatim>\<open>front()\<close> returns a reference; an assignment through it stores at the head index.\<close>

definition rb_set_front :: "'a \<Rightarrow> 'a ring_buffer \<Rightarrow> 'a ring_buffer" where
  "rb_set_front v q = q\<lparr>rb_values := (rb_values q)[rb_head q := v]\<rparr>"

section \<open>The interface its clients rely on\<close>

datatype 'a fifo_op = Push 'a | Pop | Front | Clear

datatype 'a fifo_obs = Pushed bool | Popped "unit result" | Fronted "'a result" | Cleared

text \<open>The abstract queue: a list of at most \<open>cap\<close> elements.\<close>

fun fifo_spec :: "nat \<Rightarrow> 'a fifo_op \<Rightarrow> 'a list \<Rightarrow> 'a fifo_obs \<times> 'a list" where
  "fifo_spec cap (Push v) xs =
     (if length xs = cap then (Pushed False, xs) else (Pushed True, xs @ [v]))"
| "fifo_spec cap Pop xs =
     (if xs = [] then (Popped (Inl (LogicError ''pop() on empty RingBuffer'')), xs)
      else (Popped (Inr ()), tl xs))"
| "fifo_spec cap Front xs =
     ((if xs = [] then Fronted (Inl (LogicError ''front() on empty RingBuffer''))
       else Fronted (Inr (hd xs))), xs)"
| "fifo_spec cap Clear xs = (Cleared, [])"

fun fifo_spec_run :: "nat \<Rightarrow> 'a fifo_op list \<Rightarrow> 'a list \<Rightarrow> 'a fifo_obs list \<times> 'a list" where
  "fifo_spec_run cap [] xs = ([], xs)"
| "fifo_spec_run cap (p # ps) xs =
     (let (ob, xs') = fifo_spec cap p xs; (obs, xs'') = fifo_spec_run cap ps xs'
      in (ob # obs, xs''))"

fun rb_step :: "'a fifo_op \<Rightarrow> 'a ring_buffer \<Rightarrow> 'a fifo_obs \<times> 'a ring_buffer" where
  "rb_step (Push v) q = (let (ok, q') = rb_push v q in (Pushed ok, q'))"
| "rb_step Pop q =
     (case rb_pop q of Inl e \<Rightarrow> (Popped (Inl e), q) | Inr q' \<Rightarrow> (Popped (Inr ()), q'))"
| "rb_step Front q = (Fronted (rb_front q), q)"
| "rb_step Clear q = (Cleared, rb_clear q)"

fun rb_run :: "'a fifo_op list \<Rightarrow> 'a ring_buffer \<Rightarrow> 'a fifo_obs list \<times> 'a ring_buffer" where
  "rb_run [] q = ([], q)"
| "rb_run (p # ps) q =
     (let (ob, q') = rb_step p q; (obs, q'') = rb_run ps q' in (ob # obs, q''))"

locale bounded_fifo =
  fixes cap :: "'q \<Rightarrow> nat"
    and is_empty :: "'q \<Rightarrow> bool"
    and is_full :: "'q \<Rightarrow> bool"
    and front :: "'q \<Rightarrow> 'a result"
    and push :: "'a \<Rightarrow> 'q \<Rightarrow> bool \<times> 'q"
    and pop :: "'q \<Rightarrow> 'q result"
    and contents :: "'q \<Rightarrow> 'a list"
    and wf :: "'q \<Rightarrow> bool"
  assumes wf_bound: "wf q \<Longrightarrow> length (contents q) \<le> cap q"
    and empty_iff: "wf q \<Longrightarrow> is_empty q \<longleftrightarrow> contents q = []"
    and full_iff: "wf q \<Longrightarrow> is_full q \<longleftrightarrow> length (contents q) = cap q"
    and front_nonempty: "wf q \<Longrightarrow> contents q \<noteq> [] \<Longrightarrow> front q = Inr (hd (contents q))"
    and push_full: "wf q \<Longrightarrow> is_full q \<Longrightarrow> push v q = (False, q)"
    and push_free: "wf q \<Longrightarrow> \<not> is_full q \<Longrightarrow> push v q = (ok, q') \<Longrightarrow>
      ok \<and> wf q' \<and> cap q' = cap q \<and> contents q' = contents q @ [v]"
    and pop_nonempty: "wf q \<Longrightarrow> contents q \<noteq> [] \<Longrightarrow>
      \<exists>q'. pop q = Inr q' \<and> wf q' \<and> cap q' = cap q \<and> contents q' = tl (contents q)"
begin

lemma push_wf: "wf q \<Longrightarrow> push v q = (ok, q') \<Longrightarrow> wf q' \<and> cap q' = cap q"
  by (cases "is_full q") (auto simp: push_full dest: push_free)

lemma push_ok_iff: "wf q \<Longrightarrow> fst (push v q) \<longleftrightarrow> \<not> is_full q"
  by (metis fst_conv push_free push_full surj_pair)

lemma push_then_front:
  assumes "wf q" and "contents q = []" and "\<not> is_full q" and "push v q = (ok, q')"
  shows "front q' = Inr v"
  using push_free [OF assms(1,3,4)] assms(2) front_nonempty [of q'] by simp

end

section \<open>The array implements the interface\<close>

definition rb_wf :: "'a ring_buffer \<Rightarrow> bool" where
  "rb_wf q \<longleftrightarrow> 0 < rb_capacity q \<and> rb_head q < rb_capacity q \<and> rb_size q \<le> rb_capacity q"

definition rb_list :: "'a ring_buffer \<Rightarrow> 'a list" where
  "rb_list q = map (\<lambda>i. rb_values q ! ((rb_head q + i) mod rb_capacity q)) [0..<rb_size q]"

lemma rb_list_length [simp]: "length (rb_list q) = rb_size q"
  by (simp add: rb_list_def)

lemma rb_list_eq_Nil_iff [simp]: "rb_list q = [] \<longleftrightarrow> rb_size q = 0"
  by (simp add: rb_list_def)

lemma rb_new_wf: "0 < n \<Longrightarrow> rb_wf (rb_new n d) \<and> rb_list (rb_new n d) = [] \<and> rb_capacity (rb_new n d) = n"
  by (simp add: rb_wf_def rb_new_def rb_capacity_def rb_list_def)

lemma rb_clear_wf:
  "rb_wf q \<Longrightarrow> rb_wf (rb_clear q) \<and> rb_list (rb_clear q) = [] \<and> rb_capacity (rb_clear q) = rb_capacity q"
  by (auto simp: rb_wf_def rb_clear_def rb_capacity_def rb_list_def)

lemma mod_slot_inj:
  assumes "i < j" and "j < n"
  shows "(h + j) mod n \<noteq> (h + i) mod (n::nat)"
proof
  assume "(h + j) mod n = (h + i) mod n"
  then have "n dvd (h + j) - (h + i)"
    using assms by (subst (asm) mod_eq_dvd_iff_nat) auto
  then show False
    using assms by (auto dest: dvd_imp_le)
qed

lemma rb_push_list:
  assumes "rb_wf q" and "\<not> rb_full q"
  shows "rb_list (snd (rb_push v q)) = rb_list q @ [v]"
proof -
  let ?n = "rb_capacity q"
  have lt: "rb_size q < ?n"
    using assms by (simp add: rb_wf_def rb_full_def)
  have other: "(rb_head q + rb_size q) mod ?n \<noteq> (rb_head q + i) mod ?n" if "i < rb_size q" for i
    using mod_slot_inj [OF that lt] .
  have inb: "(rb_head q + rb_size q) mod ?n < length (rb_values q)"
    using lt by (metis mod_less_divisor not_less_zero rb_capacity_def neq0_conv)
  show ?thesis
    using assms(2) other inb by (simp add: rb_push_def rb_list_def rb_capacity_def)
qed

lemma rb_pop_list:
  assumes "rb_wf q" and "rb_size q \<noteq> 0"
  shows "rb_list (q\<lparr>rb_head := (rb_head q + 1) mod rb_capacity q, rb_size := rb_size q - 1\<rparr>) = tl (rb_list q)"
proof -
  have "[0..<rb_size q] = 0 # map Suc [0..<rb_size q - 1]"
    using assms(2) by (metis Suc_pred' map_Suc_upt not_gr_zero upt_conv_Cons)
  then show ?thesis
    by (simp add: rb_list_def rb_capacity_def mod_add_left_eq)
qed

lemma rb_list_hd: "rb_wf q \<Longrightarrow> rb_size q \<noteq> 0 \<Longrightarrow> hd (rb_list q) = rb_values q ! rb_head q"
  by (simp add: rb_list_def rb_wf_def hd_map upt_conv_Cons)

interpretation ring: bounded_fifo rb_capacity rb_empty rb_full rb_front rb_push rb_pop rb_list rb_wf
proof (unfold_locales, goal_cases)
  case (1 q)
  then show ?case by (simp add: rb_wf_def)
next
  case (2 q)
  then show ?case by (simp add: rb_empty_def)
next
  case (3 q)
  then show ?case by (simp add: rb_full_def)
next
  case (4 q)
  then show ?case by (simp add: rb_front_def rb_empty_def rb_list_hd)
next
  case (5 q v)
  then show ?case by (simp add: rb_push_def)
next
  case (6 q v ok q')
  then show ?case
    using rb_push_list [of q v] by (auto simp: rb_push_def rb_wf_def rb_full_def rb_capacity_def)
next
  case (7 q)
  then show ?case
    using rb_pop_list [of q] by (auto simp: rb_pop_def rb_empty_def rb_wf_def rb_capacity_def)
qed

text \<open>An assignment through \<^verbatim>\<open>front()\<close> replaces the first element.\<close>

lemma rb_set_front_facts:
  assumes "rb_wf q" and "rb_size q \<noteq> 0"
  shows "rb_wf (rb_set_front v q)" and "rb_capacity (rb_set_front v q) = rb_capacity q"
    and "rb_size (rb_set_front v q) = rb_size q" and "rb_list (rb_set_front v q) = v # tl (rb_list q)"
proof -
  show "rb_wf (rb_set_front v q)" "rb_capacity (rb_set_front v q) = rb_capacity q"
    "rb_size (rb_set_front v q) = rb_size q"
    using assms by (simp_all add: rb_wf_def rb_set_front_def rb_capacity_def)
  have u: "[0..<rb_size q] = 0 # [1..<rb_size q]" using assms(2) by (simp add: upt_conv_Cons)
  have "(rb_head q + i) mod rb_capacity q \<noteq> rb_head q" if "i \<in> set [1..<rb_size q]" for i
    using mod_slot_inj [of 0 i "rb_capacity q" "rb_head q"] that assms(1) by (auto simp: rb_wf_def)
  then have "map (\<lambda>i. (rb_values q)[rb_head q := v] ! ((rb_head q + i) mod rb_capacity q)) [1..<rb_size q] =
      map (\<lambda>i. rb_values q ! ((rb_head q + i) mod rb_capacity q)) [1..<rb_size q]"
    by (intro map_cong refl nth_list_update_neq) metis
  then show "rb_list (rb_set_front v q) = v # tl (rb_list q)"
    using assms by (simp add: rb_list_def rb_set_front_def rb_capacity_def u rb_wf_def)
qed

section \<open>Refinement of the abstract queue\<close>

lemma rb_step_refines:
  assumes "rb_wf q" and "rb_step p q = (ob, q')"
  shows "rb_wf q' \<and> rb_capacity q' = rb_capacity q \<and>
         fifo_spec (rb_capacity q) p (rb_list q) = (ob, rb_list q')"
proof (cases p)
  case (Push v)
  obtain ok r where r: "rb_push v q = (ok, r)" by fastforce
  show ?thesis
  proof (cases "rb_full q")
    case True
    then show ?thesis
      using assms Push r ring.push_full [of q v] ring.full_iff [of q] by auto
  next
    case False
    then show ?thesis
      using assms Push r ring.push_free [of q v ok r] ring.full_iff [of q] by auto
  qed
next
  case Pop
  then show ?thesis
    using assms ring.pop_nonempty [of q]
    by (cases "rb_list q = []") (auto simp: rb_pop_def rb_empty_def)
next
  case Front
  then show ?thesis
    using assms ring.front_nonempty [of q]
    by (cases "rb_list q = []") (auto simp: rb_front_def rb_empty_def)
next
  case Clear
  then show ?thesis
    using assms rb_clear_wf [of q] by (auto simp del: rb_list_eq_Nil_iff)
qed

text \<open>C33: \<^verbatim>\<open>RingBuffer\<close> refines a bounded FIFO queue: from any well-formed buffer, every sequence of
  push, pop, front and clear calls returns exactly what the abstract list queue of the same capacity
  returns (including the refusal of a push into a full buffer and the exceptions of front and pop on
  an empty one), the buffer stays well-formed, and its contents stay the abstract queue, however often
  the head index wraps around.\<close>

theorem ring_buffer_refines_fifo:
  assumes "rb_wf q" and "rb_run ps q = (obs, q')"
  shows "rb_wf q' \<and> rb_capacity q' = rb_capacity q \<and>
         fifo_spec_run (rb_capacity q) ps (rb_list q) = (obs, rb_list q')"
  using assms
proof (induction ps arbitrary: q obs)
  case Nil
  then show ?case by simp
next
  case (Cons p ps)
  obtain ob r where step: "rb_step p q = (ob, r)" by fastforce
  obtain obs' where rest: "rb_run ps r = (obs', q')" and obs: "obs = ob # obs'"
    using Cons.prems(2) step by (auto split: prod.splits)
  have r: "rb_wf r" "rb_capacity r = rb_capacity q"
    "fifo_spec (rb_capacity q) p (rb_list q) = (ob, rb_list r)"
    using rb_step_refines [OF Cons.prems(1) step] by simp_all
  show ?case
    using Cons.IH [OF r(1) rest] r obs by simp
qed

text \<open>The test \<^verbatim>\<open>test_ring_buffer\<close> of \<^verbatim>\<open>tests/host_axi.cpp\<close>, run through the theorem.\<close>

theorem ring_buffer_refines_fifo_witness:
  "rb_run [Push 4, Push 5, Push 6, Front, Pop, Push 7, Pop, Front] (rb_new 2 (0::nat)) =
     ([Pushed True, Pushed True, Pushed False, Fronted (Inr 4), Popped (Inr ()), Pushed True,
       Popped (Inr ()), Fronted (Inr 7)], \<lparr>rb_values = [7, 5], rb_head = 0, rb_size = 1\<rparr>) \<and>
   fifo_spec_run 2 [Push 4, Push 5, Push 6, Front, Pop, Push 7, Pop, Front] [] =
     ([Pushed True, Pushed True, Pushed False, Fronted (Inr (4::nat)), Popped (Inr ()), Pushed True,
       Popped (Inr ()), Fronted (Inr 7)], [7])"
proof -
  let ?ps = "[Push 4, Push 5, Push 6, Front, Pop, Push 7, Pop, Front]"
  let ?q = "\<lparr>rb_values = [7::nat, 5], rb_head = 0, rb_size = 1\<rparr>"
  let ?obs = "[Pushed True, Pushed True, Pushed False, Fronted (Inr (4::nat)), Popped (Inr ()),
    Pushed True, Popped (Inr ()), Fronted (Inr 7)]"
  have run: "rb_run ?ps (rb_new 2 (0::nat)) = (?obs, ?q)"
    by code_simp
  have wf: "rb_wf (rb_new 2 (0::nat))" by code_simp
  have "rb_capacity (rb_new 2 (0::nat)) = 2" "rb_list (rb_new 2 (0::nat)) = []" "rb_list ?q = [7::nat]"
    by code_simp+
  then show ?thesis
    using ring_buffer_refines_fifo [OF wf run] run by simp
qed

end
