(* ===== verification/Device_Interface.thy ===== *)
theory Device_Interface
  imports Axi_Types
begin

text \<open>
  The bus side of \<^verbatim>\<open>class Device\<close> (\<^verbatim>\<open>src/device.hpp\<close>): the public \<^verbatim>\<open>read\<close> and \<^verbatim>\<open>write\<close> wrappers that enforce
  the common contract before they dispatch to a device's \<^verbatim>\<open>read_impl\<close> and \<^verbatim>\<open>write_impl\<close>, and the
  range checks of \<^verbatim>\<open>src/devices.cpp\<close>. The locale \<open>bus_device\<close> is the contract every device type keeps;
  each device theory interprets it on its own hooks.
\<close>

section \<open>Sideband signals\<close>

record signal =
  sig_width :: nat
  sig_value :: u64

text \<open>\<^verbatim>\<open>InputSignal::source\<close> points at an output signal of some device: the device's index in the
  platform and the name of the port.\<close>

type_synonym signal_ref = "nat \<times> string"

record input_signal =
  in_width :: nat
  in_source :: "signal_ref option"

definition input_value :: "(signal_ref \<Rightarrow> u64) \<Rightarrow> input_signal \<Rightarrow> u64" where
  "input_value sigma i = (case in_source i of None \<Rightarrow> 0 | Some r \<Rightarrow> sigma r)"

section \<open>Range checks\<close>

definition in_bounds :: "u64 \<Rightarrow> nat \<Rightarrow> nat \<Rightarrow> bool" where
  "in_bounds offset len capacity \<longleftrightarrow> unat offset \<le> capacity \<and> len \<le> capacity - unat offset"

definition range_in_bounds :: "u64 \<Rightarrow> u64 \<Rightarrow> nat \<Rightarrow> bool" where
  "range_in_bounds offset len capacity \<longleftrightarrow>
     unat offset \<le> capacity \<and> unat len \<le> capacity - unat offset"

definition all_lanes_enabled :: "u8 list \<Rightarrow> bool" where
  "all_lanes_enabled lanes \<longleftrightarrow> list_all (\<lambda>v. v \<noteq> 0) lanes"

lemma in_bounds_iff [simp]: "in_bounds offset len capacity \<longleftrightarrow> unat offset + len \<le> capacity"
  by (auto simp: in_bounds_def)

lemma range_in_bounds_iff [simp]:
  "range_in_bounds offset len capacity \<longleftrightarrow> unat offset + unat len \<le> capacity"
  by (auto simp: range_in_bounds_def)

lemma all_lanes_enabled_nth:
  "all_lanes_enabled lanes \<longleftrightarrow> (\<forall>i<length lanes. lanes ! i \<noteq> 0)"
  by (simp add: all_lanes_enabled_def list_all_length)

section \<open>The access wrappers\<close>

type_synonym 'd read_hook = "u64 \<Rightarrow> u8 list \<Rightarrow> u8 list \<Rightarrow> 'd \<Rightarrow> response \<times> u8 list \<times> 'd"

type_synonym 'd write_hook = "u64 \<Rightarrow> u8 list \<Rightarrow> u8 list \<Rightarrow> 'd \<Rightarrow> response \<times> 'd"

definition device_read ::
  "'d read_hook \<Rightarrow> u64 \<Rightarrow> u8 list \<Rightarrow> u8 list \<Rightarrow> 'd \<Rightarrow> (response \<times> u8 list \<times> 'd) result" where
  "device_read read_impl offset data enable d =
     (if length data \<noteq> length enable
      then Inl (InvalidArgument ''device read data/enable size mismatch'')
      else let zeroed = replicate (length data) 0
           in if zeroed = [] then Inr (Okay, zeroed, d)
              else Inr (read_impl offset zeroed enable d))"

definition device_write ::
  "'d write_hook \<Rightarrow> u64 \<Rightarrow> u8 list \<Rightarrow> u8 list \<Rightarrow> 'd \<Rightarrow> (response \<times> 'd) result" where
  "device_write write_impl offset data strobe d =
     (if length data \<noteq> length strobe
      then Inl (InvalidArgument ''device write data/strobe size mismatch'')
      else if data = [] then Inr (Okay, d)
      else Inr (write_impl offset data strobe d))"

section \<open>The contract of a device\<close>

locale bus_device =
  fixes read_impl :: "'d read_hook"
    and write_impl :: "'d write_hook"
    and wf :: "'d \<Rightarrow> bool"
  assumes read_length: "wf d \<Longrightarrow> length enable = length data \<Longrightarrow> read_impl offset data enable d = (r, data', d') \<Longrightarrow>
      length data' = length data"
    and read_disabled: "wf d \<Longrightarrow> length enable = length data \<Longrightarrow> read_impl offset data enable d = (r, data', d') \<Longrightarrow>
      l < length data \<Longrightarrow> enable ! l = 0 \<Longrightarrow> data' ! l = data ! l"
    and read_wf: "wf d \<Longrightarrow> length enable = length data \<Longrightarrow> read_impl offset data enable d = (r, data', d') \<Longrightarrow> wf d'"
    and read_error: "read_impl offset data enable d = (r, data', d') \<Longrightarrow> r \<noteq> Okay \<Longrightarrow> d' = d \<and> data' = data"
    and write_wf: "wf d \<Longrightarrow> length strobe = length data \<Longrightarrow> write_impl offset data strobe d = (r, d') \<Longrightarrow> wf d'"
    and write_error: "write_impl offset data strobe d = (r, d') \<Longrightarrow> r \<noteq> Okay \<Longrightarrow> d' = d"
    and read_response: "read_impl offset data enable d = (r, data', d') \<Longrightarrow> r \<in> {Okay, SlaveError}"
    and write_response: "write_impl offset data strobe d = (r, d') \<Longrightarrow> r \<in> {Okay, SlaveError}"
begin

text \<open>What every client of the public accessors can rely on.\<close>

lemma device_read_total:
  "length enable = length data \<Longrightarrow>
   \<exists>r data' d'. device_read read_impl offset data enable d = Inr (r, data', d')"
  by (simp add: device_read_def Let_def) (metis prod_cases3)

lemma device_read_facts:
  assumes "device_read read_impl offset data enable d = Inr (r, data', d')" and "wf d"
  shows "length data' = length data" and "wf d'" and "r \<in> {Okay, SlaveError}"
    and "r \<noteq> Okay \<Longrightarrow> d' = d \<and> data' = replicate (length data) 0"
    and "l < length data \<Longrightarrow> enable ! l = 0 \<Longrightarrow> data' ! l = 0"
proof -
  have len: "length enable = length (replicate (length data) (0::u8))"
    using assms by (simp add: device_read_def split: if_splits)
  show "length data' = length data" and "wf d'" and "r \<in> {Okay, SlaveError}"
    and "r \<noteq> Okay \<Longrightarrow> d' = d \<and> data' = replicate (length data) 0"
    and "l < length data \<Longrightarrow> enable ! l = 0 \<Longrightarrow> data' ! l = 0"
    using assms read_length [OF assms(2) len] read_wf [OF assms(2) len] read_response read_error
      read_disabled [OF assms(2) len]
    by (auto simp: device_read_def Let_def split: if_splits)
qed

lemma device_write_total:
  "length strobe = length data \<Longrightarrow> \<exists>r d'. device_write write_impl offset data strobe d = Inr (r, d')"
  by (simp add: device_write_def)

lemma device_write_facts:
  assumes "device_write write_impl offset data strobe d = Inr (r, d')"
  shows "wf d \<Longrightarrow> wf d'" and "r \<in> {Okay, SlaveError}" and "r \<noteq> Okay \<Longrightarrow> d' = d"
  using assms write_wf [of d strobe data offset r d'] write_response write_error
  by (auto simp: device_write_def split: if_splits)

end

text \<open>Byte-wise effects of lane loops on memory.\<close>

definition read_lanes :: "u8 list \<Rightarrow> nat \<Rightarrow> u8 list \<Rightarrow> u8 list \<Rightarrow> u8 list" where
  "read_lanes mem start data enable =
     map (\<lambda>lane. if enable ! lane \<noteq> 0 then mem ! (start + lane) else data ! lane) [0..<length data]"

definition write_lanes :: "u8 list \<Rightarrow> nat \<Rightarrow> u8 list \<Rightarrow> u8 list \<Rightarrow> u8 list" where
  "write_lanes mem start data strobe =
     fold (\<lambda>lane m. if strobe ! lane \<noteq> 0 then m[start + lane := data ! lane] else m)
       [0..<length data] mem"

text \<open>\<^verbatim>\<open>std::memcpy\<close> and \<^verbatim>\<open>std::ranges::copy\<close> into a buffer at an offset.\<close>

definition copy_into :: "u8 list \<Rightarrow> nat \<Rightarrow> u8 list \<Rightarrow> u8 list" where
  "copy_into mem start data = take start mem @ data @ drop (start + length data) mem"

lemma read_lanes_length [simp]: "length (read_lanes mem start data enable) = length data"
  by (simp add: read_lanes_def)

lemma read_lanes_nth:
  "l < length data \<Longrightarrow>
   read_lanes mem start data enable ! l = (if enable ! l \<noteq> 0 then mem ! (start + l) else data ! l)"
  by (simp add: read_lanes_def)

lemma write_lanes_prefix:
  fixes data strobe :: "u8 list"
  assumes "start + n \<le> length mem"
  defines "m \<equiv> fold (\<lambda>lane m. if strobe ! lane \<noteq> 0 then m[start + lane := data ! lane] else m) [0..<n] mem"
  shows "length m = length mem" and
    "i < length mem \<Longrightarrow> m ! i =
       (if start \<le> i \<and> i < start + n \<and> strobe ! (i - start) \<noteq> 0 then data ! (i - start) else mem ! i)"
proof -
  have "length m = length mem \<and> (\<forall>i<length mem. m ! i =
       (if start \<le> i \<and> i < start + n \<and> strobe ! (i - start) \<noteq> 0 then data ! (i - start) else mem ! i))"
    unfolding m_def using assms(1)
  proof (induction n)
    case 0
    then show ?case by auto
  next
    case (Suc n)
    then show ?case by (auto simp: nth_list_update less_Suc_eq)
  qed
  then show "length m = length mem" and
    "i < length mem \<Longrightarrow> m ! i =
       (if start \<le> i \<and> i < start + n \<and> strobe ! (i - start) \<noteq> 0 then data ! (i - start) else mem ! i)"
    by simp_all
qed

lemma write_lanes_length: "start + length data \<le> length mem \<Longrightarrow> length (write_lanes mem start data strobe) = length mem"
  unfolding write_lanes_def by (rule write_lanes_prefix)

lemma write_lanes_nth:
  "start + length data \<le> length mem \<Longrightarrow> i < length mem \<Longrightarrow>
   write_lanes mem start data strobe ! i =
     (if start \<le> i \<and> i < start + length data \<and> strobe ! (i - start) \<noteq> 0 then data ! (i - start) else mem ! i)"
  unfolding write_lanes_def by (rule write_lanes_prefix)

lemma copy_into_length [simp]: "start + length data \<le> length mem \<Longrightarrow> length (copy_into mem start data) = length mem"
  by (simp add: copy_into_def)

lemma copy_into_nth:
  "start + length data \<le> length mem \<Longrightarrow> i < length mem \<Longrightarrow>
   copy_into mem start data ! i =
     (if start \<le> i \<and> i < start + length data then data ! (i - start) else mem ! i)"
  by (auto simp: copy_into_def nth_append)

text \<open>The bulk paths agree with the lane loops when every lane is enabled.\<close>

lemma copy_into_eq_write_lanes:
  assumes "start + length data \<le> length mem" and "length strobe = length data" and "all_lanes_enabled strobe"
  shows "copy_into mem start data = write_lanes mem start data strobe"
  using assms
  by (intro nth_equalityI) (auto simp: write_lanes_length copy_into_nth write_lanes_nth all_lanes_enabled_nth)

lemma slice_eq_read_lanes:
  assumes "start + length data \<le> length mem" and "length enable = length data" and "all_lanes_enabled enable"
  shows "take (length data) (drop start mem) = read_lanes mem start data enable"
  using assms by (intro nth_equalityI) (auto simp: read_lanes_nth all_lanes_enabled_nth)

end
