(* ===== verification/Memory_Devices.thy ===== *)
theory Memory_Devices
  imports Device_Interface
begin

text \<open>
  \<^verbatim>\<open>RomDevice\<close>, \<^verbatim>\<open>RamDevice\<close> and \<^verbatim>\<open>ExitDevice\<close> of \<^verbatim>\<open>src/devices.cpp\<close>. Each interprets the contract
  \<open>bus_device\<close>; the bulk copies taken when all lanes are enabled are shown equal to the lane loops, and
  RAM is shown to be a byte-addressed memory.
\<close>

section \<open>ROM\<close>

record rom =
  rom_bytes :: "u8 list"

definition rom_new :: "nat \<Rightarrow> rom result" where
  "rom_new sz = (if sz = 0 then Inl (InvalidArgument ''ROM size must not be zero'')
                 else Inr \<lparr>rom_bytes = replicate sz 0\<rparr>)"

definition rom_new_image :: "u8 list \<Rightarrow> nat \<Rightarrow> rom result" where
  "rom_new_image img sz =
     (if sz = 0 then Inl (InvalidArgument ''ROM size must not be zero'')
      else if length img > sz then Inl (InvalidArgument ''ROM image is larger than ROM'')
      else Inr \<lparr>rom_bytes = copy_into (replicate sz 0) 0 img\<rparr>)"

definition rom_of_image :: "u8 list \<Rightarrow> rom result" where
  "rom_of_image img = rom_new_image img (length img)"

definition rom_size :: "rom \<Rightarrow> nat" where
  "rom_size d = length (rom_bytes d)"

definition rom_read_impl :: "rom read_hook" where
  "rom_read_impl offset data enable d =
     (if \<not> in_bounds offset (length data) (rom_size d) then (SlaveError, data, d)
      else let start = unat offset
           in if all_lanes_enabled enable
              then (Okay, take (length data) (drop start (rom_bytes d)), d)
              else (Okay, read_lanes (rom_bytes d) start data enable, d))"

definition rom_write_impl :: "rom write_hook" where
  "rom_write_impl offset data strobe d =
     (if \<not> in_bounds offset (length data) (rom_size d) then (SlaveError, d) else (SlaveError, d))"

definition rom_load :: "u64 \<Rightarrow> u8 list \<Rightarrow> rom \<Rightarrow> response \<times> rom" where
  "rom_load offset data d =
     (if \<not> in_bounds offset (length data) (rom_size d) then (SlaveError, d)
      else (Okay, d\<lparr>rom_bytes := copy_into (rom_bytes d) (unat offset) data\<rparr>))"

definition rom_can_load :: "u64 \<Rightarrow> u64 \<Rightarrow> rom \<Rightarrow> bool" where
  "rom_can_load offset sz d \<longleftrightarrow> range_in_bounds offset sz (rom_size d)"

definition rom_wf :: "rom \<Rightarrow> bool" where
  "rom_wf d \<longleftrightarrow> 0 < rom_size d"

interpretation rom_dev: bus_device rom_read_impl rom_write_impl rom_wf
  by unfold_locales
    (auto simp: rom_read_impl_def rom_write_impl_def Let_def rom_size_def slice_eq_read_lanes read_lanes_nth
      all_lanes_enabled_nth split: if_splits)

section \<open>RAM\<close>

text \<open>\<open>ram_bytes\<close> is the storage \<^verbatim>\<open>data_\<close> points to, whether mapped lazily or held by the fallback
  vector; the outcome of \<^verbatim>\<open>mmap\<close> is an argument of the constructor.\<close>

record ram =
  ram_size :: nat
  ram_bytes :: "u8 list"
  ram_mapped :: bool

definition ram_new :: "bool \<Rightarrow> nat \<Rightarrow> ram result" where
  "ram_new mmap_ok sz =
     (if sz = 0 then Inl (InvalidArgument ''RAM size must not be zero'')
      else Inr \<lparr>ram_size = sz, ram_bytes = replicate sz 0, ram_mapped = mmap_ok\<rparr>)"

definition ram_release :: "ram \<Rightarrow> ram" where
  "ram_release d = d\<lparr>ram_mapped := False, ram_bytes := [], ram_size := 0\<rparr>"

text \<open>Move construction and assignment take the storage over and leave the source empty.\<close>

definition ram_move :: "ram \<Rightarrow> ram \<times> ram" where
  "ram_move other = (other, other\<lparr>ram_size := 0, ram_bytes := [], ram_mapped := False\<rparr>)"

definition ram_move_assign :: "ram \<Rightarrow> ram \<Rightarrow> ram \<times> ram" where
  "ram_move_assign this other =
     (let released = ram_release this
      in (released\<lparr>ram_size := ram_size other, ram_bytes := ram_bytes other, ram_mapped := ram_mapped other\<rparr>,
          other\<lparr>ram_size := 0, ram_bytes := [], ram_mapped := False\<rparr>))"

definition ram_read_impl :: "ram read_hook" where
  "ram_read_impl offset data enable d =
     (if \<not> in_bounds offset (length data) (ram_size d) then (SlaveError, data, d)
      else let start = unat offset
           in if all_lanes_enabled enable
              then (Okay, take (length data) (drop start (ram_bytes d)), d)
              else (Okay, read_lanes (ram_bytes d) start data enable, d))"

definition ram_write_impl :: "ram write_hook" where
  "ram_write_impl offset data strobe d =
     (if \<not> in_bounds offset (length data) (ram_size d) then (SlaveError, d)
      else let start = unat offset
           in if all_lanes_enabled strobe
              then (Okay, d\<lparr>ram_bytes := copy_into (ram_bytes d) start data\<rparr>)
              else (Okay, d\<lparr>ram_bytes := write_lanes (ram_bytes d) start data strobe\<rparr>))"

definition ram_load :: "u64 \<Rightarrow> u8 list \<Rightarrow> ram \<Rightarrow> response \<times> ram" where
  "ram_load offset data d =
     (if \<not> in_bounds offset (length data) (ram_size d) then (SlaveError, d)
      else (Okay, d\<lparr>ram_bytes := copy_into (ram_bytes d) (unat offset) data\<rparr>))"

definition ram_can_load :: "u64 \<Rightarrow> u64 \<Rightarrow> ram \<Rightarrow> bool" where
  "ram_can_load offset sz d \<longleftrightarrow> range_in_bounds offset sz (ram_size d)"

definition ram_wf :: "ram \<Rightarrow> bool" where
  "ram_wf d \<longleftrightarrow> ram_size d = length (ram_bytes d) \<and> 0 < ram_size d"

lemma ram_read_lanes:
  assumes "ram_wf d" and "length enable = length data" and "unat offset + length data \<le> ram_size d"
  shows "ram_read_impl offset data enable d = (Okay, read_lanes (ram_bytes d) (unat offset) data enable, d)"
  using assms by (simp add: ram_read_impl_def Let_def ram_wf_def slice_eq_read_lanes)

lemma ram_write_lanes:
  assumes "ram_wf d" and "length strobe = length data" and "unat offset + length data \<le> ram_size d"
  shows "ram_write_impl offset data strobe d =
           (Okay, d\<lparr>ram_bytes := write_lanes (ram_bytes d) (unat offset) data strobe\<rparr>)"
  using assms by (simp add: ram_write_impl_def Let_def ram_wf_def copy_into_eq_write_lanes)

interpretation ram_dev: bus_device ram_read_impl ram_write_impl ram_wf
proof (unfold_locales, goal_cases)
  case (5 d strobe data offset r d')
  then show ?case
    using ram_write_lanes [of d strobe data offset]
    by (auto simp: ram_wf_def write_lanes_length ram_write_impl_def Let_def copy_into_length split: if_splits)
next
  case (4 offset data enable d r data' d')
  then show ?case by (auto simp: ram_read_impl_def Let_def split: if_splits)
next
  case (6 offset data strobe d r d')
  then show ?case by (auto simp: ram_write_impl_def Let_def split: if_splits)
qed (auto simp: ram_read_impl_def ram_write_impl_def Let_def ram_wf_def slice_eq_read_lanes read_lanes_nth
      all_lanes_enabled_nth split: if_splits)

section \<open>Exit register\<close>

record exit_device =
  ex_requested :: bool
  ex_code :: u32
  ex_generation :: u64

definition exit_new :: exit_device where
  "exit_new = \<lparr>ex_requested = False, ex_code = 0, ex_generation = 0\<rparr>"

definition exit_clear :: "exit_device \<Rightarrow> exit_device" where
  "exit_clear d = d\<lparr>ex_requested := False, ex_code := 0\<rparr>"

definition exit_read_impl :: "exit_device read_hook" where
  "exit_read_impl offset data enable d =
     (if \<not> in_bounds offset (length data) 4 then (SlaveError, data, d)
      else (Okay,
            map (\<lambda>lane. if enable ! lane \<noteq> 0
                        then ucast (drop_bit ((unat offset + lane) * 8) (ex_code d) AND 0xff)
                        else data ! lane) [0..<length data], d))"

definition exit_write_impl :: "exit_device write_hook" where
  "exit_write_impl offset data strobe d =
     (if offset \<noteq> 0 \<or> length data \<noteq> 4 \<or> \<not> list_all (\<lambda>v. v \<noteq> 0) strobe then (SlaveError, d)
      else (Okay, d\<lparr>ex_code := ucast (data ! 0) OR push_bit 8 (ucast (data ! 1)) OR
                                push_bit 16 (ucast (data ! 2)) OR push_bit 24 (ucast (data ! 3)),
                    ex_requested := True,
                    ex_generation := ex_generation d + 1\<rparr>))"

interpretation exit_dev: bus_device exit_read_impl exit_write_impl "\<lambda>_. True"
  by unfold_locales (auto simp: exit_read_impl_def exit_write_impl_def split: if_splits)

section \<open>Properties\<close>

text \<open>C37: RAM is a byte memory: after a write that fits, a read of any range that fits returns in every
  enabled lane the byte the write put there when the write covered that address with its strobe set, and
  the old byte otherwise, and zero in the disabled lanes. The theorem covers both the \<^verbatim>\<open>memcpy\<close> paths and the
  lane loops of \<^verbatim>\<open>RamDevice::read_impl\<close> and \<^verbatim>\<open>write_impl\<close>, through \<^verbatim>\<open>Device::read\<close> and \<^verbatim>\<open>Device::write\<close>.\<close>

theorem ram_read_after_write:
  assumes "ram_wf d"
    and "length strobe = length wdata" and "unat woff + length wdata \<le> ram_size d"
    and "length enable = length rdata" and "unat roff + length rdata \<le> ram_size d"
  shows "\<exists>d' out. device_write ram_write_impl woff wdata strobe d = Inr (Okay, d') \<and>
    device_read ram_read_impl roff rdata enable d' = Inr (Okay, out, d') \<and> length out = length rdata \<and>
    (\<forall>l. l < length rdata \<longrightarrow>
       out ! l =
         (let a = unat roff + l
          in if enable ! l = 0 then 0
             else if unat woff \<le> a \<and> a < unat woff + length wdata \<and> strobe ! (a - unat woff) \<noteq> 0
             then wdata ! (a - unat woff)
             else ram_bytes d ! a))"
proof -
  let ?d = "d\<lparr>ram_bytes := write_lanes (ram_bytes d) (unat woff) wdata strobe\<rparr>"
  let ?out = "read_lanes (ram_bytes ?d) (unat roff) (replicate (length rdata) 0) enable"
  have b: "unat woff + length wdata \<le> length (ram_bytes d)"
    using assms by (simp add: ram_wf_def)
  have w: "device_write ram_write_impl woff wdata strobe d = Inr (Okay, ?d)"
    using assms ram_write_lanes [OF assms(1-3)]
    by (auto simp: device_write_def write_lanes_def)
  have wf: "ram_wf ?d"
    using assms b by (auto simp: ram_wf_def write_lanes_length)
  have r: "device_read ram_read_impl roff rdata enable ?d = Inr (Okay, ?out, ?d)"
    using assms(4,5) ram_read_lanes [OF wf, of enable "replicate (length rdata) 0" roff]
    by (auto simp: device_read_def Let_def read_lanes_def)
  have "?out ! l =
         (let a = unat roff + l
          in if enable ! l = 0 then 0
             else if unat woff \<le> a \<and> a < unat woff + length wdata \<and> strobe ! (a - unat woff) \<noteq> 0
             then wdata ! (a - unat woff)
             else ram_bytes d ! a)" if "l < length rdata" for l
    using that assms(1,5) write_lanes_nth [OF b, of "unat roff + l" strobe]
    by (simp add: read_lanes_nth Let_def ram_wf_def)
  then show ?thesis using w r by auto
qed

definition example_ram :: ram where
  "example_ram = \<lparr>ram_size = 8, ram_bytes = replicate 8 0, ram_mapped = True\<rparr>"

theorem ram_read_after_write_witness:
  "\<exists>d' out. device_write ram_write_impl 2 [1, 2, 3] [1, 0, 1] example_ram = Inr (Okay, d') \<and>
     device_read ram_read_impl 1 [0, 0, 0, 0] [1, 1, 1, 1] d' = Inr (Okay, out, d') \<and>
     out ! 1 = 1 \<and> out ! 2 = 0 \<and> out ! 3 = 3"
proof -
  have hyps: "ram_wf example_ram" "length [1, 0, 1 :: u8] = length [1, 2, 3 :: u8]"
    "unat (2 :: u64) + length [1, 2, 3 :: u8] \<le> ram_size example_ram"
    "length [1, 1, 1, 1 :: u8] = length [0, 0, 0, 0 :: u8]"
    "unat (1 :: u64) + length [0, 0, 0, 0 :: u8] \<le> ram_size example_ram"
    and old: "ram_bytes example_ram ! Suc (Suc (Suc 0)) = 0"
    by (code_simp, code_simp, code_simp, code_simp, code_simp, code_simp)
  obtain d' out where "device_write ram_write_impl 2 [1, 2, 3] [1, 0, 1] example_ram = Inr (Okay, d')"
    and "device_read ram_read_impl 1 [0, 0, 0, 0] [1, 1, 1, 1] d' = Inr (Okay, out, d')"
    and out: "\<forall>l. l < 4 \<longrightarrow> out ! l =
         (let a = 1 + l
          in if [1, 1, 1, 1 :: u8] ! l = 0 then 0
             else if 2 \<le> a \<and> a < 5 \<and> [1, 0, 1 :: u8] ! (a - 2) \<noteq> 0 then [1, 2, 3] ! (a - 2)
             else ram_bytes example_ram ! a)"
    using ram_read_after_write [OF hyps] by auto
  moreover have "out ! 1 = 1" "out ! 2 = 0" "out ! 3 = 3"
    using out [rule_format, of 1] out [rule_format, of 2] out [rule_format, of 3] old by simp_all
  ultimately show ?thesis by blast
qed

lemma exit_code_value:
  fixes b0 b1 b2 b3 :: u8
  shows "unat (ucast b0 OR push_bit 8 (ucast b1) OR push_bit 16 (ucast b2) OR push_bit 24 (ucast b3) :: u32) =
    unat b0 + 256 * unat b1 + 65536 * unat b2 + 16777216 * unat b3"
proof -
  note b = unat_u8_less [of b0] unat_u8_less [of b1] unat_u8_less [of b2] unat_u8_less [of b3]
  have 1: "unat (ucast b0 OR push_bit 8 (ucast b1) :: u32) = unat b0 + 256 * unat b1"
    using b by (subst unat_or_push_bit [where m = 8]) (simp_all add: unat_ucast_up)
  have 2: "unat ((ucast b0 OR push_bit 8 (ucast b1)) OR push_bit 16 (ucast b2) :: u32) =
      unat b0 + 256 * unat b1 + 65536 * unat b2"
    using b by (subst unat_or_push_bit [where m = 8]) (simp_all add: unat_ucast_up 1)
  have "unat (((ucast b0 OR push_bit 8 (ucast b1)) OR push_bit 16 (ucast b2)) OR push_bit 24 (ucast b3) :: u32) =
      unat b0 + 256 * unat b1 + 65536 * unat b2 + 16777216 * unat b3"
    using b by (subst unat_or_push_bit [where m = 8]) (simp_all add: unat_ucast_up 2)
  then show ?thesis by (simp add: or.assoc)
qed

lemma exit_code_bytes:
  fixes b0 b1 b2 b3 :: u8
  defines "c \<equiv> (ucast b0 OR push_bit 8 (ucast b1) OR push_bit 16 (ucast b2) OR push_bit 24 (ucast b3) :: u32)"
  shows "ucast (c AND 255) = b0" "ucast (drop_bit 8 c AND 255) = b1"
    "ucast (drop_bit 16 c AND 255) = b2" "ucast (drop_bit 24 c AND 255) = b3"
proof -
  have high: "\<not> bit b n" if "8 \<le> n" for b :: u8 and n
    using that bit_imp_le_length [of b n] by auto
  show "ucast (c AND 255) = b0" "ucast (drop_bit 8 c AND 255) = b1"
    "ucast (drop_bit 16 c AND 255) = b2" "ucast (drop_bit 24 c AND 255) = b3"
    unfolding c_def
    by (rule bit_word_eqI, force simp: bit_simps bit_255_iff high simp del: bit_numeral_word_iff)+
qed

text \<open>The exit register accepts exactly an aligned, full-strobe 32-bit write and then reads back, lane by
  lane, the bytes written, so the host sees the little-endian word the guest stored; every other write is
  answered SLVERR and leaves the register unchanged.\<close>

theorem exit_register_write:
  "(offset = 0 \<and> length data = 4 \<and> all_lanes_enabled strobe \<longrightarrow>
      (\<exists>d'. exit_write_impl offset data strobe d = (Okay, d') \<and> ex_requested d' \<and>
         ex_generation d' = ex_generation d + 1 \<and>
         exit_read_impl 0 [0, 0, 0, 0] [1, 1, 1, 1] d' = (Okay, data, d') \<and>
         unat (ex_code d') = unat (data ! 0) + 256 * unat (data ! 1) + 65536 * unat (data ! 2) +
           16777216 * unat (data ! 3))) \<and>
   (\<not> (offset = 0 \<and> length data = 4 \<and> all_lanes_enabled strobe) \<longrightarrow>
      exit_write_impl offset data strobe d = (SlaveError, d))"
proof (intro conjI impI)
  assume a0: "offset = 0 \<and> length data = 4 \<and> all_lanes_enabled strobe"
  then have a: "offset = 0" "length data = 4" "all_lanes_enabled strobe" by simp_all
  obtain b0 b1 b2 b3 where data: "data = [b0, b1, b2, b3]"
    using a(2) by (auto simp: numeral_eq_Suc length_Suc_conv)
  have upt: "[0..<4] = [0, 1, 2, 3 :: nat]" by code_simp
  show "\<exists>d'. exit_write_impl offset data strobe d = (Okay, d') \<and> ex_requested d' \<and>
         ex_generation d' = ex_generation d + 1 \<and>
         exit_read_impl 0 [0, 0, 0, 0] [1, 1, 1, 1] d' = (Okay, data, d') \<and>
         unat (ex_code d') = unat (data ! 0) + 256 * unat (data ! 1) + 65536 * unat (data ! 2) +
           16777216 * unat (data ! 3)"
    using a exit_code_bytes [of b0 b1 b2 b3] exit_code_value [of b0 b1 b2 b3]
    by (simp add: data exit_write_impl_def all_lanes_enabled_def exit_read_impl_def upt)
qed (auto simp: exit_write_impl_def all_lanes_enabled_def)

theorem exit_register_write_witness:
  "(\<exists>d'. exit_write_impl 0 [3, 1, 0, 0] [1, 1, 1, 1] exit_new = (Okay, d') \<and> unat (ex_code d') = 259) \<and>
   exit_write_impl 0 [3, 1, 0, 0] [1, 1, 0, 1] exit_new = (SlaveError, exit_new)"
proof
  have "all_lanes_enabled [1, 1, 1, 1]" by code_simp
  then show "\<exists>d'. exit_write_impl 0 [3, 1, 0, 0] [1, 1, 1, 1] exit_new = (Okay, d') \<and> unat (ex_code d') = 259"
    using exit_register_write [of 0 "[3, 1, 0, 0]" "[1, 1, 1, 1]" exit_new] by auto
  have "\<not> all_lanes_enabled [1, 1, 0, 1]" by code_simp
  then show "exit_write_impl 0 [3, 1, 0, 0] [1, 1, 0, 1] exit_new = (SlaveError, exit_new)"
    using exit_register_write [of 0 "[3, 1, 0, 0]" "[1, 1, 0, 1]" exit_new] by blast
qed

end
