(* ===== verification/Uart.thy ===== *)
theory Uart
  imports Device_Interface Ring_Buffer
begin

text \<open>
  \<^verbatim>\<open>UartDevice\<close> and its two host backends (\<^verbatim>\<open>src/devices.hpp\<close>, \<^verbatim>\<open>src/devices.cpp\<close>): a 16550-style UART with
  a 16-entry receive FIFO, interrupt identification, modem loopback, and host input polled from \<^verbatim>\<open>tick\<close>
  and \<^verbatim>\<open>read\<close>. The operating system behind \<^verbatim>\<open>FileUartBackend\<close> is an explicit list of outcomes of the
  \<^verbatim>\<open>poll\<close>/\<^verbatim>\<open>fgetc\<close> pair; the in-memory backend is modelled in full.
\<close>

section \<open>Backends\<close>

text \<open>What the next probe of the input file yields; an exhausted list is a file that is never ready.\<close>

datatype file_event = NotReady | EndOfFile | Byte u8

record file_backend =
  fb_input_open :: bool
  fb_descriptor_ok :: bool
  fb_events :: "file_event list"
  fb_output_open :: bool
  fb_output :: "u8 list"

definition file_backend_new :: "bool \<Rightarrow> bool \<Rightarrow> file_event list \<Rightarrow> bool \<Rightarrow> file_backend" where
  "file_backend_new input_open fileno_ok events output_open =
     \<lparr>fb_input_open = input_open, fb_descriptor_ok = input_open \<and> fileno_ok, fb_events = events,
      fb_output_open = output_open, fb_output = []\<rparr>"

definition file_try_read :: "file_backend \<Rightarrow> u8 option \<times> file_backend" where
  "file_try_read b =
     (if \<not> fb_input_open b then (None, b)
      else if \<not> fb_descriptor_ok b then (None, b)
      else case fb_events b of
             [] \<Rightarrow> (None, b)
           | NotReady # es \<Rightarrow> (None, b\<lparr>fb_events := es\<rparr>)
           | EndOfFile # es \<Rightarrow> (None, b\<lparr>fb_events := es\<rparr>)
           | Byte v # es \<Rightarrow> (Some v, b\<lparr>fb_events := es\<rparr>))"

definition file_write :: "u8 \<Rightarrow> file_backend \<Rightarrow> file_backend" where
  "file_write v b = (if fb_output_open b then b\<lparr>fb_output := fb_output b @ [v]\<rparr> else b)"

record buffer_backend =
  bb_input :: "u8 list"
  bb_output :: "u8 list"

definition buffer_push_input :: "u8 list \<Rightarrow> buffer_backend \<Rightarrow> buffer_backend" where
  "buffer_push_input vs b = b\<lparr>bb_input := bb_input b @ vs\<rparr>"

definition buffer_push_byte :: "u8 \<Rightarrow> buffer_backend \<Rightarrow> buffer_backend" where
  "buffer_push_byte v b = b\<lparr>bb_input := bb_input b @ [v]\<rparr>"

definition buffer_backend_new :: "u8 list \<Rightarrow> buffer_backend" where
  "buffer_backend_new vs = buffer_push_input vs \<lparr>bb_input = [], bb_output = []\<rparr>"

definition buffer_try_read :: "buffer_backend \<Rightarrow> u8 option \<times> buffer_backend" where
  "buffer_try_read b =
     (case bb_input b of [] \<Rightarrow> (None, b) | v # vs \<Rightarrow> (Some v, b\<lparr>bb_input := vs\<rparr>))"

definition buffer_write :: "u8 \<Rightarrow> buffer_backend \<Rightarrow> buffer_backend" where
  "buffer_write v b = b\<lparr>bb_output := bb_output b @ [v]\<rparr>"

definition buffer_clear_output :: "buffer_backend \<Rightarrow> buffer_backend" where
  "buffer_clear_output b = b\<lparr>bb_output := []\<rparr>"

text \<open>The function pointers bound by \<^verbatim>\<open>bind_backend\<close>. Flushing has no effect the model observes.\<close>

datatype uart_backend = FileBackend file_backend | BufferBackend buffer_backend

fun backend_try_read :: "uart_backend \<Rightarrow> u8 option \<times> uart_backend" where
  "backend_try_read (FileBackend b) = (case file_try_read b of (r, b') \<Rightarrow> (r, FileBackend b'))"
| "backend_try_read (BufferBackend b) = (case buffer_try_read b of (r, b') \<Rightarrow> (r, BufferBackend b'))"

fun backend_write :: "u8 \<Rightarrow> uart_backend \<Rightarrow> uart_backend" where
  "backend_write v (FileBackend b) = FileBackend (file_write v b)"
| "backend_write v (BufferBackend b) = BufferBackend (buffer_write v b)"

section \<open>The device\<close>

record uart =
  ua_backend :: uart_backend
  ua_fifo :: "u8 ring_buffer"
  ua_divisor_low :: u8
  ua_divisor_high :: u8
  ua_interrupt_enable :: u8
  ua_line_control :: u8
  ua_modem_control :: u8
  ua_scratch :: u8
  ua_fifo_control :: u8
  ua_irq :: signal
  ua_character_cycles :: u64
  ua_receive_idle_cycles :: u64
  ua_input_poll_cycles :: u64
  ua_input_poll_remaining :: u64
  ua_thre_pending :: bool
  ua_tx_pending :: bool
  ua_overrun :: bool
  ua_modem_status :: u8
  ua_modem_delta :: u8

definition LCR_DLAB :: u8 where
  "LCR_DLAB = 0x80"

definition uart_reset :: "uart \<Rightarrow> uart" where
  "uart_reset d = d\<lparr>
     ua_fifo := rb_clear (ua_fifo d),
     ua_divisor_low := 0,
     ua_divisor_high := 0,
     ua_interrupt_enable := 0,
     ua_line_control := 0,
     ua_modem_control := 0,
     ua_scratch := 0,
     ua_fifo_control := 0,
     ua_irq := (ua_irq d)\<lparr>sig_value := 0\<rparr>,
     ua_receive_idle_cycles := 0,
     ua_input_poll_remaining := 0,
     ua_thre_pending := True,
     ua_tx_pending := False,
     ua_overrun := False,
     ua_modem_status := 0xb0,
     ua_modem_delta := 0\<rparr>"

definition uart_new :: "uart_backend \<Rightarrow> uart" where
  "uart_new b = uart_reset \<lparr>
     ua_backend = b, ua_fifo = rb_new 16 0, ua_divisor_low = 0, ua_divisor_high = 0,
     ua_interrupt_enable = 0, ua_line_control = 0, ua_modem_control = 0, ua_scratch = 0,
     ua_fifo_control = 0, ua_irq = \<lparr>sig_width = 1, sig_value = 0\<rparr>, ua_character_cycles = 16,
     ua_receive_idle_cycles = 0, ua_input_poll_cycles = 1, ua_input_poll_remaining = 0,
     ua_thre_pending = True, ua_tx_pending = False, ua_overrun = False, ua_modem_status = 0xb0,
     ua_modem_delta = 0\<rparr>"

definition uart_set_character_cycles :: "u64 \<Rightarrow> uart \<Rightarrow> uart result" where
  "uart_set_character_cycles cycles d =
     (if cycles = 0 \<or> cycles > 0xFFFFFFFFFFFFFFFF div 4
      then Inl (InvalidArgument ''UART character cycles out of range'')
      else Inr (d\<lparr>ua_character_cycles := cycles\<rparr>))"

definition uart_set_input_poll_cycles :: "u64 \<Rightarrow> uart \<Rightarrow> uart result" where
  "uart_set_input_poll_cycles cycles d =
     (if cycles = 0 then Inl (InvalidArgument ''UART input poll cycles must be positive'')
      else Inr (d\<lparr>ua_input_poll_cycles := cycles, ua_input_poll_remaining := 0\<rparr>))"

definition uart_capacity :: "uart \<Rightarrow> nat" where
  "uart_capacity d = (if ua_fifo_control d AND 1 \<noteq> 0 then 16 else 1)"

definition interrupt_identification :: "uart \<Rightarrow> u8" where
  "interrupt_identification d =
     (let fifo_bits = (if ua_fifo_control d AND 1 \<noteq> 0 then 0xc0 else 0);
          trigger = (if ua_fifo_control d AND 1 \<noteq> 0
                     then [1, 4, 8, 14] ! unat (drop_bit 6 (ua_fifo_control d)) else 1)
      in if ua_interrupt_enable d AND 4 \<noteq> 0 \<and> ua_overrun d then fifo_bits OR 0x06
         else if ua_interrupt_enable d AND 1 \<noteq> 0 \<and> rb_size (ua_fifo d) \<ge> trigger then fifo_bits OR 0x04
         else if ua_interrupt_enable d AND 1 \<noteq> 0 \<and> \<not> rb_empty (ua_fifo d) \<and> ua_fifo_control d AND 1 \<noteq> 0 \<and>
                 ua_receive_idle_cycles d \<ge> 4 * ua_character_cycles d then fifo_bits OR 0x0c
         else if ua_interrupt_enable d AND 2 \<noteq> 0 \<and> ua_thre_pending d then fifo_bits OR 0x02
         else if ua_interrupt_enable d AND 8 \<noteq> 0 \<and> ua_modem_delta d \<noteq> 0 then fifo_bits OR 0x00
         else fifo_bits OR 0x01)"

definition uart_settle :: "uart \<Rightarrow> uart" where
  "uart_settle d = d\<lparr>ua_irq := (ua_irq d)
     \<lparr>sig_value := (if interrupt_identification d AND 1 = 0 then 1 else 0)\<rparr>\<rparr>"

text \<open>The \<^verbatim>\<open>while\<close> loop of \<^verbatim>\<open>poll_input\<close>: every iteration that goes on has pushed a byte.\<close>

function uart_poll_loop :: "nat \<Rightarrow> uart \<Rightarrow> uart" where
  "uart_poll_loop capacity d =
     (if rb_size (ua_fifo d) < capacity then
        (case backend_try_read (ua_backend d) of
           (None, b) \<Rightarrow>
             d\<lparr>ua_backend := b,
               ua_input_poll_remaining :=
                 (if ua_input_poll_cycles d = 1 then 0 else ua_input_poll_cycles d)\<rparr>
         | (Some value, b) \<Rightarrow>
             (let (pushed, f) = rb_push value (ua_fifo d)
              in if \<not> pushed then d\<lparr>ua_backend := b\<rparr>
                 else uart_poll_loop capacity (d\<lparr>ua_backend := b, ua_fifo := f, ua_receive_idle_cycles := 0\<rparr>)))
      else d)"
  by pat_completeness auto

termination
  by (relation "measure (\<lambda>(capacity, d). capacity - rb_size (ua_fifo d))")
    (auto simp: rb_push_def split: if_splits)

declare uart_poll_loop.simps [simp del]

definition uart_poll_input :: "uart \<Rightarrow> uart" where
  "uart_poll_input d =
     (if ua_modem_control d AND 0x10 \<noteq> 0 \<or> ua_input_poll_remaining d \<noteq> 0 then d
      else uart_poll_loop (uart_capacity d) d)"

definition uart_tick :: "uart \<Rightarrow> uart" where
  "uart_tick d =
     (let d1 = (if ua_input_poll_remaining d \<noteq> 0
                then d\<lparr>ua_input_poll_remaining := ua_input_poll_remaining d - 1\<rparr> else d);
          d2 = (if ua_tx_pending d1 then d1\<lparr>ua_tx_pending := False, ua_thre_pending := True\<rparr> else d1);
          d3 = (if \<not> rb_empty (ua_fifo d2) \<and> ua_receive_idle_cycles d2 < 4 * ua_character_cycles d2
                then d2\<lparr>ua_receive_idle_cycles := ua_receive_idle_cycles d2 + 1\<rparr> else d2)
      in uart_settle (uart_poll_input d3))"

text \<open>\<^verbatim>\<open>read_register\<close>; \<^verbatim>\<open>front()\<close> and \<^verbatim>\<open>pop()\<close> are called on a non-empty FIFO only, so they return.\<close>

definition uart_read_register :: "u64 \<Rightarrow> uart \<Rightarrow> u8 \<times> uart" where
  "uart_read_register index d =
     (if index = 0 then
        (if ua_line_control d AND LCR_DLAB \<noteq> 0 then (ua_divisor_low d, d)
         else if rb_empty (ua_fifo d) then (0, d)
         else (projr (rb_front (ua_fifo d)),
               d\<lparr>ua_fifo := projr (rb_pop (ua_fifo d)), ua_receive_idle_cycles := 0\<rparr>))
      else if index = 1 then
        (if ua_line_control d AND LCR_DLAB \<noteq> 0 then ua_divisor_high d else ua_interrupt_enable d, d)
      else if index = 2 then
        (let value = interrupt_identification d
         in (value, if value AND 0x0f = 2 then d\<lparr>ua_thre_pending := False\<rparr> else d))
      else if index = 3 then (ua_line_control d, d)
      else if index = 4 then (ua_modem_control d, d)
      else if index = 5 then
        ((if ua_tx_pending d then 0 else 0x20 OR 0x40) OR (if ua_overrun d then 2 else 0) OR
         (if rb_empty (ua_fifo d) then 0 else 1),
         d\<lparr>ua_overrun := False\<rparr>)
      else if index = 6 then (ua_modem_status d OR ua_modem_delta d, d\<lparr>ua_modem_delta := 0\<rparr>)
      else if index = 7 then (ua_scratch d, d)
      else (0, d))"

definition uart_transmit :: "u8 \<Rightarrow> uart \<Rightarrow> uart" where
  "uart_transmit value d =
     (let d1 = d\<lparr>ua_thre_pending := False, ua_tx_pending := True\<rparr>
      in if ua_modem_control d1 AND 0x10 \<noteq> 0 then
           (if rb_size (ua_fifo d1) \<ge> uart_capacity d1
            then d1\<lparr>ua_overrun := True, ua_receive_idle_cycles := 0\<rparr>
            else d1\<lparr>ua_fifo := snd (rb_push value (ua_fifo d1)), ua_receive_idle_cycles := 0\<rparr>)
         else d1\<lparr>ua_backend := backend_write value (ua_backend d1)\<rparr>)"

definition uart_set_modem_control :: "u8 \<Rightarrow> uart \<Rightarrow> uart" where
  "uart_set_modem_control value d =
     (let previous = ua_modem_status d;
          status = (if value AND 0x10 = 0 then 0xb0
                    else push_bit 3 (value AND 2) OR push_bit 5 (value AND 1) OR
                         push_bit 4 (value AND 4) OR push_bit 4 (value AND 8));
          changed = drop_bit 4 (previous XOR status)
      in d\<lparr>ua_modem_control := value AND 0x1f,
           ua_modem_status := status,
           ua_modem_delta := ua_modem_delta d OR
             ((changed AND 0x0b) OR (if previous AND 0x40 \<noteq> 0 \<and> status AND 0x40 = 0 then 4 else 0))\<rparr>)"

definition uart_write_register :: "u64 \<Rightarrow> u8 \<Rightarrow> uart \<Rightarrow> uart" where
  "uart_write_register index value d =
     (if index = 0 then
        (if ua_line_control d AND LCR_DLAB \<noteq> 0 then d\<lparr>ua_divisor_low := value\<rparr> else uart_transmit value d)
      else if index = 1 then
        (if ua_line_control d AND LCR_DLAB \<noteq> 0 then d\<lparr>ua_divisor_high := value\<rparr>
         else
           (let d1 = (if value AND 2 \<noteq> 0 \<and> ua_interrupt_enable d AND 2 = 0 \<and> \<not> ua_tx_pending d
                      then d\<lparr>ua_thre_pending := True\<rparr> else d)
            in d1\<lparr>ua_interrupt_enable := value AND 0x0f\<rparr>))
      else if index = 2 then
        (let d1 = (if value AND 0x02 \<noteq> 0 \<or> (value XOR ua_fifo_control d) AND 1 \<noteq> 0
                   then d\<lparr>ua_fifo := rb_clear (ua_fifo d), ua_receive_idle_cycles := 0\<rparr> else d);
             d2 = (if value AND 0x04 \<noteq> 0 then d1\<lparr>ua_tx_pending := False, ua_thre_pending := True\<rparr> else d1)
         in d2\<lparr>ua_fifo_control := value AND 0xc9\<rparr>)
      else if index = 3 then d\<lparr>ua_line_control := value\<rparr>
      else if index = 4 then uart_set_modem_control value d
      else if index = 7 then d\<lparr>ua_scratch := value\<rparr>
      else d)"

text \<open>The lane loops. Lane \<open>k\<close> of the access is register \<open>offset + k\<close>.\<close>

primrec uart_read_lanes :: "u64 \<Rightarrow> nat list \<Rightarrow> u8 list \<Rightarrow> u8 list \<Rightarrow> uart \<Rightarrow> u8 list \<times> uart" where
  "uart_read_lanes offset [] data enable d = (data, d)"
| "uart_read_lanes offset (lane # lanes) data enable d =
     (if enable ! lane \<noteq> 0
      then (let (v, d') = uart_read_register (offset + of_nat lane) d
            in uart_read_lanes offset lanes (data[lane := v]) enable d')
      else uart_read_lanes offset lanes data enable d)"

definition uart_read_impl :: "uart read_hook" where
  "uart_read_impl offset data enable d =
     (if \<not> in_bounds offset (length data) 8 then (SlaveError, data, d)
      else (let (data', d') = uart_read_lanes offset [0..<length data] data enable (uart_poll_input d)
            in (Okay, data', uart_settle d')))"

definition uart_write_impl :: "uart write_hook" where
  "uart_write_impl offset data strobe d =
     (if \<not> in_bounds offset (length data) 8 then (SlaveError, d)
      else (Okay, uart_settle
        (fold (\<lambda>lane d. if strobe ! lane \<noteq> 0
                        then uart_write_register (offset + of_nat lane) (data ! lane) d else d)
          [0..<length data] d)))"

section \<open>Well-formedness\<close>

text \<open>The receive FIFO never holds more than the capacity selected by FCR bit 0, and \<open>4 * character_cycles\<close>
  does not wrap.\<close>

definition uart_wf :: "uart \<Rightarrow> bool" where
  "uart_wf d \<longleftrightarrow>
     rb_wf (ua_fifo d) \<and> rb_capacity (ua_fifo d) = 16 \<and> rb_size (ua_fifo d) \<le> uart_capacity d \<and>
     0 < unat (ua_character_cycles d) \<and> 4 * unat (ua_character_cycles d) < 2 ^ 64"

lemma uart_capacity_bounds: "0 < uart_capacity d" "uart_capacity d \<le> 16"
  by (simp_all add: uart_capacity_def)

lemma uart_wf_cong:
  assumes "uart_wf d" and "ua_fifo d' = ua_fifo d" and "ua_fifo_control d' = ua_fifo_control d"
    and "ua_character_cycles d' = ua_character_cycles d"
  shows "uart_wf d'"
  using assms by (simp add: uart_wf_def uart_capacity_def)

lemma uart_wf_push:
  assumes "uart_wf d" and "rb_size (ua_fifo d) < uart_capacity d" and "rb_push v (ua_fifo d) = (ok, f)"
  shows "ok" and "rb_list f = rb_list (ua_fifo d) @ [v]" and "uart_wf (d\<lparr>ua_fifo := f\<rparr>)"
proof -
  have "\<not> rb_full (ua_fifo d)"
    using assms(1,2) uart_capacity_bounds(2) [of d] by (simp add: rb_full_def uart_wf_def)
  moreover have wf: "rb_wf (ua_fifo d)" using assms(1) by (simp add: uart_wf_def)
  ultimately have f: "ok \<and> rb_wf f \<and> rb_capacity f = rb_capacity (ua_fifo d) \<and> rb_list f = rb_list (ua_fifo d) @ [v]"
    using ring.push_free [OF _ _ assms(3)] by blast
  then show "ok" and "rb_list f = rb_list (ua_fifo d) @ [v]" by simp_all
  have "rb_size f = Suc (rb_size (ua_fifo d))"
    using f by (metis length_append_singleton rb_list_length)
  then show "uart_wf (d\<lparr>ua_fifo := f\<rparr>)"
    using assms f by (simp add: uart_wf_def uart_capacity_def)
qed

lemma uart_wf_pop:
  assumes "uart_wf d" and "\<not> rb_empty (ua_fifo d)"
  shows "rb_list (ua_fifo d) =
      projr (rb_front (ua_fifo d)) # rb_list (projr (rb_pop (ua_fifo d)))"
    and "uart_wf (d\<lparr>ua_fifo := projr (rb_pop (ua_fifo d)), ua_receive_idle_cycles := n\<rparr>)"
proof -
  have wf: "rb_wf (ua_fifo d)" and ne: "rb_list (ua_fifo d) \<noteq> []"
    using assms by (simp_all add: uart_wf_def rb_empty_def)
  obtain f where f: "rb_pop (ua_fifo d) = Inr f" "rb_wf f" "rb_capacity f = rb_capacity (ua_fifo d)"
    "rb_list f = tl (rb_list (ua_fifo d))"
    using ring.pop_nonempty [OF wf ne] by blast
  then show "rb_list (ua_fifo d) = projr (rb_front (ua_fifo d)) # rb_list (projr (rb_pop (ua_fifo d)))"
    using ring.front_nonempty [OF wf ne] ne by simp
  have "rb_size f = rb_size (ua_fifo d) - 1"
    using f(4) by (metis length_tl rb_list_length)
  then show "uart_wf (d\<lparr>ua_fifo := projr (rb_pop (ua_fifo d)), ua_receive_idle_cycles := n\<rparr>)"
    using assms f by (auto simp: uart_wf_def uart_capacity_def split: if_splits)
qed

lemma uart_wf_clear: "uart_wf d \<Longrightarrow> uart_wf (d\<lparr>ua_fifo := rb_clear (ua_fifo d)\<rparr>)"
  using rb_clear_wf [of "ua_fifo d"] by (simp add: uart_wf_def uart_capacity_def rb_clear_def)

lemma uart_new_wf: "uart_wf (uart_new b)"
  using rb_new_wf [of 16 "0 :: u8"] rb_clear_wf [of "rb_new 16 (0 :: u8)"]
  by (simp add: uart_new_def uart_reset_def uart_wf_def uart_capacity_def rb_clear_def)

lemma uart_reset_wf: "uart_wf d \<Longrightarrow> uart_wf (uart_reset d)"
  using rb_clear_wf [of "ua_fifo d"]
  by (simp add: uart_reset_def uart_wf_def uart_capacity_def rb_clear_def)

lemma uart_settle_simps [simp]:
  "ua_fifo (uart_settle d) = ua_fifo d" "ua_backend (uart_settle d) = ua_backend d"
  "ua_fifo_control (uart_settle d) = ua_fifo_control d" "ua_line_control (uart_settle d) = ua_line_control d"
  "ua_modem_control (uart_settle d) = ua_modem_control d"
  "ua_character_cycles (uart_settle d) = ua_character_cycles d"
  "uart_wf (uart_settle d) = uart_wf d"
  by (simp_all add: uart_settle_def uart_wf_def uart_capacity_def)

subsection \<open>Host input\<close>

text \<open>The bytes a backend will still deliver.\<close>

fun event_bytes :: "file_event list \<Rightarrow> u8 list" where
  "event_bytes [] = []"
| "event_bytes (Byte v # es) = v # event_bytes es"
| "event_bytes (_ # es) = event_bytes es"

fun pending_input :: "uart_backend \<Rightarrow> u8 list" where
  "pending_input (FileBackend b) =
     (if fb_input_open b \<and> fb_descriptor_ok b then event_bytes (fb_events b) else [])"
| "pending_input (BufferBackend b) = bb_input b"

fun backend_output :: "uart_backend \<Rightarrow> u8 list" where
  "backend_output (FileBackend b) = fb_output b"
| "backend_output (BufferBackend b) = bb_output b"

fun accepts_output :: "uart_backend \<Rightarrow> bool" where
  "accepts_output (FileBackend b) = fb_output_open b"
| "accepts_output (BufferBackend b) = True"

lemma backend_try_read_pending:
  assumes "backend_try_read b = (r, b')"
  shows "pending_input b = (case r of None \<Rightarrow> [] | Some v \<Rightarrow> [v]) @ pending_input b' \<and>
    backend_output b' = backend_output b \<and> accepts_output b' = accepts_output b"
  using assms
  by (cases b) (auto simp: file_try_read_def buffer_try_read_def split: if_splits list.splits file_event.splits)

lemma backend_write_effect:
  "pending_input (backend_write v b) = pending_input b \<and>
   accepts_output (backend_write v b) = accepts_output b \<and>
   (accepts_output b \<longrightarrow> backend_output (backend_write v b) = backend_output b @ [v])"
  by (cases b) (auto simp: file_write_def buffer_write_def)

definition uart_stream :: "uart \<Rightarrow> u8 list" where
  "uart_stream d = rb_list (ua_fifo d) @ pending_input (ua_backend d)"

text \<open>What polling keeps: the byte stream and every control register.\<close>

definition same_controls :: "uart \<Rightarrow> uart \<Rightarrow> bool" where
  "same_controls d d' \<longleftrightarrow>
     ua_fifo_control d' = ua_fifo_control d \<and> ua_line_control d' = ua_line_control d \<and>
     ua_modem_control d' = ua_modem_control d \<and> ua_character_cycles d' = ua_character_cycles d \<and>
     backend_output (ua_backend d') = backend_output (ua_backend d) \<and>
     accepts_output (ua_backend d') = accepts_output (ua_backend d)"

lemma same_controls_refl [simp]: "same_controls d d"
  by (simp add: same_controls_def)

lemma same_controls_trans: "same_controls d d' \<Longrightarrow> same_controls d' d'' \<Longrightarrow> same_controls d d''"
  by (simp add: same_controls_def)

lemma uart_poll_loop_keeps:
  assumes "uart_wf d"
  shows "uart_wf (uart_poll_loop (uart_capacity d) d)
    \<and> uart_stream (uart_poll_loop (uart_capacity d) d) = uart_stream d
    \<and> same_controls d (uart_poll_loop (uart_capacity d) d)"
  using assms
proof (induction "uart_capacity d" d rule: uart_poll_loop.induct)
  case (1 d)
  obtain r b where rb: "backend_try_read (ua_backend d) = (r, b)" by fastforce
  note bk = backend_try_read_pending [OF rb]
  show ?case
  proof (cases "rb_size (ua_fifo d) < uart_capacity d")
    case False
    then show ?thesis using 1 by (simp add: uart_poll_loop.simps [of _ d])
  next
    case lt: True
    show ?thesis
    proof (cases r)
      case None
      then show ?thesis
        using lt 1(2) rb bk
        by (simp add: uart_poll_loop.simps [of _ d] uart_stream_def same_controls_def uart_wf_cong)
    next
      case (Some v)
      obtain ok f where f: "rb_push v (ua_fifo d) = (ok, f)" by fastforce
      note push = uart_wf_push [OF 1(2) lt f]
      let ?d = "d\<lparr>ua_backend := b, ua_fifo := f, ua_receive_idle_cycles := 0\<rparr>"
      have cap: "uart_capacity ?d = uart_capacity d" by (simp add: uart_capacity_def)
      have wf: "uart_wf ?d" using push(3) by (rule uart_wf_cong) simp_all
      have eq: "uart_poll_loop (uart_capacity d) d = uart_poll_loop (uart_capacity ?d) ?d"
        using lt rb Some f push(1) by (simp add: uart_poll_loop.simps [of _ d] cap)
      have "uart_wf (uart_poll_loop (uart_capacity ?d) ?d)
        \<and> uart_stream (uart_poll_loop (uart_capacity ?d) ?d) = uart_stream ?d
        \<and> same_controls ?d (uart_poll_loop (uart_capacity ?d) ?d)"
        by (rule "1.hyps" [OF lt rb [symmetric] Some refl f [symmetric] _ cap [symmetric] wf]) (simp add: push(1))
      then show ?thesis
        using push(2) bk Some unfolding eq by (auto simp: uart_stream_def same_controls_def)
    qed
  qed
qed

lemma uart_poll_input_keeps:
  "uart_wf d \<Longrightarrow> uart_wf (uart_poll_input d) \<and> uart_stream (uart_poll_input d) = uart_stream d
     \<and> same_controls d (uart_poll_input d)"
  by (simp add: uart_poll_input_def uart_poll_loop_keeps)

lemma uart_tick_keeps:
  assumes "uart_wf d"
  shows "uart_wf (uart_tick d) \<and> uart_stream (uart_tick d) = uart_stream d \<and> same_controls d (uart_tick d)"
proof -
  define d3 where "d3 = (let d1 = (if ua_input_poll_remaining d \<noteq> 0
                then d\<lparr>ua_input_poll_remaining := ua_input_poll_remaining d - 1\<rparr> else d);
          d2 = (if ua_tx_pending d1 then d1\<lparr>ua_tx_pending := False, ua_thre_pending := True\<rparr> else d1)
      in (if \<not> rb_empty (ua_fifo d2) \<and> ua_receive_idle_cycles d2 < 4 * ua_character_cycles d2
                then d2\<lparr>ua_receive_idle_cycles := ua_receive_idle_cycles d2 + 1\<rparr> else d2))"
  have "uart_wf d3" "uart_stream d3 = uart_stream d" "same_controls d d3"
    using assms by (auto simp: d3_def Let_def uart_wf_def uart_capacity_def uart_stream_def same_controls_def)
  moreover have "uart_tick d = uart_settle (uart_poll_input d3)"
    by (simp add: uart_tick_def d3_def Let_def)
  ultimately show ?thesis
    using uart_poll_input_keeps [of d3] by (auto simp: uart_stream_def same_controls_def)
qed

subsection \<open>Register accesses\<close>

lemma uart_read_register_keeps:
  assumes "uart_wf d" and "uart_read_register i d = (v, d')"
  shows "uart_wf d' \<and> same_controls d d' \<and> ua_backend d' = ua_backend d \<and>
    (if i = 0 \<and> ua_line_control d AND LCR_DLAB = 0 \<and> rb_list (ua_fifo d) \<noteq> []
     then rb_list (ua_fifo d) = v # rb_list (ua_fifo d') else ua_fifo d' = ua_fifo d)"
proof (cases "i = 0 \<and> ua_line_control d AND LCR_DLAB = 0 \<and> \<not> rb_empty (ua_fifo d)")
  case True
  then show ?thesis
    using assms uart_wf_pop(1) [OF assms(1)] uart_wf_pop(2) [OF assms(1), where n = 0]
    by (auto simp: uart_read_register_def same_controls_def rb_empty_def)
next
  case False
  then have "ua_fifo d' = ua_fifo d \<and> ua_fifo_control d' = ua_fifo_control d \<and>
      ua_character_cycles d' = ua_character_cycles d \<and> same_controls d d' \<and> ua_backend d' = ua_backend d"
    using assms(2)
    by (auto simp: uart_read_register_def Let_def same_controls_def split: if_splits)
  then show ?thesis
    using False assms(1) uart_wf_cong [of d d'] by (auto simp: rb_empty_def)
qed

text \<open>Lanes that do not reach register 0 leave the FIFO alone.\<close>

lemma uart_read_lanes_keeps:
  assumes "uart_wf d" and "uart_read_lanes offset lanes data enable d = (data', d')"
    and "\<forall>l\<in>set lanes. l < length data"
  shows "uart_wf d' \<and> same_controls d d' \<and> ua_backend d' = ua_backend d \<and> length data' = length data \<and>
    ((\<forall>l\<in>set lanes. offset + of_nat l \<noteq> 0) \<longrightarrow> ua_fifo d' = ua_fifo d) \<and>
    (\<forall>l<length data. l \<notin> set lanes \<or> enable ! l = 0 \<longrightarrow> data' ! l = data ! l)"
  using assms
proof (induction lanes arbitrary: data d)
  case Nil
  then show ?case by simp
next
  case (Cons lane lanes)
  show ?case
  proof (cases "enable ! lane = 0")
    case True
    then show ?thesis using Cons by auto
  next
    case False
    obtain v d1 where r: "uart_read_register (offset + of_nat lane) d = (v, d1)" by fastforce
    note k = uart_read_register_keeps [OF Cons.prems(1) r]
    have rest: "uart_read_lanes offset lanes (data[lane := v]) enable d1 = (data', d')"
      using Cons.prems(2) False r by simp
    have l: "\<forall>l\<in>set lanes. l < length (data[lane := v])" using Cons.prems(3) by simp
    note ih = Cons.IH [OF conjunct1 [OF k] rest l]
    show ?thesis
      using k ih False Cons.prems(3) by (auto simp: nth_list_update intro: same_controls_trans split: if_splits)
  qed
qed

lemma uart_read_lanes_fifo:
  assumes "uart_wf d" and "uart_read_lanes offset lanes data enable d = (data', d')"
    and "\<forall>l\<in>set lanes. l < length data \<and> offset + of_nat l \<noteq> 0"
  shows "ua_fifo d' = ua_fifo d" and "l < length data \<Longrightarrow> l \<notin> set lanes \<Longrightarrow> data' ! l = data ! l"
  using uart_read_lanes_keeps [OF assms(1,2)] assms(3) by blast+

lemma lane_register_nonzero:
  assumes "unat (offset :: u64) + n \<le> 8" and "l < n" and "offset \<noteq> 0 \<or> l \<noteq> 0"
  shows "offset + of_nat l \<noteq> 0"
proof -
  have "unat (offset + of_nat l) = unat offset + l"
    using assms by (subst unat_plus_exact) (simp_all add: unat_of_nat_exact)
  then show ?thesis using assms(3) by (metis add_is_0 unat_eq_zero)
qed

text \<open>The byte an access takes out of the receive FIFO, if any.\<close>

definition uart_received :: "u64 \<Rightarrow> u8 list \<Rightarrow> uart \<Rightarrow> u8 list \<Rightarrow> u8 list" where
  "uart_received offset enable d out =
     (if offset = 0 \<and> 0 < length enable \<and> length enable \<le> 8 \<and> enable ! 0 \<noteq> 0 \<and>
         ua_line_control d AND LCR_DLAB = 0 \<and> \<not> rb_empty (ua_fifo (uart_poll_input d))
      then [out ! 0] else [])"

lemma uart_read_impl_keeps:
  assumes "uart_wf d" and "length enable = length data" and "uart_read_impl offset data enable d = (r, out, d')"
  shows "uart_wf d' \<and> same_controls d d' \<and> uart_received offset enable d out @ uart_stream d' = uart_stream d \<and>
    length out = length data \<and> (\<forall>l<length data. enable ! l = 0 \<longrightarrow> out ! l = data ! l)"
proof (cases "unat offset + length data \<le> 8")
  case False
  then show ?thesis using assms by (auto simp: uart_read_impl_def uart_received_def)
next
  case True
  let ?p = "uart_poll_input d"
  note p = uart_poll_input_keeps [OF assms(1)]
  obtain d1 where lanes: "uart_read_lanes offset [0..<length data] data enable ?p = (out, d1)"
    and d': "d' = uart_settle d1"
    using assms(3) True by (auto simp: uart_read_impl_def split: prod.splits)
  have all: "uart_wf d1 \<and> same_controls ?p d1 \<and> ua_backend d1 = ua_backend ?p \<and> length out = length data \<and>
      ((\<forall>l\<in>set [0..<length data]. offset + of_nat l \<noteq> 0) \<longrightarrow> ua_fifo d1 = ua_fifo ?p) \<and>
      (\<forall>l<length data. l \<notin> set [0..<length data] \<or> enable ! l = 0 \<longrightarrow> out ! l = data ! l)"
    using uart_read_lanes_keeps [OF _ lanes] p by simp
  have lc: "ua_line_control ?p = ua_line_control d" using p by (simp add: same_controls_def)
  have "uart_received offset enable d out @ rb_list (ua_fifo d1) = rb_list (ua_fifo ?p)"
  proof (cases "offset = 0 \<and> length data \<noteq> 0 \<and> enable ! 0 \<noteq> 0")
    case False
    have "ua_fifo d1 = ua_fifo ?p"
    proof (cases "offset = 0 \<and> length data \<noteq> 0")
      case True
      then have split: "[0..<length data] = 0 # [1..<length data]" by (simp add: upt_conv_Cons)
      have "uart_read_lanes offset [1..<length data] data enable ?p = (out, d1)"
        using lanes False True by (simp add: split)
      moreover have "\<forall>l\<in>set [1..<length data]. l < length data \<and> offset + of_nat l \<noteq> 0"
        using lane_register_nonzero [OF \<open>unat offset + length data \<le> 8\<close>] by auto
      ultimately show ?thesis by (rule uart_read_lanes_fifo [OF conjunct1 [OF p]])
    next
      case False
      then show ?thesis
        using all lane_register_nonzero [OF True] by auto
    qed
    then show ?thesis using False assms(2) by (auto simp: uart_received_def)
  next
    case acc: True
    then have split: "[0..<length data] = 0 # [1..<length data]" by (simp add: upt_conv_Cons)
    obtain v d0 where r0: "uart_read_register 0 ?p = (v, d0)" by fastforce
    have rest: "uart_read_lanes offset [1..<length data] (data[0 := v]) enable d0 = (out, d1)"
      using lanes acc r0 by (simp add: split)
    note k0 = uart_read_register_keeps [OF conjunct1 [OF p] r0]
    have nz: "\<forall>l\<in>set [1..<length data]. l < length (data[0 := v]) \<and> offset + of_nat l \<noteq> 0"
      using lane_register_nonzero [OF True] by auto
    have "ua_fifo d1 = ua_fifo d0 \<and> out ! 0 = v"
      using uart_read_lanes_fifo [OF conjunct1 [OF k0] rest nz] acc by auto
    moreover have "length data \<le> 8" using True by simp
    ultimately show ?thesis
      using conjunct2 [OF conjunct2 [OF conjunct2 [OF k0]]] acc assms(2)
      by (cases "ua_line_control ?p AND LCR_DLAB = 0 \<and> rb_list (ua_fifo ?p) \<noteq> []")
        (simp_all add: uart_received_def rb_empty_def lc)
  qed
  then have "uart_received offset enable d out @ uart_stream d' = uart_stream ?p"
    using all d' by (simp add: uart_stream_def flip: append_assoc)
  moreover have "same_controls d d'"
    using all p d' by (simp add: same_controls_def)
  ultimately show ?thesis
    using all p d' by simp
qed

lemma uart_write_register_wf:
  assumes "uart_wf d"
  shows "uart_wf (uart_write_register i v d)"
proof -
  have "uart_wf (uart_transmit v d)"
  proof (cases "ua_modem_control d AND 16 \<noteq> 0 \<and> rb_size (ua_fifo d) < uart_capacity d")
    case True
    obtain ok f where f: "rb_push v (ua_fifo d) = (ok, f)" by fastforce
    have "uart_wf (d\<lparr>ua_fifo := f\<rparr>)" using uart_wf_push [OF assms _ f] True by simp
    then show ?thesis
      using True f by (auto simp: uart_transmit_def Let_def uart_wf_def uart_capacity_def)
  next
    case False
    then show ?thesis
      using assms by (auto simp: uart_transmit_def Let_def uart_wf_def uart_capacity_def)
  qed
  moreover have "uart_wf (uart_write_register 2 v d)"
  proof (cases "v AND 0x02 \<noteq> 0 \<or> (v XOR ua_fifo_control d) AND 1 \<noteq> 0")
    case True
    then show ?thesis
      using uart_wf_clear [OF assms]
      by (auto simp: uart_write_register_def Let_def uart_wf_def uart_capacity_def rb_clear_def)
  next
    case False
    have "(v AND 0xc9) AND 1 = v AND 1"
      by (simp add: and.assoc)
    moreover have "v AND 1 = ua_fifo_control d AND 1"
    proof -
      have "(v XOR ua_fifo_control d) AND 1 = 0" using False by blast
      then have "\<not> bit ((v XOR ua_fifo_control d) AND 1) 0" by simp
      then have "bit v 0 = bit (ua_fifo_control d) 0"
        by (simp only: bit_and_iff bit_xor_iff bit_1_iff possible_bit_word) simp
      then show ?thesis by (simp add: and_one_eq bit_0 mod_2_eq_odd)
    qed
    ultimately show ?thesis
      using False assms by (auto simp: uart_write_register_def Let_def uart_wf_def uart_capacity_def)
  qed
  ultimately show ?thesis
    using assms
    by (auto simp: uart_write_register_def Let_def uart_set_modem_control_def uart_wf_def uart_capacity_def
        split: if_splits)
qed

lemma uart_write_impl_wf:
  assumes "uart_wf d" and "uart_write_impl offset data strobe d = (r, d')"
  shows "uart_wf d'"
proof -
  have "uart_wf (fold (\<lambda>lane d. if strobe ! lane \<noteq> 0
      then uart_write_register (offset + of_nat lane) (data ! lane) d else d) lanes d)" for lanes
    using assms(1) by (induction lanes arbitrary: d) (auto simp: uart_write_register_wf)
  then show ?thesis using assms by (auto simp: uart_write_impl_def split: if_splits)
qed

interpretation uart_dev: bus_device uart_read_impl uart_write_impl uart_wf
proof (unfold_locales, goal_cases)
  case (1 d enable data offset r data' d')
  then show ?case using uart_read_impl_keeps by blast
next
  case (2 d enable data offset r data' d' l)
  then show ?case using uart_read_impl_keeps by blast
next
  case (3 d enable data offset r data' d')
  then show ?case using uart_read_impl_keeps by blast
next
  case (5 d strobe data offset r d')
  then show ?case using uart_write_impl_wf by blast
qed (auto simp: uart_read_impl_def uart_write_impl_def split: if_splits prod.splits)

section \<open>Runs of bus accesses and clock ticks\<close>

datatype uart_op = UTick | URead u64 "u8 list" | UWrite u64 "u8 list" "u8 list"

text \<open>The byte a write access hands to the transmitter, if any.\<close>

definition uart_sent :: "u64 \<Rightarrow> u8 list \<Rightarrow> u8 list \<Rightarrow> uart \<Rightarrow> u8 list" where
  "uart_sent offset data strobe d =
     (if offset = 0 \<and> 0 < length data \<and> length data \<le> 8 \<and> strobe ! 0 \<noteq> 0 \<and>
         ua_line_control d AND LCR_DLAB = 0 then [data ! 0] else [])"

fun uart_step :: "uart_op \<Rightarrow> uart \<Rightarrow> (u8 list \<times> u8 list) \<times> uart" where
  "uart_step UTick d = (([], []), uart_tick d)"
| "uart_step (URead offset enable) d =
     (let (r, out, d') = uart_read_impl offset (replicate (length enable) 0) enable d
      in ((uart_received offset enable d out, []), d'))"
| "uart_step (UWrite offset data strobe) d =
     (let (r, d') = uart_write_impl offset data strobe d in (([], uart_sent offset data strobe d), d'))"

fun uart_run :: "uart_op list \<Rightarrow> uart \<Rightarrow> (u8 list \<times> u8 list) \<times> uart" where
  "uart_run [] d = (([], []), d)"
| "uart_run (p # ps) d =
     (let ((rx, tx), d') = uart_step p d; ((rxs, txs), d'') = uart_run ps d'
      in ((rx @ rxs, tx @ txs), d''))"

text \<open>Accesses that neither reprogram the FIFO nor change the modem control register.\<close>

fun plain_op :: "uart_op \<Rightarrow> bool" where
  "plain_op (UWrite offset data strobe) \<longleftrightarrow>
     list_all (\<lambda>l. strobe ! l \<noteq> 0 \<longrightarrow> offset + of_nat l \<noteq> 2 \<and> offset + of_nat l \<noteq> 4) [0..<length data]"
| "plain_op _ \<longleftrightarrow> True"

lemma uart_write_register_other:
  assumes "i \<noteq> 0" and "i \<noteq> 2" and "i \<noteq> 4"
  shows "ua_fifo (uart_write_register i v d) = ua_fifo d \<and>
    ua_backend (uart_write_register i v d) = ua_backend d \<and>
    ua_modem_control (uart_write_register i v d) = ua_modem_control d"
  using assms by (simp add: uart_write_register_def Let_def)

lemma uart_write_register_thr:
  assumes "ua_modem_control d AND 16 = 0"
  shows "ua_fifo (uart_write_register 0 v d) = ua_fifo d \<and>
    ua_backend (uart_write_register 0 v d) =
      (if ua_line_control d AND LCR_DLAB = 0 then backend_write v (ua_backend d) else ua_backend d) \<and>
    ua_modem_control (uart_write_register 0 v d) = ua_modem_control d"
  using assms by (simp add: uart_write_register_def uart_transmit_def Let_def)

lemma uart_write_lanes_other:
  fixes d :: uart and data :: "u8 list"
  assumes "\<forall>l\<in>set lanes. strobe ! l \<noteq> 0 \<longrightarrow> offset + of_nat l \<notin> {0, 2, 4}"
  defines "d' \<equiv> fold (\<lambda>lane d. if strobe ! lane \<noteq> 0
      then uart_write_register (offset + of_nat lane) (data ! lane) d else d) lanes d"
  shows "ua_fifo d' = ua_fifo d \<and> ua_backend d' = ua_backend d \<and> ua_modem_control d' = ua_modem_control d"
  using assms(1) unfolding d'_def
  by (induction lanes arbitrary: d) (auto simp: uart_write_register_other)

lemma uart_write_impl_plain:
  assumes "plain_op (UWrite offset data strobe)" and "ua_modem_control d AND 16 = 0"
    and "uart_write_impl offset data strobe d = (r, d')"
  shows "ua_fifo d' = ua_fifo d \<and> ua_modem_control d' = ua_modem_control d \<and>
    ua_backend d' = fold backend_write (uart_sent offset data strobe d) (ua_backend d)"
proof (cases "unat offset + length data \<le> 8")
  case False
  then show ?thesis using assms by (auto simp: uart_write_impl_def uart_sent_def)
next
  case True
  let ?f = "\<lambda>lane d. if strobe ! lane \<noteq> 0
      then uart_write_register (offset + of_nat lane) (data ! lane) d else d"
  have plain: "\<forall>l<length data. strobe ! l \<noteq> 0 \<longrightarrow> offset + of_nat l \<notin> {2, 4}"
    using assms(1) by (simp add: list_all_iff)
  have d': "d' = uart_settle (fold ?f [0..<length data] d)"
    using assms(3) True by (auto simp: uart_write_impl_def)
  show ?thesis
  proof (cases "offset = 0 \<and> length data \<noteq> 0")
    case False
    then have "\<forall>l\<in>set [0..<length data]. strobe ! l \<noteq> 0 \<longrightarrow> offset + of_nat l \<notin> {0, 2, 4}"
      using plain lane_register_nonzero [OF True] by auto
    then show ?thesis
      using uart_write_lanes_other [of "[0..<length data]" strobe offset data d] False
      by (auto simp: d' uart_sent_def)
  next
    case first: True
    then have split: "[0..<length data] = 0 # [1..<length data]" by (simp add: upt_conv_Cons)
    let ?d = "?f 0 d"
    have rest: "\<forall>l\<in>set [1..<length data]. strobe ! l \<noteq> 0 \<longrightarrow> offset + of_nat l \<notin> {0, 2, 4}"
      using plain lane_register_nonzero [OF True] by auto
    have "d' = uart_settle (fold ?f [1..<length data] ?d)"
      unfolding d' split by simp
    then show ?thesis
      using uart_write_lanes_other [OF rest, of data ?d] uart_write_register_thr [OF assms(2), of "data ! 0"] first True
      by (auto simp: uart_sent_def)
  qed
qed

lemma uart_step_plain:
  assumes "uart_wf d" and "ua_modem_control d AND 16 = 0" and "plain_op p" and "uart_step p d = ((rx, tx), d')"
  shows "uart_wf d' \<and> ua_modem_control d' AND 16 = 0 \<and> rx @ uart_stream d' = uart_stream d \<and>
    accepts_output (ua_backend d') = accepts_output (ua_backend d) \<and>
    (accepts_output (ua_backend d) \<longrightarrow> backend_output (ua_backend d') = backend_output (ua_backend d) @ tx)"
proof (cases p)
  case UTick
  then show ?thesis using assms uart_tick_keeps [OF assms(1)] by (auto simp: same_controls_def)
next
  case (URead offset enable)
  obtain r out where "uart_read_impl offset (replicate (length enable) 0) enable d = (r, out, d')"
    and "rx = uart_received offset enable d out" "tx = []"
    using assms(4) URead by (auto split: prod.splits)
  then show ?thesis
    using uart_read_impl_keeps [OF assms(1), of enable "replicate (length enable) 0" offset r out d'] assms(2)
    by (auto simp: same_controls_def)
next
  case (UWrite offset data strobe)
  obtain r where w: "uart_write_impl offset data strobe d = (r, d')"
    and rx: "rx = []" "tx = uart_sent offset data strobe d"
    using assms(4) UWrite by (auto split: prod.splits)
  have plain: "plain_op (UWrite offset data strobe)" using assms(3) UWrite by simp
  note k = uart_write_impl_plain [OF plain assms(2) w]
  show ?thesis
    using k uart_write_impl_wf [OF assms(1) w] assms(2) rx backend_write_effect [of _ "ua_backend d"]
    by (auto simp: uart_stream_def uart_sent_def)
qed

lemma uart_run_plain:
  assumes "uart_wf d" and "ua_modem_control d AND 16 = 0" and "list_all plain_op ps"
    and "uart_run ps d = ((rx, tx), d')"
  shows "uart_wf d' \<and> rx @ uart_stream d' = uart_stream d \<and>
    (accepts_output (ua_backend d) \<longrightarrow> backend_output (ua_backend d') = backend_output (ua_backend d) @ tx)"
  using assms
proof (induction ps arbitrary: d rx tx)
  case Nil
  then show ?case by simp
next
  case (Cons p ps)
  obtain rx1 tx1 d1 where s: "uart_step p d = ((rx1, tx1), d1)" by (metis surj_pair)
  obtain rx2 tx2 where r: "uart_run ps d1 = ((rx2, tx2), d')" and rx: "rx = rx1 @ rx2" and tx: "tx = tx1 @ tx2"
    using Cons.prems(4) s by (auto split: prod.splits)
  have p: "plain_op p" and ps: "list_all plain_op ps" using Cons.prems(3) by simp_all
  note k = uart_step_plain [OF Cons.prems(1,2) p s]
  have ih: "uart_wf d' \<and> rx2 @ uart_stream d' = uart_stream d1 \<and>
    (accepts_output (ua_backend d1) \<longrightarrow> backend_output (ua_backend d') = backend_output (ua_backend d1) @ tx2)"
    using Cons.IH [OF _ _ ps r] k by blast
  show ?case using k ih rx tx by auto
qed

subsection \<open>Loopback\<close>

lemma uart_loopback_step:
  fixes d :: uart and v :: u8
  assumes "uart_wf d" and "ua_modem_control d AND 16 \<noteq> 0" and "ua_line_control d AND LCR_DLAB = 0"
  defines "d1 \<equiv> snd (uart_write_impl 0 [v] [1] d)"
  shows "uart_wf d1 \<and> ua_modem_control d1 = ua_modem_control d \<and> ua_line_control d1 = ua_line_control d \<and>
    uart_capacity d1 = uart_capacity d \<and> ua_backend d1 = ua_backend d \<and>
    (ua_overrun d1 \<longleftrightarrow> ua_overrun d \<or> rb_size (ua_fifo d) = uart_capacity d) \<and>
    rb_list (ua_fifo d1) =
      (if rb_size (ua_fifo d) < uart_capacity d then rb_list (ua_fifo d) @ [v] else rb_list (ua_fifo d))"
proof -
  have wf: "uart_wf d1"
    unfolding d1_def using uart_write_impl_wf [OF assms(1)] by (metis surjective_pairing)
  have d1: "d1 = uart_settle (uart_transmit v d)"
    unfolding d1_def using assms(3) by (simp add: uart_write_impl_def uart_write_register_def)
  have le: "rb_size (ua_fifo d) \<le> uart_capacity d" using assms(1) by (simp add: uart_wf_def)
  obtain ok f where f: "rb_push v (ua_fifo d) = (ok, f)" by fastforce
  show ?thesis
    using wf assms(2) le uart_wf_push(2) [OF assms(1) _ f] f
    by (auto simp: d1 uart_transmit_def Let_def uart_capacity_def uart_settle_def)
qed

lemma uart_loopback_fold:
  assumes "uart_wf d" and "ua_modem_control d AND 16 \<noteq> 0" and "ua_line_control d AND LCR_DLAB = 0"
  shows "rb_list (ua_fifo (fold (\<lambda>v d. snd (uart_write_impl 0 [v] [1] d)) vs d)) =
      take (uart_capacity d) (rb_list (ua_fifo d) @ vs) \<and>
    (ua_overrun (fold (\<lambda>v d. snd (uart_write_impl 0 [v] [1] d)) vs d) \<longleftrightarrow>
      ua_overrun d \<or> uart_capacity d < rb_size (ua_fifo d) + length vs) \<and>
    ua_backend (fold (\<lambda>v d. snd (uart_write_impl 0 [v] [1] d)) vs d) = ua_backend d"
  using assms
proof (induction vs arbitrary: d)
  case Nil
  then show ?case by (simp add: uart_wf_def)
next
  case (Cons v vs)
  let ?d = "snd (uart_write_impl 0 [v] [1] d)"
  note s = uart_loopback_step [OF Cons.prems, of v]
  have le: "rb_size (ua_fifo d) \<le> uart_capacity d" using Cons.prems(1) by (simp add: uart_wf_def)
  have size: "rb_size (ua_fifo ?d) = (if rb_size (ua_fifo d) < uart_capacity d then Suc (rb_size (ua_fifo d))
      else rb_size (ua_fifo d))"
    using s rb_list_length [of "ua_fifo ?d"] rb_list_length [of "ua_fifo d"]
    by (metis length_append_singleton)
  have m: "ua_modem_control ?d AND 16 \<noteq> 0" and lc: "ua_line_control ?d AND LCR_DLAB = 0"
    using s Cons.prems by simp_all
  note ih = Cons.IH [OF conjunct1 [OF s] m lc]
  show ?case
  proof (cases "rb_size (ua_fifo d) < uart_capacity d")
    case True
    then show ?thesis using ih s size by auto
  next
    case False
    then show ?thesis using ih s size le by auto
  qed
qed

section \<open>Properties\<close>



text \<open>In loopback mode (MCR bit 4) a sequence of bytes written to THR ends up in the receive FIFO in
  order as far as its capacity (16 with FIFOs enabled, else 1) allows; each byte beyond it is dropped and
  raises the overrun flag, and nothing reaches the host.\<close>

theorem uart_loopback_queues_bytes:
  fixes d :: uart and vs :: "u8 list"
  assumes "uart_wf d" and "ua_modem_control d AND 16 \<noteq> 0" and "ua_line_control d AND LCR_DLAB = 0"
  defines "d' \<equiv> fold (\<lambda>v d. snd (uart_write_impl 0 [v] [1] d)) vs d"
  shows "rb_list (ua_fifo d') = take (uart_capacity d) (rb_list (ua_fifo d) @ vs) \<and>
    (ua_overrun d' \<longleftrightarrow> ua_overrun d \<or> uart_capacity d < rb_size (ua_fifo d) + length vs) \<and>
    ua_backend d' = ua_backend d"
  unfolding d'_def by (rule uart_loopback_fold [OF assms(1-3)])

definition example_loopback :: uart where
  "example_loopback = snd (uart_write_impl 4 [0x10] [1] (uart_new (BufferBackend (buffer_backend_new []))))"

theorem uart_loopback_queues_bytes_witness:
  "rb_list (ua_fifo (fold (\<lambda>v d. snd (uart_write_impl 0 [v] [1] d)) [1, 2] example_loopback)) = [1]"
proof -
  have wf: "uart_wf example_loopback"
    unfolding example_loopback_def using uart_write_impl_wf [OF uart_new_wf] by (metis surjective_pairing)
  have m: "ua_modem_control example_loopback AND 16 \<noteq> 0"
    and l: "ua_line_control example_loopback AND LCR_DLAB = 0"
    and e: "take (uart_capacity example_loopback) (rb_list (ua_fifo example_loopback) @ [1, 2]) = [1]"
    by (code_simp, code_simp, code_simp)
  show ?thesis using uart_loopback_queues_bytes [OF wf m l, of "[1, 2]"] e by simp
qed

end
