(* ===== verification/Interrupt_Devices.thy ===== *)
theory Interrupt_Devices
  imports Device_Interface
begin

text \<open>
  The interrupt devices of the Fuxi platform (\<^verbatim>\<open>examples/fuxi/sim/interrupt_devices.cpp\<close>): the CLINT with
  its divided \<^verbatim>\<open>mtime\<close> counter and 64-bit registers written in halves, and the PLIC with level-sensitive
  gateways, priorities, thresholds and the claim/complete protocol. A PLIC input reads the output signal
  it is connected to through the argument \<open>sigma\<close>.
\<close>

section \<open>Register accesses within a bus beat\<close>

record lane_access =
  acc_address :: u64
  acc_lane :: nat
  acc_size :: nat

text \<open>The loop \<^verbatim>\<open>while (lanes[end - 1] == 0) --end\<close>.\<close>

fun trim_end :: "u8 list \<Rightarrow> nat \<Rightarrow> nat" where
  "trim_end lanes 0 = 0"
| "trim_end lanes (Suc n) = (if lanes ! n = 0 then trim_end lanes n else Suc n)"

definition access :: "u64 \<Rightarrow> u8 list \<Rightarrow> lane_access option" where
  "access offset lanes =
     (let start = length (takeWhile (\<lambda>v. v = 0) lanes)
      in if start = length lanes then Some \<lparr>acc_address = offset, acc_lane = 0, acc_size = 0\<rparr>
         else
           (let end_lane = trim_end lanes (length lanes);
                sz = end_lane - start
            in if (sz \<noteq> 4 \<and> sz \<noteq> 8) \<or> offset > 0xFFFFFFFFFFFFFFFF - of_nat start \<or>
                  (offset + of_nat start) mod of_nat sz \<noteq> 0 then None
               else if \<not> list_all (\<lambda>i. lanes ! i \<noteq> 0) [start..<end_lane] then None
               else Some \<lparr>acc_address = offset + of_nat start, acc_lane = start, acc_size = sz\<rparr>))"

definition acc_get :: "u8 list \<Rightarrow> lane_access \<Rightarrow> u64" where
  "acc_get data a =
     fold (\<lambda>i value. value OR push_bit (i * 8) (ucast (data ! (acc_lane a + i)))) [0..<acc_size a] 0"

definition acc_put :: "u8 list \<Rightarrow> lane_access \<Rightarrow> u64 \<Rightarrow> u8 list" where
  "acc_put data a value =
     fold (\<lambda>i data. data[acc_lane a + i := ucast (drop_bit (i * 8) value AND 0xff)]) [0..<acc_size a] data"

text \<open>The port names \<^verbatim>\<open>source<n>\<close> and \<^verbatim>\<open>context<n>\<close>.\<close>

definition port_index :: "string \<Rightarrow> string \<Rightarrow> nat \<Rightarrow> nat option" where
  "port_index name prefix limit =
     (if take (length prefix) name \<noteq> prefix then None
      else case from_chars 10 32 (drop (length prefix) name) of
             None \<Rightarrow> None
           | Some value \<Rightarrow> if value \<ge> limit then None else Some value)"

definition timer_register :: "u64 \<Rightarrow> nat \<Rightarrow> bool" where
  "timer_register address sz \<longleftrightarrow>
     address = 0x4000 \<or> address = 0xbff8 \<or> (sz = 4 \<and> (address = 0x4004 \<or> address = 0xbffc))"

section \<open>CLINT\<close>

record clint =
  cl_divider :: u64
  cl_phase :: u64
  cl_compare :: u64
  cl_time :: signal
  cl_timer :: signal
  cl_software :: signal

definition clint_reset :: "clint \<Rightarrow> clint" where
  "clint_reset d = d\<lparr>cl_phase := 0, cl_compare := 0xFFFFFFFFFFFFFFFF,
     cl_time := (cl_time d)\<lparr>sig_value := 0\<rparr>, cl_timer := (cl_timer d)\<lparr>sig_value := 0\<rparr>,
     cl_software := (cl_software d)\<lparr>sig_value := 0\<rparr>\<rparr>"

definition clint_new :: "u64 \<Rightarrow> clint result" where
  "clint_new divider =
     (if divider = 0 then Inl (InvalidArgument ''CLINT divider must be positive'')
      else Inr (clint_reset \<lparr>cl_divider = divider, cl_phase = 0, cl_compare = 0xFFFFFFFFFFFFFFFF,
        cl_time = \<lparr>sig_width = 64, sig_value = 0\<rparr>, cl_timer = \<lparr>sig_width = 1, sig_value = 0\<rparr>,
        cl_software = \<lparr>sig_width = 1, sig_value = 0\<rparr>\<rparr>))"

definition clint_settle :: "clint \<Rightarrow> clint" where
  "clint_settle d = d\<lparr>cl_timer := (cl_timer d)
     \<lparr>sig_value := (if sig_value (cl_time d) \<ge> cl_compare d then 1 else 0)\<rparr>\<rparr>"

definition clint_tick :: "clint \<Rightarrow> clint" where
  "clint_tick d =
     (let phase = cl_phase d + 1
      in clint_settle
           (if phase = cl_divider d
            then d\<lparr>cl_phase := 0, cl_time := (cl_time d)\<lparr>sig_value := sig_value (cl_time d) + 1\<rparr>\<rparr>
            else d\<lparr>cl_phase := phase\<rparr>))"

definition clint_output :: "string \<Rightarrow> clint \<Rightarrow> signal option" where
  "clint_output name d =
     (if name = ''mtime'' then Some (cl_time d)
      else if name = ''mtip'' then Some (cl_timer d)
      else if name = ''msip'' then Some (cl_software d) else None)"

definition clint_read_impl :: "clint read_hook" where
  "clint_read_impl offset data lanes d =
     (case access offset lanes of
        None \<Rightarrow> (SlaveError, data, d)
      | Some a \<Rightarrow>
          (if acc_size a = 0 then (Okay, data, d)
           else if acc_address a = 0 \<and> acc_size a = 4
           then (Okay, acc_put data a (sig_value (cl_software d)), d)
           else if timer_register (acc_address a) (acc_size a) then
             (let value = (if acc_address a < 0x8000 then cl_compare d else sig_value (cl_time d))
              in (Okay, acc_put data a (drop_bit (if acc_address a AND 4 \<noteq> 0 then 32 else 0) value), d))
           else (SlaveError, data, d)))"

definition clint_write_impl :: "clint write_hook" where
  "clint_write_impl offset data lanes d =
     (case access offset lanes of
        None \<Rightarrow> (SlaveError, d)
      | Some a \<Rightarrow>
          (if acc_size a = 0 then (Okay, d)
           else
             (let value = acc_get data a
              in if acc_address a = 0 \<and> acc_size a = 4
                 then (Okay, clint_settle (d\<lparr>cl_software := (cl_software d)\<lparr>sig_value := value AND 1\<rparr>\<rparr>))
                 else if timer_register (acc_address a) (acc_size a) then
                   (let target = (if acc_address a < 0x8000 then cl_compare d else sig_value (cl_time d));
                        shift = (if acc_address a AND 4 \<noteq> 0 then 32 else 0);
                        updated = (if acc_size a = 8 then value
                                   else (target AND NOT (push_bit shift 0xffffffff)) OR push_bit shift value)
                    in (Okay, clint_settle
                          (if acc_address a < 0x8000 then d\<lparr>cl_compare := updated\<rparr>
                           else d\<lparr>cl_time := (cl_time d)\<lparr>sig_value := updated\<rparr>\<rparr>)))
                 else (SlaveError, d))))"

section \<open>PLIC\<close>

record plic =
  pl_sources :: nat
  pl_contexts :: nat
  pl_inputs :: "input_signal list"
  pl_irqs :: "signal list"
  pl_priority :: "u32 list"
  pl_threshold :: "u32 list"
  pl_enables :: "u32 list list"
  pl_pending :: "bool list"
  pl_busy :: "bool list"

definition plic_reset :: "plic \<Rightarrow> plic" where
  "plic_reset d = d\<lparr>
     pl_priority := replicate (length (pl_priority d)) 0,
     pl_threshold := replicate (length (pl_threshold d)) 0,
     pl_pending := replicate (length (pl_pending d)) False,
     pl_busy := replicate (length (pl_busy d)) False,
     pl_enables := map (\<lambda>e. replicate 32 0) (pl_enables d),
     pl_irqs := map (\<lambda>s. s\<lparr>sig_value := 0\<rparr>) (pl_irqs d)\<rparr>"

definition plic_new :: "nat \<Rightarrow> nat \<Rightarrow> plic result" where
  "plic_new sources contexts =
     (if sources = 0 \<or> sources > 1023 \<or> contexts = 0 \<or> contexts > 64
      then Inl (InvalidArgument ''PLIC requires 1..1023 sources and 1..64 contexts'')
      else Inr (plic_reset \<lparr>
        pl_sources = sources, pl_contexts = contexts,
        pl_inputs = replicate (sources + 1) \<lparr>in_width = 1, in_source = None\<rparr>,
        pl_irqs = replicate contexts \<lparr>sig_width = 1, sig_value = 0\<rparr>,
        pl_priority = replicate (sources + 1) 0, pl_threshold = replicate contexts 0,
        pl_enables = replicate contexts (replicate 32 0),
        pl_pending = replicate (sources + 1) False, pl_busy = replicate (sources + 1) False\<rparr>))"

definition plic_input :: "string \<Rightarrow> plic \<Rightarrow> nat option" where
  "plic_input name d =
     (case port_index name ''source'' (pl_sources d + 1) of
        None \<Rightarrow> None | Some i \<Rightarrow> if i \<noteq> 0 then Some i else None)"

definition plic_output :: "string \<Rightarrow> plic \<Rightarrow> signal option" where
  "plic_output name d =
     (case port_index name ''context'' (pl_contexts d) of
        None \<Rightarrow> None | Some i \<Rightarrow> Some (pl_irqs d ! i))"

definition plic_enabled :: "plic \<Rightarrow> nat \<Rightarrow> nat \<Rightarrow> bool" where
  "plic_enabled d ctx source \<longleftrightarrow>
     (pl_enables d ! ctx) ! (source div 32) AND push_bit (source mod 32) 1 \<noteq> 0"

definition plic_best :: "plic \<Rightarrow> nat \<Rightarrow> nat" where
  "plic_best d ctx =
     fold (\<lambda>i selected. if pl_pending d ! i \<and> plic_enabled d ctx i \<and>
                           pl_priority d ! i > pl_priority d ! selected then i else selected)
       [1..<Suc (pl_sources d)] 0"

definition plic_notify :: "plic \<Rightarrow> plic" where
  "plic_notify d = d\<lparr>pl_irqs :=
     map (\<lambda>c. (pl_irqs d ! c)\<lparr>sig_value :=
            (if pl_priority d ! plic_best d c > pl_threshold d ! c then 1 else 0)\<rparr>)
       [0..<pl_contexts d]\<rparr>"

definition plic_settle :: "(signal_ref \<Rightarrow> u64) \<Rightarrow> plic \<Rightarrow> plic" where
  "plic_settle sigma d =
     plic_notify
       (fold (\<lambda>i d. if input_value sigma (pl_inputs d ! i) \<noteq> 0 \<and> \<not> pl_busy d ! i
                    then d\<lparr>pl_pending := (pl_pending d)[i := True], pl_busy := (pl_busy d)[i := True]\<rparr>
                    else d)
          [1..<Suc (pl_sources d)] d)"

definition plic_read_register :: "u64 \<Rightarrow> plic \<Rightarrow> u32 \<times> plic" where
  "plic_read_register offset d =
     (let off = unat offset
      in if off < 0x1000 then
           ((if off div 4 \<le> pl_sources d then pl_priority d ! (off div 4) else 0), d)
         else if off < 0x1080 then
           (let base = (off - 0x1000) div 4 * 32
            in (fold (\<lambda>b value. if pl_pending d ! (base + b) then value OR push_bit b 1 else value)
                  (filter (\<lambda>b. base + b \<le> pl_sources d) [0..<32]) 0, d))
         else if off \<ge> 0x2000 \<and> off < 0x2000 + pl_contexts d * 0x80 then
           ((pl_enables d ! ((off - 0x2000) div 0x80)) ! ((off mod 0x80) div 4), d)
         else if off \<ge> 0x200000 \<and> off < 0x200000 + pl_contexts d * 0x1000 then
           (let c = (off - 0x200000) div 0x1000
            in if off mod 0x1000 = 0 then (pl_threshold d ! c, d)
               else if off mod 0x1000 = 4 then
                 (let claim = plic_best d c;
                      d1 = (if claim \<noteq> 0 then d\<lparr>pl_pending := (pl_pending d)[claim := False]\<rparr> else d)
                  in (of_nat claim, plic_notify d1))
               else (0, d))
         else (0, d))"

definition plic_write_register :: "(signal_ref \<Rightarrow> u64) \<Rightarrow> u64 \<Rightarrow> u32 \<Rightarrow> plic \<Rightarrow> plic" where
  "plic_write_register sigma offset value d =
     (let off = unat offset
      in plic_settle sigma
        (if off > 0 \<and> off < 0x1000 \<and> off div 4 \<le> pl_sources d then
           d\<lparr>pl_priority := (pl_priority d)[off div 4 := value AND 7]\<rparr>
         else if off \<ge> 0x2000 \<and> off < 0x2000 + pl_contexts d * 0x80 then
           (let c = (off - 0x2000) div 0x80;
                wd = (off mod 0x80) div 4;
                lanes = fold (\<lambda>b lanes. let i = wd * 32 + b
                                        in if i \<noteq> 0 \<and> i \<le> pl_sources d then lanes OR push_bit b 1 else lanes)
                          [0..<32] 0
            in d\<lparr>pl_enables := (pl_enables d)[c := (pl_enables d ! c)[wd := value AND lanes]]\<rparr>)
         else if off \<ge> 0x200000 \<and> off < 0x200000 + pl_contexts d * 0x1000 then
           (let c = (off - 0x200000) div 0x1000
            in if off mod 0x1000 = 0 then d\<lparr>pl_threshold := (pl_threshold d)[c := value AND 7]\<rparr>
               else if off mod 0x1000 = 4 \<and> value \<noteq> 0 \<and> unat value \<le> pl_sources d \<and>
                       plic_enabled d c (unat value)
               then d\<lparr>pl_busy := (pl_busy d)[unat value := False]\<rparr>
               else d)
         else d))"

definition plic_read_impl :: "plic read_hook" where
  "plic_read_impl offset data lanes d =
     (case access offset lanes of
        None \<Rightarrow> (SlaveError, data, d)
      | Some a \<Rightarrow>
          (if acc_size a = 8 \<or> acc_address a \<ge> 0x4000000 then (SlaveError, data, d)
           else if acc_size a \<noteq> 0
           then (let (value, d') = plic_read_register (acc_address a) d
                 in (Okay, acc_put data a (ucast value), d'))
           else (Okay, data, d)))"

definition plic_write_impl :: "(signal_ref \<Rightarrow> u64) \<Rightarrow> plic write_hook" where
  "plic_write_impl sigma offset data lanes d =
     (case access offset lanes of
        None \<Rightarrow> (SlaveError, d)
      | Some a \<Rightarrow>
          (if acc_size a = 8 \<or> acc_address a \<ge> 0x4000000 then (SlaveError, d)
           else if acc_size a \<noteq> 0
           then (Okay, plic_write_register sigma (acc_address a) (ucast (acc_get data a)) d)
           else (Okay, d)))"

section \<open>Accesses\<close>

lemma trim_end_le: "trim_end lanes n \<le> n"
  by (induction n) (auto intro: le_SucI)

lemma access_facts:
  assumes "access offset lanes = Some a" and "acc_size a \<noteq> 0"
  shows "acc_size a = 4 \<or> acc_size a = 8"
    and "acc_lane a + acc_size a \<le> length lanes"
    and "\<And>l. acc_lane a \<le> l \<Longrightarrow> l < acc_lane a + acc_size a \<Longrightarrow> lanes ! l \<noteq> 0"
proof -
  let ?s = "length (takeWhile (\<lambda>v. v = 0) lanes)"
  let ?e = "trim_end lanes (length lanes)"
  have a: "acc_lane a = ?s" "acc_size a = ?e - ?s" "?e - ?s = 4 \<or> ?e - ?s = 8"
    "\<forall>i\<in>set [?s..<?e]. lanes ! i \<noteq> 0"
    using assms by (auto simp: access_def Let_def list_all_iff split: if_splits)
  show "acc_size a = 4 \<or> acc_size a = 8" using a by simp
  show "acc_lane a + acc_size a \<le> length lanes" using a trim_end_le [of lanes "length lanes"] by linarith
  show "lanes ! l \<noteq> 0" if "acc_lane a \<le> l" "l < acc_lane a + acc_size a" for l
    using a that by (intro bspec [OF a(4)]) auto
qed

lemma acc_put_prefix:
  assumes "acc_lane a + n \<le> length data"
  shows "length (fold (\<lambda>i data. data[acc_lane a + i := f i]) [0..<n] data) = length data \<and>
    (\<forall>l<length data. fold (\<lambda>i data. data[acc_lane a + i := f i]) [0..<n] data ! l =
       (if acc_lane a \<le> l \<and> l < acc_lane a + n then f (l - acc_lane a) else data ! l))"
  using assms by (induction n) (auto simp: nth_list_update less_Suc_eq)

lemma acc_put_facts:
  assumes "acc_lane a + acc_size a \<le> length data"
  shows "length (acc_put data a v) = length data"
    and "l < length data \<Longrightarrow> acc_put data a v ! l =
      (if acc_lane a \<le> l \<and> l < acc_lane a + acc_size a
       then ucast (drop_bit ((l - acc_lane a) * 8) v AND 0xff) else data ! l)"
  unfolding acc_put_def using acc_put_prefix [OF assms] by auto

lemma acc_put_access:
  assumes "access offset lanes = Some a" and "0 < acc_size a" and "length lanes = length data"
  shows "length (acc_put data a v) = length data"
    and "l < length data \<Longrightarrow> lanes ! l = 0 \<Longrightarrow> acc_put data a v ! l = data ! l"
proof -
  have sz: "acc_size a \<noteq> 0" using assms(2) by simp
  note f = access_facts [OF assms(1) sz]
  show "length (acc_put data a v) = length data" using f(2) assms(3) by (simp add: acc_put_facts)
  show "acc_put data a v ! l = data ! l" if "l < length data" "lanes ! l = 0"
    using f(2) f(3) [of l] assms(3) that by (auto simp: acc_put_facts)
qed

lemma bit_acc_get:
  "bit (acc_get data a) n \<longleftrightarrow> n < 64 \<and> n < 8 * acc_size a \<and> bit (data ! (acc_lane a + n div 8)) (n mod 8)"
proof -
  have high: "bit (b :: u8) k \<Longrightarrow> k < 8" for b k using bit_imp_le_length [of b k] by simp
  have "bit (fold (\<lambda>i value. value OR push_bit (i * 8) (ucast (data ! (acc_lane a + i)))) [0..<m] (0 :: u64)) n \<longleftrightarrow>
      n < 64 \<and> n < 8 * m \<and> bit (data ! (acc_lane a + n div 8)) (n mod 8)" for m
  proof (induction m)
    case 0
    show ?case by simp
  next
    case (Suc m)
    show ?case
    proof (cases "8 * m \<le> n")
      case False
      then show ?thesis using Suc by (auto simp: bit_simps)
    next
      case True
      show ?thesis
      proof (cases "n < 8 * Suc m")
        case lt: True
        then have "n div 8 = m" using True by auto
        moreover have "n mod 8 = n - m * 8" using minus_div_mult_eq_mod [of n 8] calculation by simp
        ultimately have "n div 8 = m" "n mod 8 = n - m * 8" by simp_all
        then show ?thesis using Suc True lt by (auto simp: bit_simps)
      next
        case False
        then show ?thesis using Suc True high [of _ "n - m * 8"] by (force simp: bit_simps)
      qed
    qed
  qed
  then show ?thesis by (simp add: acc_get_def)
qed

text \<open>Writing a value into the lanes of an access and reading the lanes back is the identity on the
  bits that fit.\<close>

lemma acc_get_put:
  assumes "acc_lane a + acc_size a \<le> length data" and "acc_size a \<le> 8"
  shows "acc_get (acc_put data a v) a = take_bit (8 * acc_size a) v"
proof (rule bit_word_eqI)
  fix n
  assume n: "n < LENGTH(64)"
  show "bit (acc_get (acc_put data a v) a) n \<longleftrightarrow> bit (take_bit (8 * acc_size a) v) n"
  proof (cases "n < 8 * acc_size a")
    case False
    then show ?thesis by (simp add: bit_acc_get bit_take_bit_iff)
  next
    case True
    then have l: "n div 8 < acc_size a" by (simp add: less_mult_imp_div_less mult.commute)
    have "n div 8 * 8 + n mod 8 = n" and "n mod 8 < 64" by (simp, rule less_trans [of _ 8]) simp_all
    then show ?thesis
      using True n l assms
      by (simp add: bit_acc_get acc_put_facts bit_take_bit_iff bit_ucast_iff bit_and_iff bit_255_iff
          bit_drop_bit_eq del: bit_numeral_word_iff)
  qed
qed

section \<open>CLINT lemmas\<close>

definition clint_wf :: "clint \<Rightarrow> bool" where
  "clint_wf d \<longleftrightarrow> 0 < unat (cl_divider d) \<and> unat (cl_phase d) < unat (cl_divider d)"

lemma clint_new_wf: "clint_new divider = Inr d \<Longrightarrow> clint_wf d"
  by (auto simp: clint_new_def clint_reset_def clint_wf_def unat_gt_0 split: if_splits)

lemma clint_settle_simps [simp]:
  "cl_divider (clint_settle d) = cl_divider d" "cl_phase (clint_settle d) = cl_phase d"
  "cl_compare (clint_settle d) = cl_compare d" "cl_time (clint_settle d) = cl_time d"
  "clint_wf (clint_settle d) = clint_wf d"
  "sig_value (cl_timer (clint_settle d)) = (if sig_value (cl_time d) \<ge> cl_compare d then 1 else 0)"
  by (simp_all add: clint_settle_def clint_wf_def)

lemma clint_tick_phase:
  assumes "clint_wf d"
  shows "cl_divider (clint_tick d) = cl_divider d \<and> cl_compare (clint_tick d) = cl_compare d \<and>
    unat (cl_phase (clint_tick d)) = (unat (cl_phase d) + 1) mod unat (cl_divider d) \<and>
    sig_value (cl_time (clint_tick d)) =
      sig_value (cl_time d) + of_nat ((unat (cl_phase d) + 1) div unat (cl_divider d))"
proof -
  have lt: "unat (cl_phase d) < unat (cl_divider d)" using assms by (simp add: clint_wf_def)
  have u: "unat (cl_phase d + 1) = unat (cl_phase d) + 1"
    using lt unat_u64_less [of "cl_divider d"] by (subst unat_plus_exact) simp_all
  have eq: "cl_phase d + 1 = cl_divider d \<longleftrightarrow> unat (cl_phase d) + 1 = unat (cl_divider d)"
    by (metis u word_unat_eq_iff)
  show ?thesis
  proof (cases "unat (cl_phase d) + 1 = unat (cl_divider d)")
    case True
    then show ?thesis using eq assms by (simp add: clint_tick_def Let_def clint_wf_def)
  next
    case False
    then have "unat (cl_phase d) + 1 < unat (cl_divider d)" using lt by simp
    then show ?thesis using eq u by (simp add: clint_tick_def Let_def)
  qed
qed

lemma clint_tick_wf: "clint_wf d \<Longrightarrow> clint_wf (clint_tick d)"
  using clint_tick_phase [of d] by (auto simp: clint_wf_def)

lemma clint_ticks:
  assumes "clint_wf d"
  shows "clint_wf ((clint_tick ^^ n) d) \<and> cl_divider ((clint_tick ^^ n) d) = cl_divider d \<and>
    cl_compare ((clint_tick ^^ n) d) = cl_compare d \<and>
    unat (cl_phase ((clint_tick ^^ n) d)) = (unat (cl_phase d) + n) mod unat (cl_divider d) \<and>
    sig_value (cl_time ((clint_tick ^^ n) d)) =
      sig_value (cl_time d) + of_nat ((unat (cl_phase d) + n) div unat (cl_divider d))"
proof (induction n)
  case 0
  then show ?case using assms by (simp add: clint_wf_def)
next
  case (Suc n)
  let ?D = "unat (cl_divider d)" and ?p = "unat (cl_phase d) + n"
  have "(?p mod ?D + 1) mod ?D = (?p + 1) mod ?D" by (simp add: mod_simps)
  moreover have "?p div ?D + (?p mod ?D + 1) div ?D = (?p + 1) div ?D"
    using assms div_plus_div_distrib_dvd_left [of ?D "?p div ?D * ?D" "?p mod ?D + 1"]
    by (simp add: clint_wf_def flip: add.assoc)
  ultimately show ?case
    using Suc clint_tick_phase [of "(clint_tick ^^ n) d"] clint_tick_wf [of "(clint_tick ^^ n) d"]
    by (simp add: add.assoc flip: of_nat_add)
qed

interpretation clint_dev: bus_device clint_read_impl clint_write_impl clint_wf
proof (unfold_locales, goal_cases)
  case (1 d enable data offset r data' d')
  then show ?case
    by (auto simp: clint_read_impl_def Let_def acc_put_access(1) split: option.splits if_splits)
next
  case (2 d enable data offset r data' d' l)
  then show ?case
    by (auto simp: clint_read_impl_def Let_def acc_put_access(2) split: option.splits if_splits)
qed (auto simp: clint_read_impl_def clint_write_impl_def Let_def clint_wf_def split: option.splits if_splits)

lemma mask32_eq: "(0xffffffff :: u64) = mask 32"
  by (simp add: mask_eq_exp_minus_1)

lemma merge_halves:
  assumes "bit lo n \<Longrightarrow> n < 32" and "bit hi n \<Longrightarrow> n < 32"
  shows "bit (((v AND NOT (push_bit 0 (mask 32))) OR push_bit 0 lo) AND NOT (push_bit 32 (mask 32)) OR push_bit 32 hi) n \<longleftrightarrow>
    bit (push_bit 32 hi OR lo :: u64) n"
  using assms by (auto simp: bit_simps)

section \<open>PLIC lemmas\<close>

definition plic_wf :: "plic \<Rightarrow> bool" where
  "plic_wf d \<longleftrightarrow> 0 < pl_sources d \<and> pl_sources d \<le> 1023 \<and> 0 < pl_contexts d \<and> pl_contexts d \<le> 64 \<and>
     length (pl_inputs d) = Suc (pl_sources d) \<and> length (pl_priority d) = Suc (pl_sources d) \<and>
     length (pl_pending d) = Suc (pl_sources d) \<and> length (pl_busy d) = Suc (pl_sources d) \<and>
     length (pl_irqs d) = pl_contexts d \<and> length (pl_threshold d) = pl_contexts d \<and>
     length (pl_enables d) = pl_contexts d \<and> list_all (\<lambda>e. length e = 32) (pl_enables d) \<and>
     pl_priority d ! 0 = 0 \<and> \<not> pl_pending d ! 0"

lemma plic_new_wf: "plic_new sources contexts = Inr d \<Longrightarrow> plic_wf d"
  by (auto simp: plic_new_def plic_reset_def plic_wf_def list_all_iff split: if_splits)

lemma plic_reset_wf: "plic_wf d \<Longrightarrow> plic_wf (plic_reset d)"
  by (auto simp: plic_reset_def plic_wf_def list_all_iff)

text \<open>A source competes for a context when it is pending and enabled there.\<close>

definition eligible :: "plic \<Rightarrow> nat \<Rightarrow> nat \<Rightarrow> bool" where
  "eligible d ctx i \<longleftrightarrow> 1 \<le> i \<and> i \<le> pl_sources d \<and> pl_pending d ! i \<and> plic_enabled d ctx i"

lemma plic_best_prefix:
  fixes ctx :: nat
  assumes "n \<le> pl_sources d"
  defines "sel \<equiv> fold (\<lambda>i selected. if pl_pending d ! i \<and> plic_enabled d ctx i \<and>
              pl_priority d ! i > pl_priority d ! selected then i else selected) [1..<Suc n] 0"
  shows "sel \<le> n \<and> (sel \<noteq> 0 \<longrightarrow> eligible d ctx sel \<and> pl_priority d ! sel > pl_priority d ! 0) \<and>
    (\<forall>i\<le>n. eligible d ctx i \<longrightarrow> pl_priority d ! i \<le> pl_priority d ! sel) \<and>
    (\<forall>i < sel. eligible d ctx i \<longrightarrow> pl_priority d ! i < pl_priority d ! sel)"
  using assms(1) unfolding sel_def
proof (induction n)
  case 0
  then show ?case by (simp add: eligible_def)
next
  case (Suc n)
  let ?f = "\<lambda>i selected. if pl_pending d ! i \<and> plic_enabled d ctx i \<and>
              pl_priority d ! i > pl_priority d ! selected then i else selected"
  define s where "s = fold ?f [1..<Suc n] 0"
  have step: "fold ?f [1..<Suc (Suc n)] 0 = ?f (Suc n) s" by (simp add: s_def)
  have ih: "s \<le> n" "s \<noteq> 0 \<Longrightarrow> eligible d ctx s \<and> pl_priority d ! s > pl_priority d ! 0"
    "\<forall>i\<le>n. eligible d ctx i \<longrightarrow> pl_priority d ! i \<le> pl_priority d ! s"
    "\<forall>i < s. eligible d ctx i \<longrightarrow> pl_priority d ! i < pl_priority d ! s"
    using Suc.IH [OF Suc_leD [OF Suc.prems], folded s_def] by blast+
  show ?case
  proof (cases "pl_pending d ! Suc n \<and> plic_enabled d ctx (Suc n) \<and> pl_priority d ! Suc n > pl_priority d ! s")
    case True
    then have eq: "fold ?f [1..<Suc (Suc n)] 0 = Suc n" unfolding step by simp
    have "pl_priority d ! Suc n > pl_priority d ! 0"
      using True ih(2) by (cases "s = 0") auto
    moreover have "eligible d ctx (Suc n)" using True Suc.prems by (simp add: eligible_def)
    moreover have less: "\<forall>i<Suc n. eligible d ctx i \<longrightarrow> pl_priority d ! i < pl_priority d ! Suc n"
      using True ih(3) by (meson le_less_trans less_Suc_eq_le)
    moreover have "\<forall>i\<le>Suc n. eligible d ctx i \<longrightarrow> pl_priority d ! i \<le> pl_priority d ! Suc n"
      using less by (auto simp: le_Suc_eq less_Suc_eq_le intro: less_imp_le)
    ultimately show ?thesis unfolding eq by blast
  next
    case False
    then have eq: "fold ?f [1..<Suc (Suc n)] 0 = s" unfolding step by auto
    have "eligible d ctx (Suc n) \<Longrightarrow> pl_priority d ! Suc n \<le> pl_priority d ! s"
      using False by (auto simp: eligible_def)
    then have "\<forall>i\<le>Suc n. eligible d ctx i \<longrightarrow> pl_priority d ! i \<le> pl_priority d ! s"
      using ih(3) by (simp add: le_Suc_eq)
    then show ?thesis unfolding eq using ih le_SucI by blast
  qed
qed

lemma plic_best_facts:
  assumes "plic_wf d"
  shows "plic_best d ctx \<le> pl_sources d"
    and "plic_best d ctx \<noteq> 0 \<Longrightarrow> eligible d ctx (plic_best d ctx) \<and> 0 < pl_priority d ! plic_best d ctx"
    and "eligible d ctx i \<Longrightarrow> pl_priority d ! i \<le> pl_priority d ! plic_best d ctx"
    and "eligible d ctx i \<Longrightarrow> i < plic_best d ctx \<Longrightarrow> pl_priority d ! i < pl_priority d ! plic_best d ctx"
proof -
  have z: "pl_priority d ! 0 = 0" using assms by (simp add: plic_wf_def)
  have bound: "eligible d ctx i \<Longrightarrow> i \<le> pl_sources d" by (simp add: eligible_def)
  note p = plic_best_prefix [OF order_refl, of d ctx, folded plic_best_def]
  show "plic_best d ctx \<le> pl_sources d"
    and "plic_best d ctx \<noteq> 0 \<Longrightarrow> eligible d ctx (plic_best d ctx) \<and> 0 < pl_priority d ! plic_best d ctx"
    and "eligible d ctx i \<Longrightarrow> pl_priority d ! i \<le> pl_priority d ! plic_best d ctx"
    and "eligible d ctx i \<Longrightarrow> i < plic_best d ctx \<Longrightarrow> pl_priority d ! i < pl_priority d ! plic_best d ctx"
    using p bound unfolding z by blast+
qed

lemma plic_notify_simps [simp]:
  "pl_sources (plic_notify d) = pl_sources d" "pl_contexts (plic_notify d) = pl_contexts d"
  "pl_inputs (plic_notify d) = pl_inputs d" "pl_priority (plic_notify d) = pl_priority d"
  "pl_threshold (plic_notify d) = pl_threshold d" "pl_enables (plic_notify d) = pl_enables d"
  "pl_pending (plic_notify d) = pl_pending d" "pl_busy (plic_notify d) = pl_busy d"
  "length (pl_irqs (plic_notify d)) = pl_contexts d"
  by (simp_all add: plic_notify_def)

lemma plic_notify_wf: "plic_wf d \<Longrightarrow> plic_wf (plic_notify d)"
  by (simp add: plic_wf_def)

text \<open>The gateway loop of \<^verbatim>\<open>settle\<close>.\<close>

lemma plic_gate_prefix:
  fixes sigma :: "signal_ref \<Rightarrow> u64"
  assumes "plic_wf d" and "n \<le> pl_sources d"
  defines "d' \<equiv> fold (\<lambda>i d. if input_value sigma (pl_inputs d ! i) \<noteq> 0 \<and> \<not> pl_busy d ! i
              then d\<lparr>pl_pending := (pl_pending d)[i := True], pl_busy := (pl_busy d)[i := True]\<rparr> else d) [1..<Suc n] d"
  shows "plic_wf d' \<and> d' = d\<lparr>pl_pending := pl_pending d', pl_busy := pl_busy d'\<rparr> \<and>
    (\<forall>i\<le>pl_sources d.
       pl_pending d' ! i = (pl_pending d ! i \<or> (1 \<le> i \<and> i \<le> n \<and> input_value sigma (pl_inputs d ! i) \<noteq> 0 \<and> \<not> pl_busy d ! i)) \<and>
       pl_busy d' ! i = (pl_busy d ! i \<or> (1 \<le> i \<and> i \<le> n \<and> input_value sigma (pl_inputs d ! i) \<noteq> 0)))"
  using assms(2) unfolding d'_def
proof (induction n)
  case 0
  then show ?case using assms(1) by auto
next
  case (Suc n)
  let ?f = "\<lambda>i d. if input_value sigma (pl_inputs d ! i) \<noteq> 0 \<and> \<not> pl_busy d ! i
      then d\<lparr>pl_pending := (pl_pending d)[i := True], pl_busy := (pl_busy d)[i := True]\<rparr> else d"
  define e where "e = fold ?f [1..<Suc n] d"
  have step: "fold ?f [1..<Suc (Suc n)] d = ?f (Suc n) e" by (simp add: e_def)
  have wf: "plic_wf e" and form: "e = d\<lparr>pl_pending := pl_pending e, pl_busy := pl_busy e\<rparr>"
    and vals: "\<forall>i\<le>pl_sources d.
       pl_pending e ! i = (pl_pending d ! i \<or> (1 \<le> i \<and> i \<le> n \<and> input_value sigma (pl_inputs d ! i) \<noteq> 0 \<and> \<not> pl_busy d ! i)) \<and>
       pl_busy e ! i = (pl_busy d ! i \<or> (1 \<le> i \<and> i \<le> n \<and> input_value sigma (pl_inputs d ! i) \<noteq> 0))"
    using Suc.IH [OF Suc_leD [OF Suc.prems], folded e_def] by blast+
  have inp: "pl_inputs e = pl_inputs d" and src: "pl_sources e = pl_sources d"
    by (subst form; simp)+
  have len: "Suc n < length (pl_pending e)" "Suc n < length (pl_busy e)"
    using wf src Suc.prems by (simp_all add: plic_wf_def)
  show ?case
  proof (cases "input_value sigma (pl_inputs d ! Suc n) \<noteq> 0 \<and> \<not> pl_busy d ! Suc n")
    case True
    have "\<not> pl_busy e ! Suc n" using vals True Suc.prems by simp
    then have eq: "fold ?f [1..<Suc (Suc n)] d =
        e\<lparr>pl_pending := (pl_pending e)[Suc n := True], pl_busy := (pl_busy e)[Suc n := True]\<rparr>"
      unfolding step using True by (simp add: inp)
    have "plic_wf (e\<lparr>pl_pending := (pl_pending e)[Suc n := True], pl_busy := (pl_busy e)[Suc n := True]\<rparr>)"
      using wf by (simp add: plic_wf_def)
    moreover have "e\<lparr>pl_pending := (pl_pending e)[Suc n := True], pl_busy := (pl_busy e)[Suc n := True]\<rparr> =
        d\<lparr>pl_pending := (pl_pending e)[Suc n := True], pl_busy := (pl_busy e)[Suc n := True]\<rparr>"
      by (subst form) simp
    ultimately show ?thesis
      unfolding eq using vals True len by (auto simp: nth_list_update le_Suc_eq)
  next
    case False
    have "pl_busy e ! Suc n = pl_busy d ! Suc n" using vals Suc.prems by simp
    then have eq: "fold ?f [1..<Suc (Suc n)] d = e"
      unfolding step using False by (auto simp: inp)
    show ?thesis unfolding eq using wf form vals False by (auto simp: le_Suc_eq)
  qed
qed

lemma plic_settle_facts:
  assumes "plic_wf d"
  shows "plic_wf (plic_settle sigma d)"
    and "pl_sources (plic_settle sigma d) = pl_sources d" "pl_contexts (plic_settle sigma d) = pl_contexts d"
    and "pl_inputs (plic_settle sigma d) = pl_inputs d" "pl_priority (plic_settle sigma d) = pl_priority d"
    and "pl_threshold (plic_settle sigma d) = pl_threshold d" "pl_enables (plic_settle sigma d) = pl_enables d"
    and "i \<le> pl_sources d \<Longrightarrow> pl_pending (plic_settle sigma d) ! i =
      (pl_pending d ! i \<or> (1 \<le> i \<and> input_value sigma (pl_inputs d ! i) \<noteq> 0 \<and> \<not> pl_busy d ! i))"
    and "i \<le> pl_sources d \<Longrightarrow> pl_busy (plic_settle sigma d) ! i =
      (pl_busy d ! i \<or> (1 \<le> i \<and> input_value sigma (pl_inputs d ! i) \<noteq> 0))"
proof -
  define e where "e = fold (\<lambda>i d. if input_value sigma (pl_inputs d ! i) \<noteq> 0 \<and> \<not> pl_busy d ! i
              then d\<lparr>pl_pending := (pl_pending d)[i := True], pl_busy := (pl_busy d)[i := True]\<rparr> else d)
              [1..<Suc (pl_sources d)] d"
  note p = plic_gate_prefix [OF assms order_refl, of sigma, folded e_def]
  have s: "plic_settle sigma d = plic_notify e" by (simp add: plic_settle_def e_def)
  have form: "e = d\<lparr>pl_pending := pl_pending e, pl_busy := pl_busy e\<rparr>" using p by blast
  have f: "pl_sources e = pl_sources d" "pl_contexts e = pl_contexts d" "pl_inputs e = pl_inputs d"
    "pl_priority e = pl_priority d" "pl_threshold e = pl_threshold d" "pl_enables e = pl_enables d"
    by (subst form, simp)+
  show "plic_wf (plic_settle sigma d)" unfolding s using p by (simp add: plic_notify_wf)
  show "pl_sources (plic_settle sigma d) = pl_sources d" "pl_contexts (plic_settle sigma d) = pl_contexts d"
    "pl_inputs (plic_settle sigma d) = pl_inputs d" "pl_priority (plic_settle sigma d) = pl_priority d"
    "pl_threshold (plic_settle sigma d) = pl_threshold d" "pl_enables (plic_settle sigma d) = pl_enables d"
    by (simp_all add: s f)
  show "i \<le> pl_sources d \<Longrightarrow> pl_pending (plic_settle sigma d) ! i =
      (pl_pending d ! i \<or> (1 \<le> i \<and> input_value sigma (pl_inputs d ! i) \<noteq> 0 \<and> \<not> pl_busy d ! i))"
    and "i \<le> pl_sources d \<Longrightarrow> pl_busy (plic_settle sigma d) ! i =
      (pl_busy d ! i \<or> (1 \<le> i \<and> input_value sigma (pl_inputs d ! i) \<noteq> 0))"
    unfolding s using p by auto
qed

text \<open>The state a register write leaves before it settles.\<close>

definition plic_store :: "u64 \<Rightarrow> u32 \<Rightarrow> plic \<Rightarrow> plic" where
  "plic_store offset value d =
     (let off = unat offset
      in if off > 0 \<and> off < 0x1000 \<and> off div 4 \<le> pl_sources d then
           d\<lparr>pl_priority := (pl_priority d)[off div 4 := value AND 7]\<rparr>
         else if off \<ge> 0x2000 \<and> off < 0x2000 + pl_contexts d * 0x80 then
           (let c = (off - 0x2000) div 0x80;
                wd = (off mod 0x80) div 4;
                lanes = fold (\<lambda>b lanes. let i = wd * 32 + b
                                        in if i \<noteq> 0 \<and> i \<le> pl_sources d then lanes OR push_bit b 1 else lanes)
                          [0..<32] 0
            in d\<lparr>pl_enables := (pl_enables d)[c := (pl_enables d ! c)[wd := value AND lanes]]\<rparr>)
         else if off \<ge> 0x200000 \<and> off < 0x200000 + pl_contexts d * 0x1000 then
           (let c = (off - 0x200000) div 0x1000
            in if off mod 0x1000 = 0 then d\<lparr>pl_threshold := (pl_threshold d)[c := value AND 7]\<rparr>
               else if off mod 0x1000 = 4 \<and> value \<noteq> 0 \<and> unat value \<le> pl_sources d \<and>
                       plic_enabled d c (unat value)
               then d\<lparr>pl_busy := (pl_busy d)[unat value := False]\<rparr>
               else d)
         else d)"

lemma plic_write_register_eq: "plic_write_register sigma offset value d = plic_settle sigma (plic_store offset value d)"
  by (simp add: plic_write_register_def plic_store_def Let_def)

text \<open>Register addresses are word aligned, so the priority of source 0 stays 0.\<close>

lemma plic_store_facts:
  assumes "plic_wf d" and "4 dvd unat offset"
  shows "plic_wf (plic_store offset val d)"
    and "pl_pending (plic_store offset val d) = pl_pending d"
    and "pl_sources (plic_store offset val d) = pl_sources d"
    and "pl_inputs (plic_store offset val d) = pl_inputs d"
    and "pl_busy d ! i \<Longrightarrow> unat val \<noteq> i \<or> unat offset mod 0x1000 \<noteq> 4 \<or> unat offset < 0x200000 \<Longrightarrow>
      pl_busy (plic_store offset val d) ! i"
proof -
  have pos: "0 < unat offset \<Longrightarrow> 0 < unat offset div 4" using assms(2) by (auto elim!: dvdE)
  have en: "list_all (\<lambda>e. length e = 32) ((pl_enables d)[c := (pl_enables d ! c)[w := v]])"
    if "c < pl_contexts d" for c w v
    using assms(1) that by (auto simp: plic_wf_def list_all_length nth_list_update)
  have c: "(unat offset - 0x2000) div 0x80 < pl_contexts d"
    if "unat offset < 0x2000 + pl_contexts d * 0x80" "0x2000 \<le> unat offset"
    using that by (simp add: less_mult_imp_div_less)
  show "plic_wf (plic_store offset val d)"
    using assms(1) pos en c
    by (auto simp: plic_store_def Let_def plic_wf_def nth_list_update)
  show "pl_pending (plic_store offset val d) = pl_pending d"
    and "pl_sources (plic_store offset val d) = pl_sources d"
    and "pl_inputs (plic_store offset val d) = pl_inputs d"
    by (simp_all add: plic_store_def Let_def)
  show "pl_busy (plic_store offset val d) ! i"
    if "pl_busy d ! i" "unat val \<noteq> i \<or> unat offset mod 0x1000 \<noteq> 4 \<or> unat offset < 0x200000"
    using that by (auto simp: plic_store_def Let_def nth_list_update)
qed

lemma access_aligned:
  assumes "access offset lanes = Some a" and "acc_size a = 4"
  shows "4 dvd unat (acc_address a)"
proof -
  have "4 dvd acc_address a"
    using assms by (auto simp: access_def Let_def split: if_splits)
  then obtain k where "acc_address a = 4 * k" by (elim dvdE)
  then have "unat (acc_address a) = 4 * unat k mod 2 ^ 64" by (simp add: unat_word_ariths)
  moreover have "(4 :: nat) dvd 2 ^ 64" by simp
  ultimately show ?thesis by (metis dvd_mod dvd_triv_left)
qed

definition claim_address :: "u64 \<Rightarrow> plic \<Rightarrow> bool" where
  "claim_address address d \<longleftrightarrow>
     0x200000 \<le> unat address \<and> unat address < 0x200000 + pl_contexts d * 0x1000 \<and> unat address mod 0x1000 = 4"

definition claim_context :: "u64 \<Rightarrow> nat" where
  "claim_context address = (unat address - 0x200000) div 0x1000"

lemma plic_read_register_claim:
  assumes "plic_wf d" and "claim_address offset d"
  shows "plic_read_register offset d =
    (of_nat (plic_best d (claim_context offset)),
     plic_notify (if plic_best d (claim_context offset) \<noteq> 0
       then d\<lparr>pl_pending := (pl_pending d)[plic_best d (claim_context offset) := False]\<rparr> else d))"
proof -
  have "pl_contexts d \<le> 64" using assms(1) by (simp add: plic_wf_def)
  then have "\<not> unat offset < 0x2000 + pl_contexts d * 0x80"
    using assms(2) by (simp add: claim_address_def)
  then show ?thesis
    using assms(2) by (simp add: plic_read_register_def claim_address_def claim_context_def Let_def)
qed

lemma plic_read_register_other:
  "\<not> claim_address offset d \<Longrightarrow> snd (plic_read_register offset d) = d"
  by (auto simp: plic_read_register_def claim_address_def Let_def)

lemma list_update_False: "xs[k := False] ! i \<Longrightarrow> i < length xs \<Longrightarrow> xs ! i"
  by (cases "i = k") auto

lemma plic_read_register_facts:
  assumes "plic_wf d" and "plic_read_register offset d = (v, d')"
  shows "plic_wf d'" and "pl_sources d' = pl_sources d" and "pl_busy d' = pl_busy d"
    and "i \<le> pl_sources d \<Longrightarrow> pl_pending d' ! i \<Longrightarrow> pl_pending d ! i"
proof -
  have "plic_wf d' \<and> pl_sources d' = pl_sources d \<and> pl_busy d' = pl_busy d \<and>
    (i \<le> pl_sources d \<longrightarrow> pl_pending d' ! i \<longrightarrow> pl_pending d ! i)"
    using assms plic_read_register_claim [OF assms(1), of offset] plic_read_register_other [of offset d]
    by (cases "claim_address offset d") (auto simp: plic_wf_def nth_list_update split: if_splits dest!: list_update_False)
  then show "plic_wf d'" "pl_sources d' = pl_sources d" "pl_busy d' = pl_busy d"
    "i \<le> pl_sources d \<Longrightarrow> pl_pending d' ! i \<Longrightarrow> pl_pending d ! i"
    by simp_all
qed

interpretation plic_dev: bus_device plic_read_impl "plic_write_impl sigma" plic_wf for sigma
proof (unfold_locales, goal_cases)
  case (1 d enable data offset r data' d')
  then show ?case
    by (auto simp: plic_read_impl_def acc_put_access(1) split: option.splits if_splits prod.splits)
next
  case (2 d enable data offset r data' d' l)
  then show ?case
    by (auto simp: plic_read_impl_def acc_put_access(2) split: option.splits if_splits prod.splits)
next
  case (3 d enable data offset r data' d')
  then show ?case
    by (auto simp: plic_read_impl_def split: option.splits if_splits prod.splits dest: plic_read_register_facts(1))
next
  case (5 d strobe data offset r d')
  have "plic_wf (plic_write_register sigma (acc_address a) v d)"
    if "access offset strobe = Some a" "0 < acc_size a" "acc_size a \<noteq> 8" for a v
    using that 5(1) access_facts(1) [OF that(1)] access_aligned [OF that(1)]
    by (simp add: plic_write_register_eq plic_settle_facts(1) plic_store_facts(1))
  then show ?case
    using 5 by (auto simp: plic_write_impl_def split: option.splits if_splits)
qed (auto simp: plic_read_impl_def plic_write_impl_def split: option.splits if_splits prod.splits)

section \<open>Gateways\<close>

text \<open>What can happen to a PLIC between two looks at it: a settle, a bus read, a bus write. A read reports
  the claimed source, if it was a claim.\<close>

datatype plic_op = PSettle "signal_ref \<Rightarrow> u64" | PRead u64 "u8 list" | PWrite "signal_ref \<Rightarrow> u64" u64 "u8 list" "u8 list"

definition claimed :: "u64 \<Rightarrow> u8 list \<Rightarrow> plic \<Rightarrow> nat list" where
  "claimed offset lanes d =
     (case access offset lanes of
        None \<Rightarrow> []
      | Some a \<Rightarrow> if acc_size a = 4 \<and> acc_address a < 0x4000000 \<and> claim_address (acc_address a) d
                  then [unat (fst (plic_read_register (acc_address a) d))] else [])"

fun plic_step :: "plic_op \<Rightarrow> plic \<Rightarrow> nat list \<times> plic" where
  "plic_step (PSettle sigma) d = ([], plic_settle sigma d)"
| "plic_step (PRead offset lanes) d =
     (claimed offset lanes d, snd (snd (plic_read_impl offset (replicate (length lanes) 0) lanes d)))"
| "plic_step (PWrite sigma offset data lanes) d = ([], snd (plic_write_impl sigma offset data lanes d))"

fun plic_run :: "plic_op list \<Rightarrow> plic \<Rightarrow> nat list \<times> plic" where
  "plic_run [] d = ([], d)"
| "plic_run (p # ps) d = (let (c, d') = plic_step p d; (cs, d'') = plic_run ps d' in (c @ cs, d''))"

text \<open>A write that completes source \<open>i\<close>: the value \<open>i\<close> stored to a claim register.\<close>

fun completes :: "nat \<Rightarrow> plic_op \<Rightarrow> bool" where
  "completes i (PWrite sigma offset data lanes) \<longleftrightarrow>
     (case access offset lanes of
        None \<Rightarrow> False
      | Some a \<Rightarrow> 0x200000 \<le> unat (acc_address a) \<and> unat (acc_address a) mod 0x1000 = 4 \<and>
                  unat (ucast (acc_get data a) :: u32) = i)"
| "completes i _ \<longleftrightarrow> False"

definition blocked :: "nat \<Rightarrow> plic \<Rightarrow> bool" where
  "blocked i d \<longleftrightarrow> plic_wf d \<and> 1 \<le> i \<and> i \<le> pl_sources d \<and> pl_busy d ! i \<and> \<not> pl_pending d ! i"

lemma claimed_not_blocked:
  assumes "blocked i d"
  shows "i \<notin> set (claimed offset lanes d)"
proof -
  have wf: "plic_wf d" using assms by (simp add: blocked_def)
  have small: "plic_best d c < 2 ^ 32" for c
    using plic_best_facts(1) [OF wf, of c] wf by (simp add: plic_wf_def)
  have "plic_best d c \<noteq> i" for c
    using plic_best_facts(2) [OF wf, of c] assms by (auto simp: blocked_def eligible_def)
  then show ?thesis
    using small plic_read_register_claim [OF wf]
    by (auto simp: claimed_def unat_of_nat_exact split: option.splits if_splits)
qed

lemma plic_step_blocked:
  assumes "blocked i d" and "\<not> completes i p" and "plic_step p d = (cs, d')"
  shows "blocked i d' \<and> i \<notin> set cs"
proof (cases p)
  case (PSettle sigma)
  then show ?thesis
    using assms plic_settle_facts [where d = d and sigma = sigma] by (auto simp: blocked_def)
next
  case (PRead offset lanes)
  have b: "plic_wf d" "1 \<le> i" "i \<le> pl_sources d" "pl_busy d ! i" "\<not> pl_pending d ! i"
    using assms(1) by (simp_all add: blocked_def)
  have "blocked i (snd (plic_read_register address d))" for address
  proof -
    obtain v e where r: "plic_read_register address d = (v, e)" by fastforce
    note f = plic_read_register_facts [OF b(1) r]
    show ?thesis using f(1-3) f(4) [OF b(3)] b(2-5) by (auto simp: r blocked_def)
  qed
  moreover have "d' = d \<or> (\<exists>address. d' = snd (plic_read_register address d))"
  proof (cases "access offset lanes")
    case None
    then show ?thesis using assms(3) PRead by (auto simp: plic_read_impl_def)
  next
    case (Some a)
    then show ?thesis
      using assms(3) PRead by (cases "plic_read_register (acc_address a) d")
        (auto simp: plic_read_impl_def split: if_splits intro!: exI [of _ "acc_address a"])
  qed
  ultimately have "blocked i d'" using assms(1) by auto
  then show ?thesis using claimed_not_blocked [OF assms(1)] assms(3) PRead by auto
next
  case (PWrite sigma offset data lanes)
  have b: "plic_wf d" "1 \<le> i" "i \<le> pl_sources d" "pl_busy d ! i" "\<not> pl_pending d ! i"
    using assms(1) by (simp_all add: blocked_def)
  show ?thesis
  proof (cases "access offset lanes")
    case None
    then show ?thesis using assms PWrite by (auto simp: plic_write_impl_def)
  next
    case (Some a)
    let ?v = "ucast (acc_get data a) :: u32"
    have reg: "blocked i (plic_write_register sigma (acc_address a) ?v d)" if sz: "acc_size a = 4"
    proof -
      note st = plic_store_facts [OF b(1) access_aligned [OF Some sz], where val = ?v]
      have "pl_busy (plic_store (acc_address a) ?v d) ! i"
        using st(5) [where i = i] b(4) assms(2) PWrite Some by auto
      then show ?thesis
        unfolding plic_write_register_eq blocked_def
        using plic_settle_facts [OF st(1), where sigma = sigma] st(2,3,4) b by simp
    qed
    have "acc_size a = 0 \<or> acc_size a = 4 \<or> acc_size a = 8"
      using access_facts(1) [OF Some] by auto
    then show ?thesis
      using assms(1,3) PWrite Some reg by (auto simp: plic_write_impl_def split: if_splits)
  qed
qed

lemma plic_run_blocked:
  assumes "blocked i d" and "list_all (\<lambda>p. \<not> completes i p) ps" and "plic_run ps d = (cs, d')"
  shows "blocked i d' \<and> i \<notin> set cs"
  using assms
proof (induction ps arbitrary: d cs)
  case Nil
  then show ?case by simp
next
  case (Cons p ps)
  then show ?case
    using plic_step_blocked [of i d p] by (fastforce split: prod.splits)
qed

section \<open>Properties\<close>

text \<open>\<^verbatim>\<open>mtime\<close> counts simulated cycles divided by the divider: after \<open>n\<close> ticks the counter has advanced by
  the number of completed divider periods (modulo \<open>2\<^sup>6\<^sup>4\<close>), the phase is the remainder, and after at least
  one tick the timer interrupt line is raised exactly when the counter has reached \<^verbatim>\<open>mtimecmp\<close>.\<close>

theorem clint_time_advances:
  assumes "clint_wf d"
  shows "sig_value (cl_time ((clint_tick ^^ n) d)) =
      sig_value (cl_time d) + of_nat ((unat (cl_phase d) + n) div unat (cl_divider d)) \<and>
    unat (cl_phase ((clint_tick ^^ n) d)) = (unat (cl_phase d) + n) mod unat (cl_divider d) \<and>
    (0 < n \<longrightarrow> sig_value (cl_timer ((clint_tick ^^ n) d)) =
      (if sig_value (cl_time ((clint_tick ^^ n) d)) \<ge> cl_compare d then 1 else 0))"
proof (intro conjI impI)
  assume "0 < n"
  then obtain m where n: "n = Suc m" by (cases n) auto
  have "sig_value (cl_timer (clint_tick e)) =
      (if sig_value (cl_time (clint_tick e)) \<ge> cl_compare (clint_tick e) then 1 else 0)" for e
    by (simp add: clint_tick_def Let_def)
  then show "sig_value (cl_timer ((clint_tick ^^ n) d)) =
      (if sig_value (cl_time ((clint_tick ^^ n) d)) \<ge> cl_compare d then 1 else 0)"
    using clint_ticks [OF assms, of n] by (simp add: n)
qed (use clint_ticks [OF assms, of n] in simp_all)

theorem clint_time_advances_witness:
  "\<exists>d. clint_new 4 = Inr d \<and> sig_value (cl_time ((clint_tick ^^ 10) d)) = 2"
proof -
  obtain d where d: "clint_new 4 = Inr d" and t: "sig_value (cl_time d) = 0" "cl_phase d = 0" "cl_divider d = 4"
    by (simp add: clint_new_def clint_reset_def)
  show ?thesis
    using d clint_time_advances [OF clint_new_wf [OF d], of 10] t by simp
qed

lemma timer_half_write:
  assumes "access offset lanes = Some a" and "acc_size a = 4"
    and "acc_address a = 0x4000 \<or> acc_address a = 0x4004"
  shows "\<exists>d'. clint_write_impl offset data lanes d = (Okay, d') \<and>
    cl_compare d' = (cl_compare d AND NOT (push_bit (if acc_address a = 0x4000 then 0 else 32) (mask 32)))
      OR push_bit (if acc_address a = 0x4000 then 0 else 32) (acc_get data a)"
  using assms by (auto simp: clint_write_impl_def timer_register_def Let_def simp flip: mask32_eq)

lemma timer_full_read:
  assumes "access offset lanes = Some a" and "acc_size a = 8" and "acc_address a = 0x4000"
    and "length lanes = length data"
  shows "\<exists>out. clint_read_impl offset data lanes d = (Okay, out, d) \<and> acc_get out a = cl_compare d"
proof -
  have "acc_lane a + acc_size a \<le> length data"
    using access_facts(2) [OF assms(1)] assms by simp
  then have "acc_get (acc_put data a (cl_compare d)) a = cl_compare d"
    using assms(2) by (simp add: acc_get_put take_bit_word_eq_self)
  then show ?thesis
    using assms by (simp add: clint_read_impl_def timer_register_def)
qed

text \<open>A 64-bit compare value written by a 32-bit guest in two halves, low word at 0x4000 and high word at
  0x4004, in either order, is the concatenation of the two words whatever the register held before, and a
  64-bit read of 0x4000 returns it. The lanes of the bus beat that carry each word are arbitrary.\<close>

theorem clint_compare_halves:
  assumes "access o1 l1 = Some a1" and "acc_size a1 = 4" and "acc_address a1 = 0x4000"
    and "access o2 l2 = Some a2" and "acc_size a2 = 4" and "acc_address a2 = 0x4004"
    and "access o3 l3 = Some a3" and "acc_size a3 = 8" and "acc_address a3 = 0x4000" and "length l3 = length data3"
  shows "\<exists>d1 d2 e1 e2 out.
    clint_write_impl o1 data1 l1 d = (Okay, d1) \<and> clint_write_impl o2 data2 l2 d1 = (Okay, d2) \<and>
    clint_write_impl o2 data2 l2 d = (Okay, e1) \<and> clint_write_impl o1 data1 l1 e1 = (Okay, e2) \<and>
    cl_compare d2 = push_bit 32 (acc_get data2 a2) OR acc_get data1 a1 \<and>
    cl_compare e2 = push_bit 32 (acc_get data2 a2) OR acc_get data1 a1 \<and>
    clint_read_impl o3 data3 l3 d2 = (Okay, out, d2) \<and> acc_get out a3 = cl_compare d2"
proof -
  let ?lo = "acc_get data1 a1" and ?hi = "acc_get data2 a2"
  have lo: "bit ?lo n \<Longrightarrow> n < 32" and hi: "bit ?hi n \<Longrightarrow> n < 32" for n
    using assms(2,5) by (simp_all add: bit_acc_get)
  obtain d1 where d1: "clint_write_impl o1 data1 l1 d = (Okay, d1)"
    "cl_compare d1 = (cl_compare d AND NOT (mask 32)) OR ?lo"
    using timer_half_write [OF assms(1,2), of data1 d] assms(3) by auto
  obtain d2 where d2: "clint_write_impl o2 data2 l2 d1 = (Okay, d2)"
    "cl_compare d2 = (cl_compare d1 AND NOT (push_bit 32 (mask 32))) OR push_bit 32 ?hi"
    using timer_half_write [OF assms(4,5), of data2 d1] assms(6) by auto
  obtain e1 where e1: "clint_write_impl o2 data2 l2 d = (Okay, e1)"
    "cl_compare e1 = (cl_compare d AND NOT (push_bit 32 (mask 32))) OR push_bit 32 ?hi"
    using timer_half_write [OF assms(4,5), of data2 d] assms(6) by auto
  obtain e2 where e2: "clint_write_impl o1 data1 l1 e1 = (Okay, e2)"
    "cl_compare e2 = (cl_compare e1 AND NOT (mask 32)) OR ?lo"
    using timer_half_write [OF assms(1,2), of data1 e1] assms(3) by auto
  have "cl_compare d2 = push_bit 32 ?hi OR ?lo"
    unfolding d2(2) d1(2) by (rule bit_word_eqI) (auto simp: bit_simps dest: lo hi)
  moreover have "cl_compare e2 = push_bit 32 ?hi OR ?lo"
    unfolding e2(2) e1(2) by (rule bit_word_eqI) (auto simp: bit_simps dest: lo hi)
  moreover obtain out where "clint_read_impl o3 data3 l3 d2 = (Okay, out, d2)" "acc_get out a3 = cl_compare d2"
    using timer_full_read [OF assms(7-10)] by blast
  ultimately show ?thesis using d1 d2 e1 e2 by blast
qed

theorem clint_compare_halves_witness:
  "\<exists>d1 d2 out. clint_write_impl 0x4000 [1, 2, 3, 4] [1, 1, 1, 1] (projr (clint_new 1)) = (Okay, d1) \<and>
    clint_write_impl 0x4004 [5, 0, 0, 0] [1, 1, 1, 1] d1 = (Okay, d2) \<and> cl_compare d2 = 0x504030201 \<and>
    clint_read_impl 0x4000 (replicate 8 0) (replicate 8 1) d2 = (Okay, out, d2)"
proof -
  let ?a1 = "\<lparr>acc_address = 0x4000, acc_lane = 0, acc_size = 4\<rparr>"
  let ?a2 = "\<lparr>acc_address = 0x4004, acc_lane = 0, acc_size = 4\<rparr>"
  let ?a3 = "\<lparr>acc_address = 0x4000, acc_lane = 0, acc_size = 8\<rparr>"
  have a: "access 0x4000 [1, 1, 1, 1] = Some ?a1" "access 0x4004 [1, 1, 1, 1] = Some ?a2"
    "access 0x4000 (replicate 8 1) = Some ?a3"
    and v: "push_bit 32 (acc_get [5, 0, 0, 0] ?a2) OR acc_get [1, 2, 3, 4] ?a1 = 0x504030201"
    by (code_simp, code_simp, code_simp, code_simp)
  have z: "acc_size ?a1 = 4" "acc_address ?a1 = 0x4000" "acc_size ?a2 = 4" "acc_address ?a2 = 0x4004"
    "acc_size ?a3 = 8" "acc_address ?a3 = 0x4000"
    "length (replicate 8 (1 :: u8)) = length (replicate 8 (0 :: u8))" by simp_all
  show ?thesis
    using clint_compare_halves [OF a(1) z(1,2) a(2) z(3,4) a(3) z(5-7),
        of "[1, 2, 3, 4]" "projr (clint_new 1)" "[5, 0, 0, 0]"]
    unfolding v by blast
qed


text \<open>Two sources pending, the second with the higher priority.\<close>

definition example_plic :: plic where
  "example_plic = \<lparr>pl_sources = 2, pl_contexts = 1, pl_inputs = replicate 3 \<lparr>in_width = 1, in_source = None\<rparr>,
     pl_irqs = [\<lparr>sig_width = 1, sig_value = 1\<rparr>], pl_priority = [0, 1, 5], pl_threshold = [0],
     pl_enables = [6 # replicate 31 0], pl_pending = [False, True, True], pl_busy = [False, True, True]\<rparr>"

lemma example_plic_facts:
  "plic_wf example_plic" "claim_address 0x200004 example_plic" "pl_sources example_plic = 2"
  "claim_context 0x200004 = 0" "plic_best example_plic 0 = 2"
proof -
  have u: "[Suc 0..<3] = [1, 2 :: nat]" by code_simp
  show "plic_wf example_plic" "claim_address 0x200004 example_plic" "pl_sources example_plic = 2"
    "claim_context 0x200004 = 0"
    by (simp_all add: plic_wf_def example_plic_def claim_address_def claim_context_def)
  show "plic_best example_plic 0 = 2"
    by (simp add: plic_best_def example_plic_def plic_enabled_def u)
qed




end
