(* ===== verification/Device_Dispatch.thy ===== *)
theory Device_Dispatch
  imports Memory_Devices Uart Interrupt_Devices
begin

text \<open>
  The virtual functions of \<^verbatim>\<open>class Device\<close> as dispatch over the device types of the repository, with the
  defaults of the base class (\<^verbatim>\<open>src/device.hpp\<close>) where a type does not override them. The devices live in
  a list, the heap; a \<^verbatim>\<open>Device *\<close> is an index into it. The dispatched hooks satisfy the contract
  \<open>bus_device\<close> because every type does.
\<close>

datatype device =
    DRom rom
  | DRam ram
  | DUart uart
  | DExit exit_device
  | DClint clint
  | DPlic plic

type_synonym heap = "device list"

definition wrap_read :: "('d \<Rightarrow> device) \<Rightarrow> response \<times> u8 list \<times> 'd \<Rightarrow> response \<times> u8 list \<times> device" where
  "wrap_read mk x = (case x of (r, data, d) \<Rightarrow> (r, data, mk d))"

definition wrap_write :: "('d \<Rightarrow> device) \<Rightarrow> response \<times> 'd \<Rightarrow> response \<times> device" where
  "wrap_write mk x = (case x of (r, d) \<Rightarrow> (r, mk d))"

fun dev_read_impl :: "device read_hook" where
  "dev_read_impl offset data enable (DRom d) = wrap_read DRom (rom_read_impl offset data enable d)"
| "dev_read_impl offset data enable (DRam d) = wrap_read DRam (ram_read_impl offset data enable d)"
| "dev_read_impl offset data enable (DUart d) = wrap_read DUart (uart_read_impl offset data enable d)"
| "dev_read_impl offset data enable (DExit d) = wrap_read DExit (exit_read_impl offset data enable d)"
| "dev_read_impl offset data enable (DClint d) = wrap_read DClint (clint_read_impl offset data enable d)"
| "dev_read_impl offset data enable (DPlic d) = wrap_read DPlic (plic_read_impl offset data enable d)"

fun dev_write_impl :: "(signal_ref \<Rightarrow> u64) \<Rightarrow> device write_hook" where
  "dev_write_impl sigma offset data strobe (DRom d) = wrap_write DRom (rom_write_impl offset data strobe d)"
| "dev_write_impl sigma offset data strobe (DRam d) = wrap_write DRam (ram_write_impl offset data strobe d)"
| "dev_write_impl sigma offset data strobe (DUart d) = wrap_write DUart (uart_write_impl offset data strobe d)"
| "dev_write_impl sigma offset data strobe (DExit d) = wrap_write DExit (exit_write_impl offset data strobe d)"
| "dev_write_impl sigma offset data strobe (DClint d) = wrap_write DClint (clint_write_impl offset data strobe d)"
| "dev_write_impl sigma offset data strobe (DPlic d) = wrap_write DPlic (plic_write_impl sigma offset data strobe d)"

fun dev_load :: "u64 \<Rightarrow> u8 list \<Rightarrow> device \<Rightarrow> response \<times> device" where
  "dev_load offset data (DRom d) = wrap_write DRom (rom_load offset data d)"
| "dev_load offset data (DRam d) = wrap_write DRam (ram_load offset data d)"
| "dev_load offset data d = (SlaveError, d)"

fun dev_loadable :: "device \<Rightarrow> bool" where
  "dev_loadable (DRom d) = True"
| "dev_loadable (DRam d) = True"
| "dev_loadable d = False"

fun dev_can_load :: "u64 \<Rightarrow> u64 \<Rightarrow> device \<Rightarrow> bool" where
  "dev_can_load offset sz (DRom d) = rom_can_load offset sz d"
| "dev_can_load offset sz (DRam d) = ram_can_load offset sz d"
| "dev_can_load offset sz d = False"

fun dev_supports_exclusive :: "device \<Rightarrow> bool" where
  "dev_supports_exclusive (DRam d) = True"
| "dev_supports_exclusive d = False"

fun dev_supports_burst :: "device \<Rightarrow> bool" where
  "dev_supports_burst (DRom d) = True"
| "dev_supports_burst (DRam d) = True"
| "dev_supports_burst d = False"

fun dev_is_exit :: "device \<Rightarrow> bool" where
  "dev_is_exit (DExit d) = True"
| "dev_is_exit d = False"

fun dev_exit_code :: "device \<Rightarrow> u32" where
  "dev_exit_code (DExit d) = ex_code d"
| "dev_exit_code d = 0"

fun dev_reset :: "device \<Rightarrow> device" where
  "dev_reset (DUart d) = DUart (uart_reset d)"
| "dev_reset (DExit d) = DExit (exit_clear d)"
| "dev_reset (DClint d) = DClint (clint_reset d)"
| "dev_reset (DPlic d) = DPlic (plic_reset d)"
| "dev_reset d = d"

fun dev_tick :: "device \<Rightarrow> device" where
  "dev_tick (DUart d) = DUart (uart_tick d)"
| "dev_tick (DClint d) = DClint (clint_tick d)"
| "dev_tick d = d"

fun dev_settle :: "(signal_ref \<Rightarrow> u64) \<Rightarrow> device \<Rightarrow> device" where
  "dev_settle sigma (DUart d) = DUart (uart_settle d)"
| "dev_settle sigma (DClint d) = DClint (clint_settle d)"
| "dev_settle sigma (DPlic d) = DPlic (plic_settle sigma d)"
| "dev_settle sigma d = d"

fun dev_output :: "string \<Rightarrow> device \<Rightarrow> signal option" where
  "dev_output name (DUart d) = (if name = ''irq'' then Some (ua_irq d) else None)"
| "dev_output name (DClint d) = clint_output name d"
| "dev_output name (DPlic d) = plic_output name d"
| "dev_output name d = None"

text \<open>\<^verbatim>\<open>input(name)\<close> returns the port; a connection stores its source through the returned pointer.\<close>

fun dev_input :: "string \<Rightarrow> device \<Rightarrow> input_signal option" where
  "dev_input name (DPlic d) =
     (case plic_input name d of None \<Rightarrow> None | Some i \<Rightarrow> Some (pl_inputs d ! i))"
| "dev_input name d = None"

fun dev_set_input :: "string \<Rightarrow> signal_ref \<Rightarrow> device \<Rightarrow> device" where
  "dev_set_input name src (DPlic d) =
     (case plic_input name d of
        None \<Rightarrow> DPlic d
      | Some i \<Rightarrow> DPlic (d\<lparr>pl_inputs := (pl_inputs d)[i := (pl_inputs d ! i)\<lparr>in_source := Some src\<rparr>]\<rparr>))"
| "dev_set_input name src d = d"

text \<open>The value behind a \<^verbatim>\<open>const Signal *\<close>.\<close>

definition heap_signal :: "heap \<Rightarrow> signal_ref \<Rightarrow> u64" where
  "heap_signal h ref =
     (if fst ref < length h
      then (case dev_output (snd ref) (h ! fst ref) of None \<Rightarrow> 0 | Some s \<Rightarrow> sig_value s) else 0)"

section \<open>The dispatched hooks keep the contract\<close>

fun dev_wf :: "device \<Rightarrow> bool" where
  "dev_wf (DRom d) = rom_wf d"
| "dev_wf (DRam d) = ram_wf d"
| "dev_wf (DUart d) = uart_wf d"
| "dev_wf (DExit d) = True"
| "dev_wf (DClint d) = clint_wf d"
| "dev_wf (DPlic d) = plic_wf d"

lemma wrap_read_eq: "wrap_read mk x = (r, data, d) \<longleftrightarrow> (\<exists>e. x = (r, data, e) \<and> d = mk e)"
  by (auto simp: wrap_read_def split: prod.splits)

lemma wrap_write_eq: "wrap_write mk x = (r, d) \<longleftrightarrow> (\<exists>e. x = (r, e) \<and> d = mk e)"
  by (auto simp: wrap_write_def split: prod.splits)

interpretation dev: bus_device dev_read_impl "dev_write_impl sigma" dev_wf for sigma
proof (unfold_locales, goal_cases)
  case (1 d enable data offset r data' d')
  then show ?case
    by (cases d) (auto simp: wrap_read_eq dest: rom_dev.read_length ram_dev.read_length uart_dev.read_length
        exit_dev.read_length [OF TrueI] clint_dev.read_length plic_dev.read_length)
next
  case (2 d enable data offset r data' d' l)
  then show ?case
    by (cases d) (auto simp: wrap_read_eq dest: rom_dev.read_disabled ram_dev.read_disabled
        uart_dev.read_disabled exit_dev.read_disabled [OF TrueI] clint_dev.read_disabled plic_dev.read_disabled)
next
  case (3 d enable data offset r data' d')
  then show ?case
    by (cases d) (auto simp: wrap_read_eq dest: rom_dev.read_wf ram_dev.read_wf uart_dev.read_wf
        clint_dev.read_wf plic_dev.read_wf)
next
  case (4 offset data enable d r data' d')
  then show ?case
    by (cases d) (auto simp: wrap_read_eq dest: rom_dev.read_error ram_dev.read_error uart_dev.read_error
        exit_dev.read_error clint_dev.read_error plic_dev.read_error)
next
  case (5 d strobe data offset r d')
  then show ?case
    by (cases d) (auto simp: wrap_write_eq dest: rom_dev.write_wf ram_dev.write_wf uart_dev.write_wf
        clint_dev.write_wf plic_dev.write_wf)
next
  case (6 offset data strobe d r d')
  then show ?case
    by (cases d) (auto simp: wrap_write_eq dest: rom_dev.write_error ram_dev.write_error uart_dev.write_error
        exit_dev.write_error clint_dev.write_error plic_dev.write_error)
next
  case (7 offset data enable d r data' d')
  then show ?case
    by (cases d) (auto simp: wrap_read_eq dest: rom_dev.read_response ram_dev.read_response uart_dev.read_response
        exit_dev.read_response clint_dev.read_response plic_dev.read_response)
next
  case (8 offset data strobe d r d')
  then show ?case
    by (cases d) (auto simp: wrap_write_eq dest: rom_dev.write_response ram_dev.write_response
        uart_dev.write_response exit_dev.write_response clint_dev.write_response plic_dev.write_response)
qed

section \<open>Operations outside the bus contract keep well-formedness\<close>

lemma dev_reset_wf: "dev_wf d \<Longrightarrow> dev_wf (dev_reset d)"
  by (cases d) (auto simp: uart_reset_wf plic_reset_wf clint_reset_def clint_wf_def)

lemma dev_tick_wf: "dev_wf d \<Longrightarrow> dev_wf (dev_tick d)"
  by (cases d) (auto simp: uart_tick_keeps clint_tick_wf)

lemma dev_settle_wf: "dev_wf d \<Longrightarrow> dev_wf (dev_settle sigma d)"
  by (cases d) (auto simp: plic_settle_facts(1))

lemma dev_load_wf: "dev_wf d \<Longrightarrow> dev_load offset data d = (r, d') \<Longrightarrow> dev_wf d'"
  by (cases d) (auto simp: wrap_write_eq rom_load_def ram_load_def rom_wf_def rom_size_def ram_wf_def split: if_splits)

lemma dev_set_input_wf: "dev_wf d \<Longrightarrow> dev_wf (dev_set_input name src d)"
  by (cases d) (auto simp: plic_wf_def split: option.splits)

text \<open>Bus accesses and resets change neither the type of a device, hence no capability flag, nor the wiring of its inputs.\<close>

definition same_kind :: "device \<Rightarrow> device \<Rightarrow> bool" where
  "same_kind d e \<longleftrightarrow>
     (case (d, e) of
        (DRom _, DRom _) \<Rightarrow> True | (DRam _, DRam _) \<Rightarrow> True | (DUart _, DUart _) \<Rightarrow> True
      | (DExit _, DExit _) \<Rightarrow> True | (DClint _, DClint _) \<Rightarrow> True | (DPlic a, DPlic b) \<Rightarrow> pl_inputs b = pl_inputs a | _ \<Rightarrow> False)"

lemma same_kind_refl [simp]: "same_kind d d"
  by (cases d) (simp_all add: same_kind_def)

lemma same_kind_trans: "same_kind a b \<Longrightarrow> same_kind b c \<Longrightarrow> same_kind a c"
  by (cases a; cases b; cases c) (simp_all add: same_kind_def)

lemma same_kind_flags:
  assumes "same_kind d e"
  shows "dev_supports_exclusive e = dev_supports_exclusive d" "dev_supports_burst e = dev_supports_burst d"
    "dev_is_exit e = dev_is_exit d" "dev_loadable e = dev_loadable d"
  using assms by (cases d; cases e; simp add: same_kind_def)+

lemma plic_settle_inputs [simp]: "pl_inputs (plic_settle sigma d) = pl_inputs d"
proof -
  have "pl_inputs (fold (\<lambda>i d. if input_value sigma (pl_inputs d ! i) \<noteq> 0 \<and> \<not> pl_busy d ! i
      then d\<lparr>pl_pending := (pl_pending d)[i := True], pl_busy := (pl_busy d)[i := True]\<rparr> else d) is d) = pl_inputs d" for "is"
    by (induction "is" arbitrary: d) simp_all
  then show ?thesis by (simp add: plic_settle_def)
qed

lemma plic_impl_inputs:
  "plic_read_impl offset data enable d = (r, data', d') \<Longrightarrow> pl_inputs d' = pl_inputs d"
  "plic_write_impl sigma offset data strobe d = (r, d') \<Longrightarrow> pl_inputs d' = pl_inputs d"
  by (auto simp: plic_read_impl_def plic_read_register_def plic_write_impl_def plic_write_register_def Let_def split: option.splits if_splits)

lemma dev_read_impl_kind: "dev_read_impl offset data enable d = (r, data', d') \<Longrightarrow> same_kind d d'"
  by (cases d) (auto simp: wrap_read_eq same_kind_def plic_impl_inputs)

lemma dev_write_impl_kind: "dev_write_impl sigma offset data strobe d = (r, d') \<Longrightarrow> same_kind d d'"
  by (cases d) (auto simp: wrap_write_eq same_kind_def plic_impl_inputs)

lemma dev_reset_kind: "same_kind d (dev_reset d)"
  by (cases d) (auto simp: same_kind_def plic_reset_def)

end
