(* ===== verification/Address_Space.thy ===== *)
theory Address_Space
  imports Device_Dispatch
begin

text \<open>
  \<^verbatim>\<open>AddressSpace\<close> (\<^verbatim>\<open>src/device.hpp\<close>, \<^verbatim>\<open>src/devices.cpp\<close>): a sorted vector of disjoint, non-owning windows onto
  devices. A \<^verbatim>\<open>const Mapping *\<close> is an index into the vector. \<^verbatim>\<open>std::ranges::lower_bound\<close> and \<^verbatim>\<open>upper_bound\<close>
  on the sorted vector are the lengths of the prefixes below the sought address.
\<close>

record mapping =
  mp_base :: u64
  mp_size :: u64
  mp_device :: nat
  mp_name :: string

definition mp_end :: "mapping \<Rightarrow> u64" where
  "mp_end m = mp_base m + mp_size m"

record address_space =
  as_mappings :: "mapping list"
  as_frozen :: bool

definition as_new :: address_space where
  "as_new = \<lparr>as_mappings = [], as_frozen = False\<rparr>"

definition as_freeze :: "address_space \<Rightarrow> address_space" where
  "as_freeze s = s\<lparr>as_frozen := True\<rparr>"

definition lower_bound :: "mapping list \<Rightarrow> u64 \<Rightarrow> nat" where
  "lower_bound ms a = length (takeWhile (\<lambda>m. mp_base m < a) ms)"

definition upper_bound :: "mapping list \<Rightarrow> u64 \<Rightarrow> nat" where
  "upper_bound ms a = length (takeWhile (\<lambda>m. mp_base m \<le> a) ms)"

definition as_map :: "u64 \<Rightarrow> u64 \<Rightarrow> nat \<Rightarrow> string \<Rightarrow> address_space \<Rightarrow> address_space result" where
  "as_map base sz dev name s =
     (if as_frozen s then Inl (LogicError ''address space is frozen'')
      else if sz = 0 then Inl (InvalidArgument ''address-space mapping must not be empty'')
      else if sz > 0xFFFFFFFFFFFFFFFF - base
      then Inl (InvalidArgument ''address-space mapping overflows uint64_t'')
      else
        (let ms = as_mappings s;
             end_address = base + sz;
             position = lower_bound ms base
         in if position \<noteq> 0 \<and> mp_end (ms ! (position - 1)) > base
            then Inl (InvalidArgument ''address-space mappings overlap'')
            else if position \<noteq> length ms \<and> end_address > mp_base (ms ! position)
            then Inl (InvalidArgument ''address-space mappings overlap'')
            else Inr (s\<lparr>as_mappings := take position ms @
                   \<lparr>mp_base = base, mp_size = sz, mp_device = dev, mp_name = name\<rparr> # drop position ms\<rparr>)))"

definition as_resolve :: "address_space \<Rightarrow> u64 \<Rightarrow> u64 \<Rightarrow> nat option" where
  "as_resolve s address len =
     (let ms = as_mappings s
      in if len = 0 \<or> ms = [] then None
         else
           (let position = upper_bound ms address
            in if position = 0 then None
               else
                 (let m = ms ! (position - 1)
                  in if address < mp_base m \<or> address \<ge> mp_end m then None
                     else if len > mp_end m - address then None
                     else Some (position - 1))))"

definition resolution_error :: "address_space \<Rightarrow> u64 \<Rightarrow> response" where
  "resolution_error s address =
     (let ms = as_mappings s;
          position = upper_bound ms address
      in if position \<noteq> 0 \<and> address \<ge> mp_base (ms ! (position - 1)) \<and> address < mp_end (ms ! (position - 1))
         then SlaveError else DecodeError)"

definition as_read :: "address_space \<Rightarrow> u64 \<Rightarrow> u8 list \<Rightarrow> u8 list \<Rightarrow> heap \<Rightarrow> (response \<times> u8 list \<times> heap) result" where
  "as_read s address data enable h =
     (if length data \<noteq> length enable
      then Inl (InvalidArgument ''address-space read data/enable size mismatch'')
      else
        (let zeroed = replicate (length data) 0
         in if zeroed = [] then Inr (Okay, zeroed, h)
            else case as_resolve s address (of_nat (length data)) of
                   None \<Rightarrow> Inr (resolution_error s address, zeroed, h)
                 | Some k \<Rightarrow>
                     (let m = as_mappings s ! k
                      in result_bind
                           (device_read dev_read_impl (address - mp_base m) zeroed enable (h ! mp_device m))
                           (\<lambda>(r, out, d). Inr (r, out, h[mp_device m := d])))))"

definition as_write :: "address_space \<Rightarrow> u64 \<Rightarrow> u8 list \<Rightarrow> u8 list \<Rightarrow> heap \<Rightarrow> (response \<times> heap) result" where
  "as_write s address data strobe h =
     (if length data \<noteq> length strobe
      then Inl (InvalidArgument ''address-space write data/strobe size mismatch'')
      else if data = [] then Inr (Okay, h)
      else case as_resolve s address (of_nat (length data)) of
             None \<Rightarrow> Inr (resolution_error s address, h)
           | Some k \<Rightarrow>
               (let m = as_mappings s ! k
                in result_bind
                     (device_write (dev_write_impl (heap_signal h)) (address - mp_base m) data strobe (h ! mp_device m))
                     (\<lambda>(r, d). Inr (r, h[mp_device m := d]))))"

definition as_load :: "address_space \<Rightarrow> u64 \<Rightarrow> u8 list \<Rightarrow> heap \<Rightarrow> response \<times> heap" where
  "as_load s address data h =
     (if data = [] then (Okay, h)
      else case as_resolve s address (of_nat (length data)) of
             None \<Rightarrow> (resolution_error s address, h)
           | Some k \<Rightarrow>
               (let m = as_mappings s ! k; d = h ! mp_device m; offset = address - mp_base m
                in if \<not> dev_loadable d then (SlaveError, h)
                   else if \<not> dev_can_load offset (of_nat (length data)) d then (SlaveError, h)
                   else (case dev_load offset data d of (r, d') \<Rightarrow> (r, h[mp_device m := d']))))"

text \<open>The device behind mapping \<open>index\<close> is reset unless an earlier mapping already named it.\<close>

definition as_reset :: "address_space \<Rightarrow> heap \<Rightarrow> heap" where
  "as_reset s h =
     (let ms = as_mappings s
      in fold (\<lambda>index h. if list_ex (\<lambda>previous. mp_device (ms ! previous) = mp_device (ms ! index)) [0..<index]
                         then h
                         else h[mp_device (ms ! index) := dev_reset (h ! mp_device (ms ! index))])
           [0..<length ms] h)"

section \<open>Windows\<close>

definition mp_from :: "mapping \<Rightarrow> nat" where
  "mp_from m = unat (mp_base m)"

definition mp_to :: "mapping \<Rightarrow> nat" where
  "mp_to m = unat (mp_base m) + unat (mp_size m)"

definition as_wf :: "address_space \<Rightarrow> bool" where
  "as_wf s \<longleftrightarrow>
     list_all (\<lambda>m. mp_from m < mp_to m \<and> mp_to m < 2 ^ 64) (as_mappings s) \<and>
     sorted_wrt (\<lambda>m n. mp_to m \<le> mp_from n) (as_mappings s)"

lemma mp_end_unat: "mp_to m < 2 ^ 64 \<Longrightarrow> unat (mp_end m) = mp_to m"
  unfolding mp_end_def mp_to_def by (rule unat_plus_exact) simp

lemma as_wf_nth:
  assumes "as_wf s" and "i < length (as_mappings s)"
  shows "mp_from (as_mappings s ! i) < mp_to (as_mappings s ! i)" "mp_to (as_mappings s ! i) < 2 ^ 64"
    "unat (mp_end (as_mappings s ! i)) = mp_to (as_mappings s ! i)"
  using assms mp_end_unat by (auto simp: as_wf_def list_all_length)

lemma as_wf_order:
  "as_wf s \<Longrightarrow> i < j \<Longrightarrow> j < length (as_mappings s) \<Longrightarrow> mp_to (as_mappings s ! i) \<le> mp_from (as_mappings s ! j)"
  by (simp add: as_wf_def sorted_wrt_iff_nth_less)

lemma as_wf_from_mono:
  assumes "as_wf s" and "i \<le> j" and "j < length (as_mappings s)"
  shows "mp_from (as_mappings s ! i) \<le> mp_from (as_mappings s ! j)"
  using as_wf_order [OF assms(1), of i j] as_wf_nth(1) [OF assms(1), of i] assms
  by (cases "i = j") auto

text \<open>Both searches split the vector at the sought address.\<close>

lemma takeWhile_split:
  assumes "\<And>i j. i \<le> j \<Longrightarrow> j < length xs \<Longrightarrow> P (xs ! j) \<Longrightarrow> P (xs ! i)" and "i < length xs"
  shows "P (xs ! i) \<longleftrightarrow> i < length (takeWhile P xs)"
proof
  assume "i < length (takeWhile P xs)"
  then show "P (xs ! i)" by (metis nth_mem set_takeWhileD takeWhile_nth)
next
  assume p: "P (xs ! i)"
  show "i < length (takeWhile P xs)"
  proof (rule ccontr)
    assume n: "\<not> i < length (takeWhile P xs)"
    then have "length (takeWhile P xs) < length xs" using assms(2) by simp
    then have "\<not> P (xs ! length (takeWhile P xs))" by (rule nth_length_takeWhile)
    then show False using assms(1) [of "length (takeWhile P xs)" i] n p assms(2) by simp
  qed
qed

lemma lower_bound_split:
  assumes "as_wf s" and "i < length (as_mappings s)"
  shows "mp_from (as_mappings s ! i) < unat a \<longleftrightarrow> i < lower_bound (as_mappings s) a"
  unfolding lower_bound_def mp_from_def word_less_nat_alt [symmetric]
  by (rule takeWhile_split [where P = "\<lambda>m. mp_base m < a"])
    (use as_wf_from_mono [OF assms(1)] assms(2) in \<open>auto simp: word_less_nat_alt mp_from_def intro: le_less_trans\<close>)

lemma upper_bound_split:
  assumes "as_wf s" and "i < length (as_mappings s)"
  shows "mp_from (as_mappings s ! i) \<le> unat a \<longleftrightarrow> i < upper_bound (as_mappings s) a"
  unfolding upper_bound_def mp_from_def word_le_nat_alt [symmetric]
  by (rule takeWhile_split [where P = "\<lambda>m. mp_base m \<le> a"])
    (use as_wf_from_mono [OF assms(1)] assms(2) in \<open>auto simp: word_le_nat_alt mp_from_def intro: order_trans\<close>)

lemma bound_le: "lower_bound ms a \<le> length ms" "upper_bound ms a \<le> length ms"
  by (simp_all add: lower_bound_def upper_bound_def length_takeWhile_le)

text \<open>The window an address lies in.\<close>

definition window_of :: "address_space \<Rightarrow> nat \<Rightarrow> nat \<Rightarrow> bool" where
  "window_of s a k \<longleftrightarrow> k < length (as_mappings s) \<and> mp_from (as_mappings s ! k) \<le> a \<and> a < mp_to (as_mappings s ! k)"

lemma window_of_unique:
  assumes "as_wf s" and "window_of s a i" and "window_of s a j"
  shows "i = j"
proof (rule ccontr)
  assume "i \<noteq> j"
  then consider "i < j" | "j < i" by linarith
  then show False
    using as_wf_order [OF assms(1), of i j] as_wf_order [OF assms(1), of j i] assms(2,3)
    by cases (auto simp: window_of_def)
qed

lemma window_of_last:
  assumes "as_wf s" and "window_of s (unat a) k"
  shows "upper_bound (as_mappings s) a = Suc k"
proof -
  let ?u = "upper_bound (as_mappings s) a"
  have k: "k < ?u" using upper_bound_split [OF assms(1), of k a] assms(2) by (simp add: window_of_def)
  have u: "?u - 1 < length (as_mappings s)" using bound_le(2) [of "as_mappings s" a] k by simp
  have "mp_from (as_mappings s ! (?u - 1)) \<le> unat a"
    using upper_bound_split [OF assms(1) u, of a] k by simp
  then have "\<not> k < ?u - 1"
    using as_wf_order [OF assms(1), of k "?u - 1"] u assms(2) by (auto simp: window_of_def)
  then show ?thesis using k by simp
qed

lemma candidate_window:
  assumes "as_wf s" and "upper_bound (as_mappings s) a \<noteq> 0"
  defines "k \<equiv> upper_bound (as_mappings s) a - 1"
  shows "k < length (as_mappings s)"
    and "a \<ge> mp_base (as_mappings s ! k) \<and> a < mp_end (as_mappings s ! k) \<longleftrightarrow> window_of s (unat a) k"
proof -
  show k: "k < length (as_mappings s)" using assms(2) bound_le(2) [of "as_mappings s" a] by (simp add: k_def)
  show "a \<ge> mp_base (as_mappings s ! k) \<and> a < mp_end (as_mappings s ! k) \<longleftrightarrow> window_of s (unat a) k"
    using k as_wf_nth(3) [OF assms(1) k] by (simp add: window_of_def word_le_nat_alt word_less_nat_alt mp_from_def)
qed

lemma resolution_error_iff:
  assumes "as_wf s"
  shows "resolution_error s a = (if \<exists>k. window_of s (unat a) k then SlaveError else DecodeError)"
proof (cases "\<exists>k. window_of s (unat a) k")
  case True
  then obtain k where k: "window_of s (unat a) k" by blast
  have "upper_bound (as_mappings s) a = Suc k" by (rule window_of_last [OF assms k])
  then show ?thesis
    using True k candidate_window(2) [OF assms, of a] by (simp add: resolution_error_def Let_def)
next
  case False
  then show ?thesis
    using candidate_window(2) [OF assms, of a] by (auto simp: resolution_error_def Let_def)
qed

lemma as_resolve_iff:
  assumes "as_wf s"
  shows "as_resolve s a len = Some k \<longleftrightarrow>
    0 < unat len \<and> window_of s (unat a) k \<and> unat a + unat len \<le> mp_to (as_mappings s ! k)"
proof -
  let ?u = "upper_bound (as_mappings s) a"
  have fit: "len > mp_end (as_mappings s ! i) - a \<longleftrightarrow> \<not> unat a + unat len \<le> mp_to (as_mappings s ! i)"
    if "window_of s (unat a) i" for i
  proof -
    have "unat (mp_end (as_mappings s ! i)) = mp_to (as_mappings s ! i)"
      using that as_wf_nth(3) [OF assms] by (simp add: window_of_def)
    then show ?thesis
      using that by (auto simp: window_of_def word_less_nat_alt word_le_nat_alt unat_sub)
  qed
  show ?thesis
  proof (cases "?u = 0")
    case True
    then show ?thesis
      using window_of_last [OF assms, of a k] by (auto simp: as_resolve_def Let_def)
  next
    case False
    have "as_resolve s a len = Some k \<longleftrightarrow>
        len \<noteq> 0 \<and> k = ?u - 1 \<and> window_of s (unat a) (?u - 1) \<and> \<not> len > mp_end (as_mappings s ! (?u - 1)) - a"
      using candidate_window [OF assms False] False
      by (auto simp: as_resolve_def Let_def not_less not_le)
    also have "\<dots> \<longleftrightarrow> 0 < unat len \<and> window_of s (unat a) k \<and> unat a + unat len \<le> mp_to (as_mappings s ! k)"
      using fit window_of_last [OF assms, of a k] by (auto simp: unat_gt_0)
    finally show ?thesis .
  qed
qed

section \<open>Mapping a window\<close>

lemma as_map_position:
  assumes "as_wf s" and "unat base + unat sz < 2 ^ 64" and "sz \<noteq> 0"
  defines "p \<equiv> lower_bound (as_mappings s) base"
  shows "(p \<noteq> 0 \<longrightarrow> \<not> mp_end (as_mappings s ! (p - 1)) > base) \<and>
      (p \<noteq> length (as_mappings s) \<longrightarrow> \<not> base + sz > mp_base (as_mappings s ! p)) \<longleftrightarrow>
    (\<forall>i<length (as_mappings s). if i < p then mp_to (as_mappings s ! i) \<le> unat base
      else unat base + unat sz \<le> mp_from (as_mappings s ! i))"
proof -
  let ?ms = "as_mappings s"
  have p: "p \<le> length ?ms" by (simp add: p_def bound_le)
  have e: "unat (base + sz) = unat base + unat sz" using assms(2) by (intro unat_plus_exact) simp
  have prev: "mp_end (?ms ! (p - 1)) > base \<longleftrightarrow> unat base < mp_to (?ms ! (p - 1))" if "p \<noteq> 0"
    using as_wf_nth(3) [OF assms(1), of "p - 1"] that p by (simp add: word_less_nat_alt)
  have nxt: "base + sz > mp_base (?ms ! p) \<longleftrightarrow> mp_from (?ms ! p) < unat base + unat sz"
    using e by (simp add: word_less_nat_alt mp_from_def)
  have lo: "mp_to (?ms ! i) \<le> mp_to (?ms ! (p - 1))" if "i < p" for i
  proof (cases "i = p - 1")
    case False
    then have "i < p - 1" "p - 1 < length ?ms" using that p by simp_all
    then show ?thesis
      using as_wf_order [OF assms(1), of i "p - 1"] as_wf_nth(1) [OF assms(1), of "p - 1"] by linarith
  qed simp
  have hi: "mp_from (?ms ! p) \<le> mp_from (?ms ! i)" if "p \<le> i" "i < length ?ms" for i
    using as_wf_from_mono [OF assms(1) that] .
  show ?thesis
  proof (intro iffI conjI impI allI)
    fix i
    assume h: "(p \<noteq> 0 \<longrightarrow> \<not> mp_end (?ms ! (p - 1)) > base) \<and>
      (p \<noteq> length ?ms \<longrightarrow> \<not> base + sz > mp_base (?ms ! p))" and i: "i < length ?ms"
    show "if i < p then mp_to (?ms ! i) \<le> unat base else unat base + unat sz \<le> mp_from (?ms ! i)"
    proof (cases "i < p")
      case True
      then show ?thesis using h prev lo [OF True] by simp
    next
      case False
      then show ?thesis using h nxt hi [of i] i p by simp
    qed
  next
    assume h: "\<forall>i<length ?ms. if i < p then mp_to (?ms ! i) \<le> unat base
      else unat base + unat sz \<le> mp_from (?ms ! i)"
    {
      assume "p \<noteq> 0"
      then have "mp_to (?ms ! (p - 1)) \<le> unat base" using h p by (metis Suc_pred' diff_less less_numeral_extra(1) neq0_conv order_less_le_trans)
      then show "\<not> mp_end (?ms ! (p - 1)) > base" using prev [OF \<open>p \<noteq> 0\<close>] by simp
    next
      assume "p \<noteq> length ?ms"
      then have "unat base + unat sz \<le> mp_from (?ms ! p)" using h p by (metis le_neq_implies_less less_irrefl)
      then show "\<not> base + sz > mp_base (?ms ! p)" using nxt by simp
    }
  qed
qed

text \<open>Once the vector is split at the new base, being on the right side is being disjoint.\<close>

lemma as_map_disjoint:
  assumes "as_wf s" and "0 < unat sz" and "i < length (as_mappings s)"
  shows "(if i < lower_bound (as_mappings s) base then mp_to (as_mappings s ! i) \<le> unat base
      else unat base + unat sz \<le> mp_from (as_mappings s ! i)) \<longleftrightarrow>
    mp_to (as_mappings s ! i) \<le> unat base \<or> unat base + unat sz \<le> mp_from (as_mappings s ! i)"
  using lower_bound_split [OF assms(1,3), of base] as_wf_nth(1) [OF assms(1,3)] assms(2) by auto

lemma no_overflow_iff: "\<not> sz > 0xFFFFFFFFFFFFFFFF - (base :: u64) \<longleftrightarrow> unat base + unat sz < 2 ^ 64"
proof -
  have u: "unat (0xFFFFFFFFFFFFFFFF :: u64) = 2 ^ 64 - 1" by simp
  have "base \<le> 0xFFFFFFFFFFFFFFFF"
    unfolding word_le_nat_alt u using unat_u64_less [of base] by linarith
  then have "unat (0xFFFFFFFFFFFFFFFF - base) = 2 ^ 64 - 1 - unat base"
    unfolding u [symmetric] by (rule unat_sub)
  then show ?thesis
    unfolding word_less_nat_alt using unat_u64_less [of base] by linarith
qed

lemma as_map_Inr_iff:
  assumes "as_wf s"
  shows "(\<exists>s'. as_map base sz dev name s = Inr s') \<longleftrightarrow>
    \<not> as_frozen s \<and> 0 < unat sz \<and> unat base + unat sz < 2 ^ 64 \<and>
    (\<forall>i<length (as_mappings s). mp_to (as_mappings s ! i) \<le> unat base \<or>
       unat base + unat sz \<le> mp_from (as_mappings s ! i))"
proof (cases "as_frozen s \<or> sz = 0 \<or> \<not> unat base + unat sz < 2 ^ 64")
  case True
  then show ?thesis using no_overflow_iff [of base sz] by (auto simp: as_map_def)
next
  case False
  let ?p = "lower_bound (as_mappings s) base"
  have nz: "0 < unat sz" and ov: "unat base + unat sz < 2 ^ 64" using False by (simp_all add: unat_gt_0)
  have "(\<exists>s'. as_map base sz dev name s = Inr s') \<longleftrightarrow>
      (?p \<noteq> 0 \<longrightarrow> \<not> mp_end (as_mappings s ! (?p - 1)) > base) \<and>
      (?p \<noteq> length (as_mappings s) \<longrightarrow> \<not> base + sz > mp_base (as_mappings s ! ?p))"
    using False no_overflow_iff [of base sz] by (auto simp: as_map_def Let_def)
  then show ?thesis
    using as_map_position [OF assms ov, THEN iffD1] as_map_position [OF assms ov, THEN iffD2]
      as_map_disjoint [OF assms nz, of _ base] False nz ov by metis
qed

lemma as_map_result:
  assumes "as_wf s" and "as_map base sz dev name s = Inr s'"
  defines "p \<equiv> lower_bound (as_mappings s) base"
    and "m \<equiv> \<lparr>mp_base = base, mp_size = sz, mp_device = dev, mp_name = name\<rparr>"
  shows "as_wf s'" and "as_mappings s' = take p (as_mappings s) @ m # drop p (as_mappings s)"
proof -
  let ?ms = "as_mappings s"
  have nz: "sz \<noteq> 0" and ov: "unat base + unat sz < 2 ^ 64"
    and sides: "\<forall>i<length ?ms. if i < p then mp_to (?ms ! i) \<le> unat base else unat base + unat sz \<le> mp_from (?ms ! i)"
    and eq: "as_mappings s' = take p ?ms @ m # drop p ?ms"
  proof -
    show nz: "sz \<noteq> 0" and ov: "unat base + unat sz < 2 ^ 64"
      and "as_mappings s' = take p ?ms @ m # drop p ?ms"
      using assms(2) no_overflow_iff [of base sz]
      by (auto simp: as_map_def Let_def p_def m_def split: if_splits)
    show "\<forall>i<length ?ms. if i < p then mp_to (?ms ! i) \<le> unat base else unat base + unat sz \<le> mp_from (?ms ! i)"
      unfolding p_def
      by (rule as_map_position [OF assms(1) ov nz, THEN iffD1])
        (use assms(2) in \<open>auto simp: as_map_def Let_def split: if_splits\<close>)
  qed
  show "as_mappings s' = take p ?ms @ m # drop p ?ms" by (rule eq)
  have p: "p \<le> length ?ms" by (simp add: p_def bound_le)
  have m: "mp_from m = unat base" "mp_to m = unat base + unat sz" by (simp_all add: m_def mp_from_def mp_to_def)
  have below: "mp_to n \<le> unat base" if "n \<in> set (take p ?ms)" for n
    using that sides by (auto simp: in_set_conv_nth)
  have above: "unat base + unat sz \<le> mp_from n" if "n \<in> set (drop p ?ms)" for n
    using that sides p by (auto simp: in_set_conv_nth split: if_splits)
      (metis add.commute add_diff_cancel_left' le_add1 less_diff_conv not_less)
  have bounds: "mp_from n < mp_to n \<and> mp_to n < 2 ^ 64" if "n \<in> set ?ms" for n
    using that assms(1) by (auto simp: as_wf_def list_all_iff)
  have "sorted_wrt (\<lambda>m n. mp_to m \<le> mp_from n) (take p ?ms)"
    and "sorted_wrt (\<lambda>m n. mp_to m \<le> mp_from n) (drop p ?ms)"
    using assms(1) by (simp_all add: as_wf_def sorted_wrt_take sorted_wrt_drop)
  moreover have "\<forall>x\<in>set (take p ?ms). \<forall>y\<in>set (drop p ?ms). mp_to x \<le> mp_from y"
    using below above by (meson add_leD1 order_trans)
  ultimately show "as_wf s'"
    using below above bounds nz ov
    by (auto simp: as_wf_def eq list_all_iff sorted_wrt_append m unat_gt_0 dest: in_set_takeD in_set_dropD)
qed

section \<open>Accesses\<close>

definition heap_wf :: "heap \<Rightarrow> bool" where
  "heap_wf h \<longleftrightarrow> list_all dev_wf h"

definition devices_ok :: "address_space \<Rightarrow> heap \<Rightarrow> bool" where
  "devices_ok s h \<longleftrightarrow> list_all (\<lambda>m. mp_device m < length h) (as_mappings s)"

text \<open>\<open>heap_step\<close> relates the heap before and after anything the bus does: no device appears, disappears,
  changes type or becomes ill-formed.\<close>

definition heap_step :: "heap \<Rightarrow> heap \<Rightarrow> bool" where
  "heap_step h h' \<longleftrightarrow> length h' = length h \<and> (heap_wf h \<longrightarrow> heap_wf h') \<and> (\<forall>i<length h. same_kind (h ! i) (h' ! i))"

lemma heap_step_refl [simp]: "heap_step h h"
  by (simp add: heap_step_def)

lemma heap_step_trans: "heap_step h h' \<Longrightarrow> heap_step h' h'' \<Longrightarrow> heap_step h h''"
  by (auto simp: heap_step_def intro: same_kind_trans)

lemma heap_step_update:
  "same_kind (h ! i) d \<Longrightarrow> (heap_wf h \<Longrightarrow> i < length h \<Longrightarrow> dev_wf d) \<Longrightarrow> heap_step h (h[i := d])"
  by (cases "i < length h") (auto simp: heap_step_def heap_wf_def list_all_length nth_list_update)

lemma devices_ok_step: "heap_step h h' \<Longrightarrow> devices_ok s h' = devices_ok s h"
  by (simp add: heap_step_def devices_ok_def)

lemma as_read_facts:
  assumes "as_read s a data enable h = Inr (r, out, h')" and "heap_wf h" and "devices_ok s h" and "as_wf s"
  shows "length out = length data \<and> heap_step h h' \<and> (\<not> response_is_success r \<longrightarrow> h' = h \<and> out = replicate (length data) 0)
    \<and> r \<noteq> ExclusiveOkay"
proof (cases "as_resolve s a (of_nat (length data))")
  case None
  then show ?thesis
    using assms(1) by (auto simp: as_read_def resolution_error_def Let_def response_is_success_def split: if_splits)
next
  case (Some k)
  let ?m = "as_mappings s ! k"
  have k: "k < length (as_mappings s)" using Some as_resolve_iff [OF assms(4)] by (auto simp: window_of_def)
  then have i: "mp_device ?m < length h" using assms(3) by (simp add: devices_ok_def list_all_length)
  then have wf: "dev_wf (h ! mp_device ?m)" using assms(2) by (simp add: heap_wf_def list_all_length)
  show ?thesis
  proof (cases "data = []")
    case True
    then show ?thesis using assms(1) by (auto simp: as_read_def response_is_success_def split: if_splits)
  next
    case False
    then obtain d where rd: "device_read dev_read_impl (a - mp_base ?m) (replicate (length data) 0) enable (h ! mp_device ?m)
        = Inr (r, out, d)" and h': "h' = h[mp_device ?m := d]"
    proof -
      have len: "length enable = length data" using assms(1) by (auto simp: as_read_def split: if_splits)
      have "result_bind (device_read dev_read_impl (a - mp_base ?m) (replicate (length data) 0) enable (h ! mp_device ?m))
          (\<lambda>(r, out, d). Inr (r, out, h[mp_device ?m := d])) = Inr (r, out, h')"
        using assms(1) Some False unfolding as_read_def Let_def len by simp
      then show ?thesis using that by (auto split: prod.splits)
    qed
    note f = dev.device_read_facts [OF rd wf]
    have "same_kind (h ! mp_device ?m) d"
      using rd False dev_read_impl_kind by (auto simp: device_read_def Let_def split: if_splits)
    then have "heap_step h h'" unfolding h' using f(2) by (intro heap_step_update)
    moreover have "r \<noteq> Okay \<Longrightarrow> h' = h" using f(4) h' by simp
    ultimately show ?thesis using f by (auto simp: response_is_success_def)
  qed
qed

lemma as_write_facts:
  assumes "as_write s a data strobe h = Inr (r, h')" and "heap_wf h" and "devices_ok s h" and "as_wf s"
  shows "heap_step h h' \<and> (\<not> response_is_success r \<longrightarrow> h' = h) \<and> r \<noteq> ExclusiveOkay"
proof (cases "as_resolve s a (of_nat (length data))")
  case None
  then show ?thesis
    using assms(1) by (auto simp: as_write_def resolution_error_def Let_def split: if_splits)
next
  case (Some k)
  let ?m = "as_mappings s ! k"
  show ?thesis
  proof (cases "data = []")
    case True
    then show ?thesis using assms(1) by (auto simp: as_write_def response_is_success_def split: if_splits)
  next
    case False
    then obtain d where wr: "device_write (dev_write_impl (heap_signal h)) (a - mp_base ?m) data strobe (h ! mp_device ?m)
        = Inr (r, d)" and h': "h' = h[mp_device ?m := d]"
      using assms(1) Some by (auto simp: as_write_def Let_def split: if_splits)
    note f = dev.device_write_facts [OF wr]
    have "same_kind (h ! mp_device ?m) d"
      using wr False dev_write_impl_kind by (auto simp: device_write_def split: if_splits)
    then have "heap_step h h'"
      unfolding h' using f(1) by (intro heap_step_update) (auto simp: heap_wf_def list_all_length)
    moreover have "r \<noteq> Okay \<Longrightarrow> h' = h" using f(3) h' by simp
    ultimately show ?thesis using f(2) by (auto simp: response_is_success_def)
  qed
qed

text \<open>The bus never throws on well-sized accesses.\<close>

lemma as_read_total: "length enable = length data \<Longrightarrow> \<exists>r out h'. as_read s a data enable h = Inr (r, out, h')"
  using dev.device_read_total [of enable "replicate (length data) 0"]
  by (auto simp: as_read_def Let_def split: option.splits)

lemma as_write_total: "length strobe = length data \<Longrightarrow> \<exists>r h'. as_write s a data strobe h = Inr (r, h')"
  using dev.device_write_total [of strobe data "heap_signal h"]
  by (auto simp: as_write_def Let_def split: option.splits)

section \<open>Reset\<close>

lemma as_reset_prefix:
  assumes "devices_ok s h" and "n \<le> length (as_mappings s)"
  defines "h' \<equiv> fold (\<lambda>index h. if list_ex (\<lambda>previous. mp_device (as_mappings s ! previous) =
        mp_device (as_mappings s ! index)) [0..<index] then h
      else h[mp_device (as_mappings s ! index) := dev_reset (h ! mp_device (as_mappings s ! index))]) [0..<n] h"
  shows "length h' = length h \<and> (\<forall>i<length h. h' ! i =
    (if \<exists>k<n. mp_device (as_mappings s ! k) = i then dev_reset (h ! i) else h ! i))"
  using assms(2) unfolding h'_def
proof (induction n)
  case 0
  then show ?case by simp
next
  case (Suc n)
  have "mp_device (as_mappings s ! n) < length h"
    using assms(1) Suc.prems by (simp add: devices_ok_def list_all_length)
  then show ?case
    using Suc by (auto simp: nth_list_update less_Suc_eq list_ex_iff)
qed

lemma as_reset_nth:
  assumes "devices_ok s h"
  shows "length (as_reset s h) = length h"
    and "i < length h \<Longrightarrow> as_reset s h ! i =
      (if \<exists>m\<in>set (as_mappings s). mp_device m = i then dev_reset (h ! i) else h ! i)"
proof -
  have "(\<exists>k<length (as_mappings s). mp_device (as_mappings s ! k) = i) \<longleftrightarrow> (\<exists>m\<in>set (as_mappings s). mp_device m = i)"
    by (metis in_set_conv_nth)
  then show "length (as_reset s h) = length h"
    and "i < length h \<Longrightarrow> as_reset s h ! i =
      (if \<exists>m\<in>set (as_mappings s). mp_device m = i then dev_reset (h ! i) else h ! i)"
    using as_reset_prefix [OF assms order_refl] by (auto simp: as_reset_def Let_def)
qed

lemma as_reset_step: "devices_ok s h \<Longrightarrow> heap_step h (as_reset s h)"
  using as_reset_nth [of s h] by (auto simp: heap_step_def heap_wf_def list_all_length dev_reset_wf dev_reset_kind)

section \<open>Properties\<close>

text \<open>C31: \<^verbatim>\<open>AddressSpace::map\<close> keeps the windows non-empty, disjoint, sorted and below \<open>2\<^sup>6\<^sup>4\<close>, adding exactly the
  requested window; and it accepts a request exactly when the space is not frozen, the window is
  non-empty, does not wrap, and overlaps no existing window, although it only looks at the two neighbours
  of the insertion point.\<close>

theorem as_map_exact:
  assumes "as_wf s"
  shows "((\<exists>s'. as_map base sz dev name s = Inr s') \<longleftrightarrow>
      \<not> as_frozen s \<and> 0 < unat sz \<and> unat base + unat sz < 2 ^ 64 \<and>
      (\<forall>i<length (as_mappings s). mp_to (as_mappings s ! i) \<le> unat base \<or>
         unat base + unat sz \<le> mp_from (as_mappings s ! i))) \<and>
    (\<forall>s'. as_map base sz dev name s = Inr s' \<longrightarrow> as_wf s' \<and> as_frozen s' = as_frozen s \<and>
      set (as_mappings s') =
        insert \<lparr>mp_base = base, mp_size = sz, mp_device = dev, mp_name = name\<rparr> (set (as_mappings s)))"
proof (intro conjI [OF _ allI] impI)
  show "(\<exists>s'. as_map base sz dev name s = Inr s') \<longleftrightarrow>
      \<not> as_frozen s \<and> 0 < unat sz \<and> unat base + unat sz < 2 ^ 64 \<and>
      (\<forall>i<length (as_mappings s). mp_to (as_mappings s ! i) \<le> unat base \<or>
         unat base + unat sz \<le> mp_from (as_mappings s ! i))"
    by (rule as_map_Inr_iff [OF assms])
  fix s'
  assume m: "as_map base sz dev name s = Inr s'"
  have "as_frozen s' = as_frozen s" using m by (auto simp: as_map_def Let_def split: if_splits)
  moreover have "set (take n xs) \<union> set (drop n xs) = set xs" for n :: nat and xs :: "mapping list"
    by (metis append_take_drop_id set_append)
  ultimately show "as_wf s' \<and> as_frozen s' = as_frozen s \<and>
      set (as_mappings s') =
        insert \<lparr>mp_base = base, mp_size = sz, mp_device = dev, mp_name = name\<rparr> (set (as_mappings s))"
    using as_map_result [OF assms m] by auto
qed

definition example_space :: address_space where
  "example_space = \<lparr>as_mappings =
      [\<lparr>mp_base = 0x100, mp_size = 8, mp_device = 0, mp_name = ''ram''\<rparr>,
       \<lparr>mp_base = 0x200, mp_size = 4, mp_device = 1, mp_name = ''exit''\<rparr>], as_frozen = False\<rparr>"

lemma example_space_wf: "as_wf example_space"
  by (simp add: as_wf_def example_space_def mp_from_def mp_to_def)

theorem as_map_exact_witness:
  "\<exists>s'. as_map 0x108 0xf8 2 ''uart'' example_space = Inr s' \<and> as_wf s' \<and> mp_device ` set (as_mappings s') = {0, 1, 2}"
proof -
  have "\<forall>i<length (as_mappings example_space). mp_to (as_mappings example_space ! i) \<le> unat (0x108 :: u64) \<or>
      unat (0x108 :: u64) + unat (0xf8 :: u64) \<le> mp_from (as_mappings example_space ! i)"
    by (auto simp: example_space_def mp_from_def mp_to_def less_Suc_eq)
  then obtain s' where s': "as_map 0x108 0xf8 2 ''uart'' example_space = Inr s'"
    using as_map_exact [OF example_space_wf, where base = "0x108" and sz = "0xf8" and dev = 2 and name = "''uart''"] by (auto simp: example_space_def)
  then show ?thesis
    using as_map_exact [OF example_space_wf, where base = "0x108" and sz = "0xf8" and dev = 2 and name = "''uart''"] by (auto simp: example_space_def)
qed

text \<open>C32: address decoding is exact and isolated. \<^verbatim>\<open>resolve\<close> finds window \<open>k\<close> exactly when the whole range lies
  inside window \<open>k\<close>; windows never compete for an address. A write whose range resolves leaves every device
  but the one behind the window unchanged. A write that does not resolve changes nothing, and is answered
  SLVERR when its first byte lies in some window and DECERR when it lies in none.\<close>

theorem as_write_decodes:
  assumes "as_wf s" and "length strobe = length data" and "0 < length data" and "length data < 2 ^ 64"
    and "as_write s a data strobe h = Inr (r, h')"
  shows "(\<forall>k. as_resolve s a (of_nat (length data)) = Some k \<longleftrightarrow>
        k < length (as_mappings s) \<and> mp_from (as_mappings s ! k) \<le> unat a \<and>
        unat a + length data \<le> mp_to (as_mappings s ! k)) \<and>
    (\<forall>k. as_resolve s a (of_nat (length data)) = Some k \<longrightarrow>
        (\<forall>i. i \<noteq> mp_device (as_mappings s ! k) \<longrightarrow> h' ! i = h ! i)) \<and>
    (as_resolve s a (of_nat (length data)) = None \<longrightarrow> h' = h \<and>
        r = (if \<exists>k. window_of s (unat a) k then SlaveError else DecodeError))"
proof (intro conjI allI impI)
  have len: "unat (of_nat (length data) :: u64) = length data" using assms(4) by (simp add: unat_of_nat_exact)
  show "as_resolve s a (of_nat (length data)) = Some k \<longleftrightarrow>
        k < length (as_mappings s) \<and> mp_from (as_mappings s ! k) \<le> unat a \<and>
        unat a + length data \<le> mp_to (as_mappings s ! k)" for k
    unfolding as_resolve_iff [OF assms(1)] len window_of_def using assms(3) by linarith
  show "h' ! i = h ! i" if "as_resolve s a (of_nat (length data)) = Some k" "i \<noteq> mp_device (as_mappings s ! k)" for k i
    using assms(2,3,5) that by (auto simp: as_write_def Let_def split: if_splits prod.splits)
  assume "as_resolve s a (of_nat (length data)) = None"
  then have "h' = h \<and> r = resolution_error s a"
    using assms(2,3,5) by (auto simp: as_write_def split: if_splits)
  then show "h' = h" and "r = (if \<exists>k. window_of s (unat a) k then SlaveError else DecodeError)"
    using resolution_error_iff [OF assms(1), of a] by simp_all
qed

theorem as_write_decodes_witness:
  "\<exists>h'. as_write example_space 0x202 [1, 2, 3, 4] [1, 1, 1, 1] [DRam example_ram, DExit exit_new] = Inr (SlaveError, h')
     \<and> h' = [DRam example_ram, DExit exit_new]"
proof -
  have len: "length [1, 1, 1, 1 :: u8] = length [1, 2, 3, 4 :: u8]" "0 < length [1, 2, 3, 4 :: u8]"
    "length [1, 2, 3, 4 :: u8] < 2 ^ 64" by simp_all
  obtain r h' where w: "as_write example_space 0x202 [1, 2, 3, 4] [1, 1, 1, 1] [DRam example_ram, DExit exit_new] = Inr (r, h')"
    using as_write_total [OF len(1)] by blast
  note p = as_write_decodes [OF example_space_wf len w]
  have "\<not> (k < length (as_mappings example_space) \<and> mp_from (as_mappings example_space ! k) \<le> unat (0x202 :: u64) \<and>
      unat (0x202 :: u64) + length [1, 2, 3, 4 :: u8] \<le> mp_to (as_mappings example_space ! k))" for k
    by (cases k) (auto simp: example_space_def mp_from_def mp_to_def less_Suc_eq)
  then have none: "as_resolve example_space 0x202 (of_nat (length [1, 2, 3, 4 :: u8])) = None"
    using p by (metis not_None_eq)
  moreover have "window_of example_space (unat (0x202 :: u64)) 1"
    by (simp add: window_of_def example_space_def mp_from_def mp_to_def)
  ultimately show ?thesis using p w by auto
qed

text \<open>Reset reaches every mapped device exactly once, even one that appears behind several windows, and
  touches no other device; storage is not a reset target, so RAM and ROM contents survive.\<close>

theorem as_reset_once:
  assumes "devices_ok s h" and "i < length h"
  shows "as_reset s h ! i = (if \<exists>m\<in>set (as_mappings s). mp_device m = i then dev_reset (h ! i) else h ! i) \<and>
    (\<forall>d. h ! i = DRam d \<longrightarrow> as_reset s h ! i = DRam d) \<and>
    (\<forall>d. h ! i = DRom d \<longrightarrow> as_reset s h ! i = DRom d)"
  using as_reset_nth [OF assms(1)] assms(2) by auto

theorem as_reset_once_witness:
  "as_reset example_space [DRam example_ram, DExit (exit_new\<lparr>ex_code := 7, ex_requested := True\<rparr>)] ! 1 = DExit exit_new"
proof -
  let ?h = "[DRam example_ram, DExit (exit_new\<lparr>ex_code := 7, ex_requested := True\<rparr>)]"
  have ok: "devices_ok example_space ?h" "1 < length ?h"
    by (simp_all add: devices_ok_def example_space_def)
  show ?thesis
    using as_reset_once [OF ok] by (simp add: example_space_def exit_clear_def exit_new_def)
qed

end
