(* ===== verification/Fabric.thy ===== *)
theory Fabric
  imports Burst_Cursor Ring_Buffer Address_Space
begin

text \<open>
  \<^verbatim>\<open>AxiFabric\<close> (\<^verbatim>\<open>src/fabric.hpp\<close>): the multi-port AXI4 slave fabric. Its template parameters are the record
  \<open>fabric_config\<close>, its members the record \<open>fabric\<close>, which also carries the address space and the devices
  the fabric holds references to. Member functions that may throw are \<open>exec\<close> computations, so that the
  state at a throw is observable; a reference into \<^verbatim>\<open>write_routes_.front()\<close> is read, changed and stored
  back at the points where the source changes it. This theory holds the definitions; the invariants and
  properties are in \<open>Fabric_Invariant\<close> and \<open>Fabric_Safety\<close>.
\<close>

section \<open>State\<close>

record fabric_config =
  num_ports :: nat
  address_bits :: nat
  data_bits :: nat
  id_bits :: nat
  address_depth :: nat
  write_data_depth :: nat
  response_depth :: nat
  route_depth :: nat

definition data_bytes :: "fabric_config \<Rightarrow> nat" where
  "data_bytes cfg = data_bits cfg div 8"

text \<open>The static assertions of the class template.\<close>

definition config_ok :: "fabric_config \<Rightarrow> bool" where
  "config_ok cfg \<longleftrightarrow>
     0 < num_ports cfg \<and> (address_bits cfg = 32 \<or> address_bits cfg = 64) \<and>
     (data_bits cfg = 32 \<or> data_bits cfg = 64 \<or> data_bits cfg = 128) \<and>
     1 \<le> id_bits cfg \<and> id_bits cfg \<le> 32 \<and>
     0 < address_depth cfg \<and> 0 < write_data_depth cfg \<and> 0 < response_depth cfg \<and> 0 < route_depth cfg"

record address_watch =
  wa_blocked :: bool
  wa_payload :: address_payload

record write_watch =
  ww_blocked :: bool
  ww_payload :: write_data_payload

record port_state =
  ps_aw :: "address_payload ring_buffer"
  ps_w :: "write_data_payload ring_buffer"
  ps_ar :: "address_payload ring_buffer"
  ps_b :: "write_response_payload ring_buffer"
  ps_r :: "read_data_payload ring_buffer"
  ps_aw_watch :: address_watch
  ps_w_watch :: write_watch
  ps_ar_watch :: address_watch

record route_base =
  rt_port :: nat
  rt_payload :: address_payload
  rt_beat :: nat
  rt_mapping :: "nat option"
  rt_forced :: response
  rt_exclusive :: bool

type_synonym read_route = route_base

record write_route = route_base +
  wr_response :: response
  wr_exit_response :: bool
  wr_exit_code :: u32
  wr_commit_beat :: nat
  wr_data_complete :: bool
  wr_staged_data :: "u8 list list"
  wr_staged_strobe :: "u8 list list"

record exclusive_monitor =
  mo_valid :: bool
  mo_port :: nat
  mo_id :: u64
  mo_payload :: address_payload
  mo_first :: u64
  mo_last :: u64

text \<open>A \<^verbatim>\<open>double\<close> argument: every finite one is a rational number.\<close>

datatype double = Finite rat | Infinite | NotANumber

record fabric =
  fa_space :: address_space
  fa_heap :: heap
  fa_reset_devices :: bool
  fa_ports :: "port_state list"
  fa_outputs :: "slave_signals list"
  fa_read_routes :: "read_route ring_buffer"
  fa_write_routes :: "write_route ring_buffer"
  fa_monitors :: "exclusive_monitor list"
  fa_next_aw_port :: nat
  fa_next_ar_port :: nat
  fa_cycle :: u64
  fa_random_state :: u64
  fa_stall_probability :: rat
  fa_was_reset :: bool
  fa_suppress_read :: bool
  fa_exit_completed :: bool
  fa_exit_code :: u32

definition no_address_watch :: address_watch where
  "no_address_watch = \<lparr>wa_blocked = False, wa_payload = default_address_payload\<rparr>"

definition no_write_watch :: "nat \<Rightarrow> write_watch" where
  "no_write_watch db = \<lparr>ww_blocked = False, ww_payload = default_write_data db\<rparr>"

definition default_read_route :: read_route where
  "default_read_route = \<lparr>rt_port = 0, rt_payload = default_address_payload, rt_beat = 0, rt_mapping = None,
     rt_forced = Okay, rt_exclusive = False\<rparr>"

definition default_write_route :: "nat \<Rightarrow> write_route" where
  "default_write_route db = \<lparr>rt_port = 0, rt_payload = default_address_payload, rt_beat = 0, rt_mapping = None,
     rt_forced = Okay, rt_exclusive = False, wr_response = Okay, wr_exit_response = False, wr_exit_code = 0,
     wr_commit_beat = 0, wr_data_complete = False, wr_staged_data = replicate 256 (replicate db 0),
     wr_staged_strobe = replicate 256 (replicate db 0)\<rparr>"

definition no_monitor :: exclusive_monitor where
  "no_monitor = \<lparr>mo_valid = False, mo_port = 0, mo_id = 0, mo_payload = default_address_payload,
     mo_first = 0, mo_last = 0\<rparr>"

definition new_port :: "fabric_config \<Rightarrow> port_state" where
  "new_port cfg =
     (let db = data_bytes cfg
      in \<lparr>ps_aw = rb_new (address_depth cfg) default_address_payload,
          ps_w = rb_new (write_data_depth cfg) (default_write_data db),
          ps_ar = rb_new (address_depth cfg) default_address_payload,
          ps_b = rb_new (response_depth cfg) default_write_response,
          ps_r = rb_new (response_depth cfg) (default_read_data db),
          ps_aw_watch = no_address_watch, ps_w_watch = no_write_watch db, ps_ar_watch = no_address_watch\<rparr>)"

definition fabric_new :: "fabric_config \<Rightarrow> address_space \<Rightarrow> heap \<Rightarrow> bool \<Rightarrow> fabric" where
  "fabric_new cfg space h reset_devices =
     \<lparr>fa_space = space, fa_heap = h, fa_reset_devices = reset_devices,
      fa_ports = replicate (num_ports cfg) (new_port cfg),
      fa_outputs = replicate (num_ports cfg) (default_slave_signals (data_bytes cfg)),
      fa_read_routes = rb_new (route_depth cfg) default_read_route,
      fa_write_routes = rb_new (route_depth cfg) (default_write_route (data_bytes cfg)),
      fa_monitors = replicate (route_depth cfg) no_monitor,
      fa_next_aw_port = 0, fa_next_ar_port = 0, fa_cycle = 0, fa_random_state = 0x9e3779b97f4a7c15,
      fa_stall_probability = 0, fa_was_reset = False, fa_suppress_read = False,
      fa_exit_completed = False, fa_exit_code = 0\<rparr>"

definition set_seed :: "u64 \<Rightarrow> fabric \<Rightarrow> fabric" where
  "set_seed seed s = s\<lparr>fa_random_state := (if seed = 0 then 0x9e3779b97f4a7c15 else seed)\<rparr>"

fun set_stall_probability :: "double \<Rightarrow> fabric \<Rightarrow> fabric result" where
  "set_stall_probability (Finite p) s =
     (if p < 0 \<or> p > 1 then Inl (InvalidArgument ''stall probability must be in [0, 1]'')
      else Inr (s\<lparr>fa_stall_probability := p\<rparr>))"
| "set_stall_probability _ s = Inl (InvalidArgument ''stall probability must be in [0, 1]'')"

definition clear_exit_completed :: "fabric \<Rightarrow> fabric" where
  "clear_exit_completed s = s\<lparr>fa_exit_completed := False, fa_exit_code := 0\<rparr>"

definition fabric_idle :: "fabric \<Rightarrow> bool" where
  "fabric_idle s \<longleftrightarrow>
     (if \<not> rb_empty (fa_read_routes s) \<or> \<not> rb_empty (fa_write_routes s) then False
      else list_all (\<lambda>p. rb_empty (ps_aw p) \<and> rb_empty (ps_w p) \<and> rb_empty (ps_ar p) \<and>
                         rb_empty (ps_b p) \<and> rb_empty (ps_r p)) (fa_ports s))"

definition upd_port :: "nat \<Rightarrow> (port_state \<Rightarrow> port_state) \<Rightarrow> fabric \<Rightarrow> fabric" where
  "upd_port port f s = s\<lparr>fa_ports := (fa_ports s)[port := f (fa_ports s ! port)]\<rparr>"

section \<open>Driving the slave signals\<close>

definition xorshift :: "u64 \<Rightarrow> u64" where
  "xorshift x =
     (let x1 = x XOR push_bit 13 x;
          x2 = x1 XOR drop_bit 7 x1
      in x2 XOR push_bit 17 x2)"

text \<open>\<^verbatim>\<open>static_cast<double>(UINT64_MAX)\<close> is \<open>2\<^sup>6\<^sup>4\<close>, so the product with a probability is exact.\<close>

definition stall_threshold :: "rat \<Rightarrow> u64" where
  "stall_threshold p = of_int \<lfloor>p * 2 ^ 64\<rfloor>"

definition allow_ready :: "fabric \<Rightarrow> bool \<times> fabric" where
  "allow_ready s =
     (if fa_stall_probability s \<le> 0 then (True, s)
      else if fa_stall_probability s \<ge> 1 then (False, s)
      else (let x = xorshift (fa_random_state s)
            in (x \<ge> stall_threshold (fa_stall_probability s), s\<lparr>fa_random_state := x\<rparr>)))"

text \<open>\<^verbatim>\<open>!full && allow_ready()\<close> draws a random number only when the queue has room.\<close>

definition ready_bit :: "bool \<Rightarrow> fabric \<Rightarrow> bool \<times> fabric" where
  "ready_bit is_full s = (if is_full then (False, s) else allow_ready s)"

definition drive_port :: "nat \<Rightarrow> fabric \<Rightarrow> fabric" where
  "drive_port port s =
     (let st = fa_ports s ! port;
          (awr, s1) = ready_bit (rb_full (ps_aw st)) s;
          (wrdy, s2) = ready_bit (rb_full (ps_w st)) s1;
          (arr, s3) = ready_bit (rb_full (ps_ar st)) s2;
          out = (fa_outputs s3 ! port)\<lparr>aw_ready := awr, w_ready := wrdy, ar_ready := arr\<rparr>;
          out1 = (if \<not> rb_empty (ps_b st) then out\<lparr>b_valid := True, s_b := projr (rb_front (ps_b st))\<rparr> else out);
          out2 = (if \<not> rb_empty (ps_r st) then out1\<lparr>r_valid := True, s_r := projr (rb_front (ps_r st))\<rparr> else out1)
      in s3\<lparr>fa_outputs := (fa_outputs s3)[port := out2]\<rparr>)"

definition drive :: "fabric_config \<Rightarrow> bool \<Rightarrow> fabric \<Rightarrow> fabric" where
  "drive cfg reset_active s =
     (let s0 = s\<lparr>fa_outputs := replicate (num_ports cfg) (default_slave_signals (data_bytes cfg))\<rparr>
      in if reset_active then s0 else fold drive_port [0..<num_ports cfg] s0)"

section \<open>Protocol checks\<close>

definition protocol_error :: "fabric \<Rightarrow> nat \<Rightarrow> string \<Rightarrow> string \<Rightarrow> address_payload option \<Rightarrow> exn" where
  "protocol_error s port channel detail payload =
     ProtocolError
       (''cycle '' @ show_dec (unat (fa_cycle s)) @ '', AXI port '' @ show_dec port @ '', '' @ channel @
        (case payload of
           None \<Rightarrow> ''''
         | Some p \<Rightarrow> '', ID 0x'' @ show_hex (unat (ax_id p)) @ '', address 0x'' @ show_hex (unat (ax_address p))) @
        '': '' @ detail)"

definition check_address_watch ::
  "fabric \<Rightarrow> nat \<Rightarrow> string \<Rightarrow> address_watch \<Rightarrow> bool \<Rightarrow> bool \<Rightarrow> address_payload \<Rightarrow> address_watch result" where
  "check_address_watch s port channel watch valid ready payload =
     (if wa_blocked watch \<and> (\<not> valid \<or> payload \<noteq> wa_payload watch)
      then Inl (protocol_error s port channel ''VALID or payload changed while stalled'' (Some (wa_payload watch)))
      else
        (let watch1 = watch\<lparr>wa_blocked := valid \<and> \<not> ready\<rparr>
         in Inr (if wa_blocked watch1 then watch1\<lparr>wa_payload := payload\<rparr> else watch1)))"

definition check_write_watch ::
  "fabric \<Rightarrow> nat \<Rightarrow> write_watch \<Rightarrow> bool \<Rightarrow> bool \<Rightarrow> write_data_payload \<Rightarrow> write_watch result" where
  "check_write_watch s port watch valid ready payload =
     (if ww_blocked watch \<and> (\<not> valid \<or> payload \<noteq> ww_payload watch)
      then Inl (protocol_error s port ''W'' ''VALID or payload changed while stalled'' None)
      else
        (let watch1 = watch\<lparr>ww_blocked := valid \<and> \<not> ready\<rparr>
         in Inr (if ww_blocked watch1 then watch1\<lparr>ww_payload := payload\<rparr> else watch1)))"

definition check_port_stability :: "master_signals list \<Rightarrow> nat \<Rightarrow> (fabric, unit) exec" where
  "check_port_stability inputs port =
     then_exec
       (read_exec (\<lambda>s. bind_exec
          (lift_result (check_address_watch s port ''AW'' (ps_aw_watch (fa_ports s ! port))
             (aw_valid (inputs ! port)) (aw_ready (fa_outputs s ! port)) (m_aw (inputs ! port))))
          (\<lambda>w. modify_exec (upd_port port (\<lambda>p. p\<lparr>ps_aw_watch := w\<rparr>)))))
       (then_exec
         (read_exec (\<lambda>s. bind_exec
            (lift_result (check_write_watch s port (ps_w_watch (fa_ports s ! port))
               (w_valid (inputs ! port)) (w_ready (fa_outputs s ! port)) (m_w (inputs ! port))))
            (\<lambda>w. modify_exec (upd_port port (\<lambda>p. p\<lparr>ps_w_watch := w\<rparr>)))))
         (read_exec (\<lambda>s. bind_exec
            (lift_result (check_address_watch s port ''AR'' (ps_ar_watch (fa_ports s ! port))
               (ar_valid (inputs ! port)) (ar_ready (fa_outputs s ! port)) (m_ar (inputs ! port))))
            (\<lambda>w. modify_exec (upd_port port (\<lambda>p. p\<lparr>ps_ar_watch := w\<rparr>))))))"

definition check_stability :: "fabric_config \<Rightarrow> master_signals list \<Rightarrow> (fabric, unit) exec" where
  "check_stability cfg inputs = foreach_exec [0..<num_ports cfg] (check_port_stability inputs)"

section \<open>Handshakes\<close>

definition retire_b :: "master_signals list \<Rightarrow> nat \<Rightarrow> (fabric, unit) exec" where
  "retire_b inputs port =
     read_exec (\<lambda>s.
       if b_valid (fa_outputs s ! port) \<and> b_ready (inputs ! port) then
         bind_exec (lift_result (rb_front (ps_b (fa_ports s ! port)))) (\<lambda>front.
           then_exec
             (modify_exec (\<lambda>s. if b_exit_response front \<and> \<not> fa_exit_completed s
                               then s\<lparr>fa_exit_completed := True, fa_exit_code := b_exit_code front\<rparr> else s))
             (bind_exec (lift_result (rb_pop (ps_b (fa_ports s ! port)))) (\<lambda>q.
                modify_exec (upd_port port (\<lambda>p. p\<lparr>ps_b := q\<rparr>)))))
       else return_exec ())"

definition retire_r :: "master_signals list \<Rightarrow> nat \<Rightarrow> (fabric, unit) exec" where
  "retire_r inputs port =
     read_exec (\<lambda>s.
       if r_valid (fa_outputs s ! port) \<and> r_ready (inputs ! port) then
         bind_exec (lift_result (rb_pop (ps_r (fa_ports s ! port)))) (\<lambda>q.
           modify_exec (upd_port port (\<lambda>p. p\<lparr>ps_r := q\<rparr>)))
       else return_exec ())"

definition retire_responses :: "fabric_config \<Rightarrow> master_signals list \<Rightarrow> (fabric, unit) exec" where
  "retire_responses cfg inputs =
     foreach_exec [0..<num_ports cfg] (\<lambda>port. then_exec (retire_b inputs port) (retire_r inputs port))"

definition accept_aw :: "master_signals list \<Rightarrow> nat \<Rightarrow> (fabric, unit) exec" where
  "accept_aw inputs port =
     read_exec (\<lambda>s.
       if aw_valid (inputs ! port) \<and> aw_ready (fa_outputs s ! port) then
         (let (ok, q) = rb_push (m_aw (inputs ! port)) (ps_aw (fa_ports s ! port))
          in if ok then modify_exec (upd_port port (\<lambda>p. p\<lparr>ps_aw := q\<rparr>))
             else throw_exec (protocol_error s port ''AW'' ''internal address FIFO overflow''
                                (Some (m_aw (inputs ! port)))))
       else return_exec ())"

definition accept_w :: "master_signals list \<Rightarrow> nat \<Rightarrow> (fabric, unit) exec" where
  "accept_w inputs port =
     read_exec (\<lambda>s.
       if w_valid (inputs ! port) \<and> w_ready (fa_outputs s ! port) then
         (let (ok, q) = rb_push (m_w (inputs ! port)) (ps_w (fa_ports s ! port))
          in if ok then modify_exec (upd_port port (\<lambda>p. p\<lparr>ps_w := q\<rparr>))
             else throw_exec (protocol_error s port ''W'' ''internal write-data FIFO overflow'' None))
       else return_exec ())"

definition accept_ar :: "master_signals list \<Rightarrow> nat \<Rightarrow> (fabric, unit) exec" where
  "accept_ar inputs port =
     read_exec (\<lambda>s.
       if ar_valid (inputs ! port) \<and> ar_ready (fa_outputs s ! port) then
         (let (ok, q) = rb_push (m_ar (inputs ! port)) (ps_ar (fa_ports s ! port))
          in if ok then modify_exec (upd_port port (\<lambda>p. p\<lparr>ps_ar := q\<rparr>))
             else throw_exec (protocol_error s port ''AR'' ''internal address FIFO overflow''
                                (Some (m_ar (inputs ! port)))))
       else return_exec ())"

definition accept_ingress :: "fabric_config \<Rightarrow> master_signals list \<Rightarrow> (fabric, unit) exec" where
  "accept_ingress cfg inputs =
     foreach_exec [0..<num_ports cfg] (\<lambda>port.
       then_exec (accept_aw inputs port) (then_exec (accept_w inputs port) (accept_ar inputs port)))"

section \<open>Routing\<close>

text \<open>A \<^verbatim>\<open>ProtocolError\<close> of the cursor is rethrown with the port, channel, ID and address.\<close>

definition make_cursor :: "fabric_config \<Rightarrow> fabric \<Rightarrow> nat \<Rightarrow> string \<Rightarrow> address_payload \<Rightarrow> burst_cursor result" where
  "make_cursor cfg s port channel payload =
     (case result_bind (burst_cursor_new (data_bytes cfg) payload) (\<lambda>c.
             result_bind (validate_4k_boundary (data_bytes cfg) c) (\<lambda>_. Inr c)) of
        Inl (ProtocolError what) \<Rightarrow> Inl (protocol_error s port channel what (Some payload))
      | Inl e \<Rightarrow> Inl e
      | Inr c \<Rightarrow> Inr c)"

definition validate_exclusive ::
  "fabric \<Rightarrow> nat \<Rightarrow> string \<Rightarrow> address_payload \<Rightarrow> burst_cursor \<Rightarrow> unit result" where
  "validate_exclusive s port channel payload cursor =
     (let total = bc_beats cursor * bc_beat_bytes cursor
      in throw_if
           (ax_burst payload \<noteq> Increment \<or> bc_beats cursor > 16 \<or> total = 0 \<or> total > 128 \<or>
            (of_nat total :: u64) AND of_nat (total - 1) \<noteq> 0 \<or> ax_address payload AND of_nat (total - 1) \<noteq> 0)
           (protocol_error s port channel ''illegal AXI exclusive transfer shape'' (Some payload)))"

definition address_limit :: "fabric_config \<Rightarrow> u64" where
  "address_limit cfg = (if address_bits cfg < 64 then push_bit (address_bits cfg) 1 - 1 else 0xFFFFFFFFFFFFFFFF)"

text \<open>The body of the lane loop of \<^verbatim>\<open>initialize_route\<close>; the loop state is \<^verbatim>\<open>mapping\<close> and \<^verbatim>\<open>decode_error\<close>.\<close>

definition route_lane ::
  "fabric_config \<Rightarrow> fabric \<Rightarrow> nat \<Rightarrow> string \<Rightarrow> address_payload \<Rightarrow> u64 \<Rightarrow> u8 list \<Rightarrow> nat \<Rightarrow>
   nat option \<times> bool \<Rightarrow> (nat option \<times> bool) result" where
  "route_lane cfg s port channel payload base lanes lane st =
     (case st of (mapped, decode_error) \<Rightarrow>
        if lanes ! lane = 0 then Inr (mapped, decode_error)
        else if base > address_limit cfg \<or> of_nat lane > address_limit cfg - base
        then Inl (protocol_error s port channel ''address overflows configured width'' (Some payload))
        else
          (let current = as_resolve (fa_space s) (base + of_nat lane) 1
           in if current = None \<or> (mapped \<noteq> None \<and> current \<noteq> mapped) then Inr (mapped, True)
              else if mapped = None then Inr (current, decode_error)
              else Inr (mapped, decode_error)))"

definition route_beat ::
  "fabric_config \<Rightarrow> fabric \<Rightarrow> nat \<Rightarrow> string \<Rightarrow> address_payload \<Rightarrow> burst_cursor \<Rightarrow> nat \<Rightarrow>
   nat option \<times> bool \<Rightarrow> (nat option \<times> bool) result" where
  "route_beat cfg s port channel payload cursor beat st =
     result_bind (bus_word_address (data_bytes cfg) cursor beat) (\<lambda>base.
       result_bind (lane_mask (data_bytes cfg) cursor beat) (\<lambda>lanes.
         result_fold (route_lane cfg s port channel payload base lanes) [0..<data_bytes cfg] st))"

definition mapped_device :: "fabric \<Rightarrow> nat \<Rightarrow> device" where
  "mapped_device s k = fa_heap s ! mp_device (as_mappings (fa_space s) ! k)"

definition initialize_route ::
  "fabric_config \<Rightarrow> fabric \<Rightarrow> nat \<Rightarrow> string \<Rightarrow> address_payload \<Rightarrow> 'a route_base_scheme \<Rightarrow> 'a route_base_scheme result" where
  "initialize_route cfg s port channel payload route =
     (let route1 = route\<lparr>rt_port := port, rt_payload := payload, rt_exclusive := ax_lock payload\<rparr>
      in result_bind (make_cursor cfg s port channel payload) (\<lambda>cursor.
           result_bind (result_fold (route_beat cfg s port channel payload cursor) [0..<bc_beats cursor] (None, False))
             (\<lambda>(mapped, decode_error).
               let route2 =
                 (if decode_error \<or> mapped = None then route1\<lparr>rt_mapping := None, rt_forced := DecodeError\<rparr>
                  else if bc_beats cursor > 1 \<and> \<not> dev_supports_burst (mapped_device s (the mapped))
                  then route1\<lparr>rt_mapping := mapped, rt_forced := SlaveError\<rparr>
                  else route1\<lparr>rt_mapping := mapped\<rparr>)
               in if ax_lock payload
                  then result_bind (validate_exclusive s port channel payload cursor) (\<lambda>_.
                         Inr (if rt_mapping route2 = None \<or>
                                 \<not> dev_supports_exclusive (mapped_device s (the (rt_mapping route2)))
                              then route2\<lparr>rt_forced := SlaveError\<rparr> else route2))
                  else Inr route2)))"

text \<open>The round-robin scan: the first port from \<open>next\<close> on whose queue is not empty.\<close>

definition scan_ports :: "fabric_config \<Rightarrow> nat \<Rightarrow> (nat \<Rightarrow> bool) \<Rightarrow> nat option" where
  "scan_ports cfg start waiting =
     (case find (\<lambda>offset. waiting ((start + offset) mod num_ports cfg)) [0..<num_ports cfg] of
        None \<Rightarrow> None
      | Some offset \<Rightarrow> Some ((start + offset) mod num_ports cfg))"

definition arbitrate_aw :: "fabric_config \<Rightarrow> (fabric, unit) exec" where
  "arbitrate_aw cfg =
     read_exec (\<lambda>s.
       if rb_full (fa_write_routes s) then return_exec ()
       else case scan_ports cfg (fa_next_aw_port s) (\<lambda>port. \<not> rb_empty (ps_aw (fa_ports s ! port))) of
              None \<Rightarrow> return_exec ()
            | Some port \<Rightarrow>
                bind_exec (lift_result (rb_front (ps_aw (fa_ports s ! port)))) (\<lambda>payload.
                bind_exec (lift_result
                  (initialize_route cfg s port ''AW'' payload (default_write_route (data_bytes cfg)))) (\<lambda>route.
                bind_exec (lift_result (rb_pop (ps_aw (fa_ports s ! port)))) (\<lambda>q.
                  modify_exec (\<lambda>s. (upd_port port (\<lambda>p. p\<lparr>ps_aw := q\<rparr>) s)
                    \<lparr>fa_write_routes := snd (rb_push route (fa_write_routes s)),
                     fa_next_aw_port := (port + 1) mod num_ports cfg\<rparr>)))))"

definition arbitrate_ar :: "fabric_config \<Rightarrow> (fabric, unit) exec" where
  "arbitrate_ar cfg =
     read_exec (\<lambda>s.
       if rb_full (fa_read_routes s) then return_exec ()
       else case scan_ports cfg (fa_next_ar_port s) (\<lambda>port. \<not> rb_empty (ps_ar (fa_ports s ! port))) of
              None \<Rightarrow> return_exec ()
            | Some port \<Rightarrow>
                bind_exec (lift_result (rb_front (ps_ar (fa_ports s ! port)))) (\<lambda>payload.
                bind_exec (lift_result
                  (initialize_route cfg s port ''AR'' payload default_read_route)) (\<lambda>route.
                bind_exec (lift_result (rb_pop (ps_ar (fa_ports s ! port)))) (\<lambda>q.
                  modify_exec (\<lambda>s. (upd_port port (\<lambda>p. p\<lparr>ps_ar := q\<rparr>) s)
                    \<lparr>fa_read_routes := snd (rb_push route (fa_read_routes s)),
                     fa_next_ar_port := (port + 1) mod num_ports cfg\<rparr>)))))"

definition arbitrate_addresses :: "fabric_config \<Rightarrow> (fabric, unit) exec" where
  "arbitrate_addresses cfg = then_exec (arbitrate_aw cfg) (arbitrate_ar cfg)"

section \<open>Exclusive monitors\<close>

definition find_index :: "('a \<Rightarrow> bool) \<Rightarrow> 'a list \<Rightarrow> nat option" where
  "find_index P xs = find (\<lambda>i. P (xs ! i)) [0..<length xs]"

definition find_monitor :: "nat \<Rightarrow> u64 \<Rightarrow> exclusive_monitor list \<Rightarrow> nat option" where
  "find_monitor port ident ms = find_index (\<lambda>m. mo_valid m \<and> mo_port m = port \<and> mo_id m = ident) ms"

definition clear_monitor :: "nat \<Rightarrow> u64 \<Rightarrow> exclusive_monitor list \<Rightarrow> exclusive_monitor list" where
  "clear_monitor port ident ms =
     (case find_monitor port ident ms of None \<Rightarrow> ms | Some i \<Rightarrow> ms[i := (ms ! i)\<lparr>mo_valid := False\<rparr>])"

definition invalidate_monitors :: "u64 \<Rightarrow> exclusive_monitor list \<Rightarrow> exclusive_monitor list" where
  "invalidate_monitors byte_address ms =
     map (\<lambda>m. if mo_valid m \<and> byte_address \<ge> mo_first m \<and> byte_address < mo_last m
              then m\<lparr>mo_valid := False\<rparr> else m) ms"

definition establish_monitor :: "fabric_config \<Rightarrow> read_route \<Rightarrow> (fabric, unit) exec" where
  "establish_monitor cfg route =
     read_exec (\<lambda>s.
       bind_exec (lift_result (burst_cursor_new (data_bytes cfg) (rt_payload route))) (\<lambda>cursor.
         let total = bc_beats cursor * bc_beat_bytes cursor;
             payload = rt_payload route;
             slot = (case find_monitor (rt_port route) (ax_id payload) (fa_monitors s) of
                       None \<Rightarrow> find_index (\<lambda>m. \<not> mo_valid m) (fa_monitors s)
                     | Some i \<Rightarrow> Some i)
         in case slot of
              None \<Rightarrow> throw_exec (protocol_error s (rt_port route) ''AR'' ''exclusive monitor table exhausted'' (Some payload))
            | Some i \<Rightarrow>
                modify_exec (\<lambda>s. s\<lparr>fa_monitors := (fa_monitors s)[i :=
                  \<lparr>mo_valid = True, mo_port = rt_port route, mo_id = ax_id payload, mo_payload = payload,
                   mo_first = ax_address payload, mo_last = ax_address payload + of_nat total\<rparr>]\<rparr>)))"

section \<open>Reading\<close>

text \<open>\<^verbatim>\<open>enabled_extent\<close>: the first enabled lane and the number of lanes up to the last enabled one.\<close>

definition enabled_extent :: "u8 list \<Rightarrow> nat \<times> nat" where
  "enabled_extent lanes =
     (let (first, last) = fold (\<lambda>i (first, last). if lanes ! i \<noteq> 0 then (min first i, i + 1) else (first, last))
                            [0..<length lanes] (length lanes, 0)
      in if first = length lanes then (0, 0) else (first, last - first))"

definition slice :: "nat \<Rightarrow> nat \<Rightarrow> 'a list \<Rightarrow> 'a list" where
  "slice first count xs = take count (drop first xs)"

text \<open>The device access of one read beat: response, data of the whole bus word, devices afterwards.\<close>

definition read_device_beat ::
  "fabric_config \<Rightarrow> fabric \<Rightarrow> read_route \<Rightarrow> nat \<Rightarrow> burst_cursor \<Rightarrow> (response \<times> u8 list \<times> heap) result" where
  "read_device_beat cfg s route k cursor =
     result_bind (lane_mask (data_bytes cfg) cursor (rt_beat route)) (\<lambda>lanes.
     result_bind (bus_word_address (data_bytes cfg) cursor (rt_beat route)) (\<lambda>base.
       let m = as_mappings (fa_space s) ! k;
           data = replicate (data_bytes cfg) 0;
           (first, count) = enabled_extent lanes
       in if count \<noteq> 0 then
            result_bind (device_read dev_read_impl (base + of_nat first - mp_base m) (slice first count data)
                           (slice first count lanes) (fa_heap s ! mp_device m))
              (\<lambda>(r, out, d). Inr (r, copy_into data first out, (fa_heap s)[mp_device m := d]))
          else Inr (rt_forced route, data, fa_heap s)))"

definition process_read_beat :: "fabric_config \<Rightarrow> (fabric, unit) exec" where
  "process_read_beat cfg =
     read_exec (\<lambda>s0.
       if rb_empty (fa_read_routes s0) then return_exec ()
       else
         bind_exec (lift_result (rb_front (fa_read_routes s0))) (\<lambda>route.
           if rb_full (ps_r (fa_ports s0 ! rt_port route)) then return_exec ()
           else
             bind_exec (lift_result (burst_cursor_new (data_bytes cfg) (rt_payload route))) (\<lambda>cursor.
               then_exec
                 (if rt_exclusive route \<and> rt_beat route = 0 \<and> rt_forced route = Okay
                  then establish_monitor cfg route else return_exec ())
                 (read_exec (\<lambda>s.
                   bind_exec
                     (lift_result
                       (if rt_forced route = Okay \<and> rt_mapping route \<noteq> None
                        then result_bind (read_device_beat cfg s route (the (rt_mapping route)) cursor)
                               (\<lambda>(r, data, h).
                                  Inr (if rt_exclusive route \<and> r = Okay then ExclusiveOkay else r, data, h))
                        else Inr (rt_forced route, replicate (data_bytes cfg) 0, fa_heap s)))
                     (\<lambda>(r, data, h).
                       let beat = \<lparr>r_id = ax_id (rt_payload route), r_data = data, r_response = r,
                                   r_last = (rt_beat route + 1 = bc_beats cursor)\<rparr>;
                           route' = route\<lparr>rt_beat := rt_beat route + 1\<rparr>
                       in then_exec
                            (modify_exec (\<lambda>s. (upd_port (rt_port route)
                                (\<lambda>p. p\<lparr>ps_r := snd (rb_push beat (ps_r p))\<rparr>) s)
                               \<lparr>fa_heap := h, fa_read_routes := rb_set_front route' (fa_read_routes s)\<rparr>))
                            (if rt_beat route' = bc_beats cursor
                             then read_exec (\<lambda>s. bind_exec (lift_result (rb_pop (fa_read_routes s))) (\<lambda>q.
                                    modify_exec (\<lambda>s. s\<lparr>fa_read_routes := q\<rparr>)))
                             else return_exec ())))))))"

section \<open>Writing\<close>

definition complete_write_route :: "write_route \<Rightarrow> (fabric, unit) exec" where
  "complete_write_route route =
     (let response = \<lparr>b_id = ax_id (rt_payload route), b_response = wr_response route,
                      b_exit_response = wr_exit_response route, b_exit_code = wr_exit_code route\<rparr>
      in then_exec
           (modify_exec (upd_port (rt_port route) (\<lambda>p. p\<lparr>ps_b := snd (rb_push response (ps_b p))\<rparr>)))
           (read_exec (\<lambda>s. bind_exec (lift_result (rb_pop (fa_write_routes s))) (\<lambda>q.
              modify_exec (\<lambda>s. s\<lparr>fa_write_routes := q\<rparr>)))))"

text \<open>A change of the route through the reference \<^verbatim>\<open>write_routes_.front()\<close>.\<close>

definition store_route :: "write_route \<Rightarrow> (fabric, unit) exec" where
  "store_route route = modify_exec (\<lambda>s. s\<lparr>fa_write_routes := rb_set_front route (fa_write_routes s)\<rparr>)"

definition write_device_beat ::
  "fabric_config \<Rightarrow> write_route \<Rightarrow> nat \<Rightarrow> burst_cursor \<Rightarrow> nat \<Rightarrow> u8 list \<Rightarrow> u8 list \<Rightarrow>
   (fabric, response \<times> write_route) exec" where
  "write_device_beat cfg route k cursor beat_index data strobe =
     bind_exec (lift_result (bus_word_address (data_bytes cfg) cursor beat_index)) (\<lambda>base.
     bind_exec (lift_result (lane_mask (data_bytes cfg) cursor beat_index)) (\<lambda>lanes.
       let effective = map (\<lambda>lane. if lanes ! lane \<noteq> 0 \<and> strobe ! lane \<noteq> 0 then 1 else 0) [0..<data_bytes cfg];
           (first, count) = enabled_extent lanes
       in if count = 0 then return_exec (Okay, route)
          else
            read_exec (\<lambda>s.
              let m = as_mappings (fa_space s) ! k
              in bind_exec
                   (lift_result (device_write (dev_write_impl (heap_signal (fa_heap s)))
                      (base + of_nat first - mp_base m) (slice first count data) (slice first count effective)
                      (fa_heap s ! mp_device m)))
                   (\<lambda>(response, d).
                     then_exec
                       (modify_exec (\<lambda>s. s\<lparr>fa_heap := (fa_heap s)[mp_device m := d],
                          fa_monitors :=
                            (if response_is_success response
                             then fold (\<lambda>lane ms. if effective ! lane \<noteq> 0
                                                  then invalidate_monitors (base + of_nat lane) ms else ms)
                                    [first..<first + count] (fa_monitors s)
                             else fa_monitors s)\<rparr>))
                       (return_exec
                          (response,
                           if response_is_success response \<and> dev_is_exit d
                           then route\<lparr>wr_exit_response := True, wr_exit_code := dev_exit_code d\<rparr> else route))))))"

text \<open>The gathering loop of \<^verbatim>\<open>finish_exclusive_write\<close>: the burst as one access of at most 128 bytes.\<close>

definition gather_lane ::
  "write_route \<Rightarrow> nat \<Rightarrow> u64 \<Rightarrow> u8 list \<Rightarrow> nat \<Rightarrow> u8 list \<times> u8 list \<Rightarrow> u8 list \<times> u8 list" where
  "gather_lane route beat base lanes lane acc =
     (case acc of (data, strobe) \<Rightarrow>
        if lanes ! lane = 0 then (data, strobe)
        else (let index = unat (base + of_nat lane - ax_address (rt_payload route))
              in (data[index := wr_staged_data route ! beat ! lane],
                  strobe[index := (if wr_staged_strobe route ! beat ! lane \<noteq> 0 then 1 else 0)])))"

definition gather_beat ::
  "fabric_config \<Rightarrow> write_route \<Rightarrow> burst_cursor \<Rightarrow> nat \<Rightarrow> u8 list \<times> u8 list \<Rightarrow> (u8 list \<times> u8 list) result" where
  "gather_beat cfg route cursor beat acc =
     result_bind (bus_word_address (data_bytes cfg) cursor beat) (\<lambda>base.
       result_bind (lane_mask (data_bytes cfg) cursor beat) (\<lambda>lanes.
         Inr (fold (gather_lane route beat base lanes) [0..<data_bytes cfg] acc)))"

definition gather_exclusive :: "fabric_config \<Rightarrow> write_route \<Rightarrow> burst_cursor \<Rightarrow> (u8 list \<times> u8 list) result" where
  "gather_exclusive cfg route cursor =
     result_fold (gather_beat cfg route cursor) [0..<bc_beats cursor] (replicate 128 0, replicate 128 0)"

definition finish_exclusive_write ::
  "fabric_config \<Rightarrow> write_route \<Rightarrow> burst_cursor \<Rightarrow> (fabric, write_route) exec" where
  "finish_exclusive_write cfg route cursor =
     (let payload = rt_payload route;
          release = modify_exec (\<lambda>s. s\<lparr>fa_monitors := clear_monitor (rt_port route) (ax_id payload) (fa_monitors s)\<rparr>)
      in if rt_forced route \<noteq> Okay \<or> rt_mapping route = None
         then then_exec release (return_exec (route\<lparr>wr_response := rt_forced route\<rparr>))
         else
           read_exec (\<lambda>s.
             case find_monitor (rt_port route) (ax_id payload) (fa_monitors s) of
               None \<Rightarrow> then_exec release (return_exec (route\<lparr>wr_response := Okay\<rparr>))
             | Some i \<Rightarrow>
                 if mo_payload (fa_monitors s ! i) \<noteq> payload
                 then then_exec release (return_exec (route\<lparr>wr_response := Okay\<rparr>))
                 else
                   bind_exec (lift_result (gather_exclusive cfg route cursor)) (\<lambda>(data, strobe).
                     let total = bc_beats cursor * bc_beat_bytes cursor;
                         m = as_mappings (fa_space s) ! the (rt_mapping route)
                     in bind_exec
                          (lift_result (device_write (dev_write_impl (heap_signal (fa_heap s)))
                             (ax_address payload - mp_base m) (take total data) (take total strobe)
                             (fa_heap s ! mp_device m)))
                          (\<lambda>(response, d).
                            then_exec
                              (modify_exec (\<lambda>s. s\<lparr>fa_heap := (fa_heap s)[mp_device m := d],
                                 fa_monitors :=
                                   (if response_is_success response
                                    then fold (\<lambda>index ms. if strobe ! index \<noteq> 0
                                                          then invalidate_monitors (ax_address payload + of_nat index) ms else ms)
                                           [0..<total] (fa_monitors s)
                                    else fa_monitors s)\<rparr>))
                              (then_exec release
                                (return_exec (route\<lparr>wr_response :=
                                   (if response_is_success response then ExclusiveOkay else response)\<rparr>)))))))"

definition process_write_commit :: "fabric_config \<Rightarrow> write_route \<Rightarrow> burst_cursor \<Rightarrow> (fabric, unit) exec" where
  "process_write_commit cfg route cursor =
     read_exec (\<lambda>s.
       if rb_full (ps_b (fa_ports s ! rt_port route)) then return_exec ()
       else if rt_exclusive route then
         then_exec (modify_exec (\<lambda>s. s\<lparr>fa_suppress_read := True\<rparr>))
           (bind_exec (finish_exclusive_write cfg route cursor) (\<lambda>route'.
              then_exec (store_route route') (complete_write_route route')))
       else if rt_forced route \<noteq> Okay \<or> rt_mapping route = None then
         (let route' = route\<lparr>wr_response := combine_response (wr_response route) (rt_forced route)\<rparr>
          in then_exec (store_route route') (complete_write_route route'))
       else
         then_exec (modify_exec (\<lambda>s. s\<lparr>fa_suppress_read := True\<rparr>))
           (bind_exec
             (write_device_beat cfg route (the (rt_mapping route)) cursor (wr_commit_beat route)
                (wr_staged_data route ! wr_commit_beat route) (wr_staged_strobe route ! wr_commit_beat route))
             (\<lambda>(response, route1).
               let route2 = route1\<lparr>wr_response := combine_response (wr_response route1) response,
                     wr_commit_beat :=
                       (if response_is_success response then wr_commit_beat route1 + 1 else bc_beats cursor)\<rparr>
               in then_exec (store_route route2)
                    (if wr_commit_beat route2 = bc_beats cursor then complete_write_route route2
                     else return_exec ()))))"

definition process_write_beat :: "fabric_config \<Rightarrow> (fabric, unit) exec" where
  "process_write_beat cfg =
     read_exec (\<lambda>s.
       if rb_empty (fa_write_routes s) then return_exec ()
       else
         bind_exec (lift_result (rb_front (fa_write_routes s))) (\<lambda>route.
         bind_exec (lift_result (burst_cursor_new (data_bytes cfg) (rt_payload route))) (\<lambda>cursor.
           if wr_data_complete route then process_write_commit cfg route cursor
           else
             (let source = ps_w (fa_ports s ! rt_port route);
                  final = (rt_beat route + 1 = bc_beats cursor)
              in if rb_empty source then return_exec ()
                 else
                   bind_exec (lift_result (rb_front source)) (\<lambda>beat.
                     if w_last beat \<noteq> final
                     then throw_exec (protocol_error s (rt_port route) ''W''
                            (if final then ''WLAST missing on final beat'' else ''WLAST asserted before final beat'')
                            (Some (rt_payload route)))
                     else
                       bind_exec (lift_result (lane_mask (data_bytes cfg) cursor (rt_beat route))) (\<lambda>lanes.
                         if list_ex (\<lambda>lane. w_strobe beat ! lane \<noteq> 0 \<and> lanes ! lane = 0) [0..<data_bytes cfg]
                         then throw_exec (protocol_error s (rt_port route) ''W'' ''WSTRB selects an illegal byte lane''
                                (Some (rt_payload route)))
                         else
                           bind_exec (lift_result (rb_pop source)) (\<lambda>q.
                             let route1 = route\<lparr>wr_staged_data := (wr_staged_data route)[rt_beat route := w_data beat],
                                   wr_staged_strobe := (wr_staged_strobe route)[rt_beat route := w_strobe beat],
                                   rt_beat := rt_beat route + 1, wr_data_complete := final\<rparr>
                             in then_exec
                                  (modify_exec (\<lambda>s. (upd_port (rt_port route) (\<lambda>p. p\<lparr>ps_w := q\<rparr>) s)
                                     \<lparr>fa_write_routes := rb_set_front route1 (fa_write_routes s)\<rparr>))
                                  (if \<not> final then return_exec ()
                                   else process_write_commit cfg route1 cursor))))))))"

section \<open>One clock\<close>

definition reset_port :: "fabric_config \<Rightarrow> port_state \<Rightarrow> port_state" where
  "reset_port cfg p = p\<lparr>ps_aw := rb_clear (ps_aw p), ps_w := rb_clear (ps_w p), ps_ar := rb_clear (ps_ar p),
     ps_b := rb_clear (ps_b p), ps_r := rb_clear (ps_r p), ps_aw_watch := no_address_watch,
     ps_w_watch := no_write_watch (data_bytes cfg), ps_ar_watch := no_address_watch\<rparr>"

definition reset_state :: "fabric_config \<Rightarrow> fabric \<Rightarrow> fabric" where
  "reset_state cfg s = s\<lparr>
     fa_ports := map (reset_port cfg) (fa_ports s),
     fa_read_routes := rb_clear (fa_read_routes s),
     fa_write_routes := rb_clear (fa_write_routes s),
     fa_monitors := map (\<lambda>m. no_monitor) (fa_monitors s),
     fa_next_aw_port := 0, fa_next_ar_port := 0, fa_suppress_read := False,
     fa_exit_completed := False, fa_exit_code := 0\<rparr>"

definition commit :: "fabric_config \<Rightarrow> master_signals list \<Rightarrow> bool \<Rightarrow> (fabric, unit) exec" where
  "commit cfg inputs reset_active =
     (if reset_active then
        modify_exec (\<lambda>s.
          let s1 = (if \<not> fa_was_reset s
                    then (let s1 = reset_state cfg s
                          in if fa_reset_devices s1 then s1\<lparr>fa_heap := as_reset (fa_space s1) (fa_heap s1)\<rparr> else s1)
                    else s)
          in s1\<lparr>fa_was_reset := True, fa_cycle := fa_cycle s1 + 1\<rparr>)
      else
        then_exec (modify_exec (\<lambda>s. s\<lparr>fa_was_reset := False\<rparr>))
        (then_exec (check_stability cfg inputs)
        (then_exec (retire_responses cfg inputs)
        (then_exec (accept_ingress cfg inputs)
        (then_exec (arbitrate_addresses cfg)
        (then_exec (modify_exec (\<lambda>s. s\<lparr>fa_suppress_read := False\<rparr>))
        (then_exec (process_write_beat cfg)
        (then_exec (read_exec (\<lambda>s. if \<not> fa_suppress_read s then process_read_beat cfg else return_exec ()))
          (modify_exec (\<lambda>s. s\<lparr>fa_cycle := fa_cycle s + 1\<rparr>))))))))))"

end
