(* ===== verification/Fabric_Invariant.thy ===== *)
theory Fabric_Invariant
  imports Fabric
begin

text \<open>
  The invariant \<open>fabric_wf\<close> of the fabric and its preservation by every phase of \<^verbatim>\<open>commit\<close>, by \<^verbatim>\<open>drive\<close> and by
  reset. Each phase is described by one weakest-precondition lemma that says what it keeps, when it
  throws, and that every exception it throws is a \<^verbatim>\<open>ProtocolError\<close>.
\<close>

section \<open>The invariant\<close>

definition beat_wf :: "nat \<Rightarrow> write_data_payload \<Rightarrow> bool" where
  "beat_wf db b \<longleftrightarrow> length (w_data b) = db \<and> length (w_strobe b) = db"

definition port_wf :: "fabric_config \<Rightarrow> port_state \<Rightarrow> bool" where
  "port_wf cfg p \<longleftrightarrow>
     rb_wf (ps_aw p) \<and> rb_capacity (ps_aw p) = address_depth cfg \<and>
     rb_wf (ps_w p) \<and> rb_capacity (ps_w p) = write_data_depth cfg \<and>
     rb_wf (ps_ar p) \<and> rb_capacity (ps_ar p) = address_depth cfg \<and>
     rb_wf (ps_b p) \<and> rb_capacity (ps_b p) = response_depth cfg \<and>
     rb_wf (ps_r p) \<and> rb_capacity (ps_r p) = response_depth cfg \<and>
     list_all (beat_wf (data_bytes cfg)) (rb_list (ps_w p)) \<and>
     list_all (\<lambda>r. length (r_data r) = data_bytes cfg) (rb_list (ps_r p))"

text \<open>A route's burst has passed the cursor's checks, and its mapping, if any, exists.\<close>

definition valid_burst :: "fabric_config \<Rightarrow> address_payload \<Rightarrow> burst_cursor \<Rightarrow> bool" where
  "valid_burst cfg payload c \<longleftrightarrow>
     burst_cursor_new (data_bytes cfg) payload = Inr c \<and> validate_4k_boundary (data_bytes cfg) c = Inr ()"

definition route_wf :: "fabric_config \<Rightarrow> nat \<Rightarrow> 'a route_base_scheme \<Rightarrow> bool" where
  "route_wf cfg n r \<longleftrightarrow>
     rt_port r < num_ports cfg \<and> (\<exists>c. valid_burst cfg (rt_payload r) c) \<and>
     (case rt_mapping r of None \<Rightarrow> True | Some k \<Rightarrow> k < n)"

definition read_route_wf :: "fabric_config \<Rightarrow> nat \<Rightarrow> read_route \<Rightarrow> bool" where
  "read_route_wf cfg n r \<longleftrightarrow> route_wf cfg n r \<and> rt_beat r \<le> unat (ax_length (rt_payload r))"

text \<open>The strobes of a write beat select only byte lanes the beat may use.\<close>

definition legal_strobe :: "fabric_config \<Rightarrow> address_payload \<Rightarrow> nat \<Rightarrow> u8 list \<Rightarrow> bool" where
  "legal_strobe cfg payload i strobe \<longleftrightarrow>
     (\<forall>c lanes. burst_cursor_new (data_bytes cfg) payload = Inr c \<longrightarrow> lane_mask (data_bytes cfg) c i = Inr lanes \<longrightarrow>
       (\<forall>lane<data_bytes cfg. strobe ! lane \<noteq> 0 \<longrightarrow> lanes ! lane \<noteq> 0))"

definition write_route_wf :: "fabric_config \<Rightarrow> nat \<Rightarrow> write_route \<Rightarrow> bool" where
  "write_route_wf cfg n r \<longleftrightarrow>
     route_wf cfg n r \<and>
     (if wr_data_complete r then rt_beat r = unat (ax_length (rt_payload r)) + 1
      else rt_beat r \<le> unat (ax_length (rt_payload r))) \<and>
     wr_commit_beat r \<le> unat (ax_length (rt_payload r)) \<and>
     length (wr_staged_data r) = 256 \<and> list_all (\<lambda>x. length x = data_bytes cfg) (wr_staged_data r) \<and>
     length (wr_staged_strobe r) = 256 \<and> list_all (\<lambda>x. length x = data_bytes cfg) (wr_staged_strobe r) \<and>
     (\<forall>i<rt_beat r. legal_strobe cfg (rt_payload r) i (wr_staged_strobe r ! i))"

definition fabric_wf :: "fabric_config \<Rightarrow> fabric \<Rightarrow> bool" where
  "fabric_wf cfg s \<longleftrightarrow>
     config_ok cfg \<and> as_wf (fa_space s) \<and> heap_wf (fa_heap s) \<and> devices_ok (fa_space s) (fa_heap s) \<and>
     length (fa_ports s) = num_ports cfg \<and> list_all (port_wf cfg) (fa_ports s) \<and>
     length (fa_outputs s) = num_ports cfg \<and>
     rb_wf (fa_read_routes s) \<and> rb_capacity (fa_read_routes s) = route_depth cfg \<and>
     list_all (read_route_wf cfg (length (as_mappings (fa_space s)))) (rb_list (fa_read_routes s)) \<and>
     rb_wf (fa_write_routes s) \<and> rb_capacity (fa_write_routes s) = route_depth cfg \<and>
     list_all (write_route_wf cfg (length (as_mappings (fa_space s)))) (rb_list (fa_write_routes s)) \<and>
     length (fa_monitors s) = route_depth cfg \<and>
     fa_next_aw_port s < num_ports cfg \<and> fa_next_ar_port s < num_ports cfg \<and> fa_random_state s \<noteq> 0"

definition inputs_wf :: "fabric_config \<Rightarrow> master_signals list \<Rightarrow> bool" where
  "inputs_wf cfg inputs \<longleftrightarrow> length inputs = num_ports cfg \<and> list_all (\<lambda>i. beat_wf (data_bytes cfg) (m_w i)) inputs"

definition slaves_wf :: "fabric_config \<Rightarrow> slave_signals list \<Rightarrow> bool" where
  "slaves_wf cfg vs \<longleftrightarrow> length vs = num_ports cfg \<and> list_all (\<lambda>v. length (r_data (s_r v)) = data_bytes cfg) vs"

text \<open>What \<^verbatim>\<open>drive\<close> promises about its outputs.\<close>

definition ready_ok :: "fabric \<Rightarrow> nat \<Rightarrow> bool" where
  "ready_ok s port \<longleftrightarrow>
     (aw_ready (fa_outputs s ! port) \<longrightarrow> \<not> rb_full (ps_aw (fa_ports s ! port))) \<and>
     (w_ready (fa_outputs s ! port) \<longrightarrow> \<not> rb_full (ps_w (fa_ports s ! port))) \<and>
     (ar_ready (fa_outputs s ! port) \<longrightarrow> \<not> rb_full (ps_ar (fa_ports s ! port)))"

definition valid_ok :: "fabric \<Rightarrow> nat \<Rightarrow> bool" where
  "valid_ok s port \<longleftrightarrow>
     (b_valid (fa_outputs s ! port) \<longrightarrow> \<not> rb_empty (ps_b (fa_ports s ! port))) \<and>
     (r_valid (fa_outputs s ! port) \<longrightarrow> \<not> rb_empty (ps_r (fa_ports s ! port)))"

definition driven :: "fabric_config \<Rightarrow> fabric \<Rightarrow> bool" where
  "driven cfg s \<longleftrightarrow> (\<forall>port<num_ports cfg. ready_ok s port \<and> valid_ok s port)"

definition is_protocol_error :: "exn \<Rightarrow> bool" where
  "is_protocol_error e \<longleftrightarrow> (case e of ProtocolError m \<Rightarrow> True | _ \<Rightarrow> False)"

lemma protocol_error_is [simp]: "is_protocol_error (protocol_error s port channel detail payload)"
  by (simp add: protocol_error_def is_protocol_error_def)

lemma config_bus_ok: "config_ok cfg \<Longrightarrow> bus_bytes_ok (data_bytes cfg)"
  by (auto simp: config_ok_def bus_bytes_ok_def data_bytes_def)

lemma valid_burst_cursor:
  "config_ok cfg \<Longrightarrow> valid_burst cfg p c \<Longrightarrow> cursor_of (data_bytes cfg) c \<and> bc_payload c = p \<and>
     bc_beats c = unat (ax_length p) + 1 \<and> bc_beats c \<le> 256"
  using cursor_shape [of "data_bytes cfg" c]
  by (metis burst_cursor_new_payload config_bus_ok cursor_ofI valid_burst_def)

text \<open>Inside a validated burst the cursor is total.\<close>

lemma valid_burst_beats:
  assumes "config_ok cfg" and "valid_burst cfg p c" and "i < bc_beats c"
  obtains a base lanes where "beat_address c i = Inr a" "bus_word_address (data_bytes cfg) c i = Inr base"
    "lane_mask (data_bytes cfg) c i = Inr lanes" "length lanes = data_bytes cfg"
  using validated_beats [of "data_bytes cfg" c i] valid_burst_cursor [OF assms(1,2)] assms(2,3)
  by (metis valid_burst_def)

section \<open>Ports\<close>

lemma fabric_wf_port: "fabric_wf cfg s \<Longrightarrow> port < num_ports cfg \<Longrightarrow> port_wf cfg (fa_ports s ! port)"
  by (simp add: fabric_wf_def list_all_length)

lemma upd_port_wf:
  assumes "fabric_wf cfg s" and "port < num_ports cfg" and "port_wf cfg (f (fa_ports s ! port))"
  shows "fabric_wf cfg (upd_port port f s)"
  using assms by (auto simp: fabric_wf_def upd_port_def list_all_length nth_list_update)

lemma upd_port_simps [simp]:
  "fa_heap (upd_port port f s) = fa_heap s" "fa_space (upd_port port f s) = fa_space s"
  "fa_outputs (upd_port port f s) = fa_outputs s" "fa_monitors (upd_port port f s) = fa_monitors s"
  "fa_read_routes (upd_port port f s) = fa_read_routes s" "fa_write_routes (upd_port port f s) = fa_write_routes s"
  "fa_suppress_read (upd_port port f s) = fa_suppress_read s" "fa_cycle (upd_port port f s) = fa_cycle s"
  "length (fa_ports (upd_port port f s)) = length (fa_ports s)"
  "fa_exit_completed (upd_port port f s) = fa_exit_completed s" "fa_exit_code (upd_port port f s) = fa_exit_code s"
  by (simp_all add: upd_port_def)

lemma upd_port_nth:
  "q < length (fa_ports s) \<Longrightarrow>
   fa_ports (upd_port port f s) ! q = (if q = port then f (fa_ports s ! port) else fa_ports s ! q)"
  by (simp add: upd_port_def nth_list_update)

lemma fabric_wf_flags [simp]:
  "fabric_wf cfg (s\<lparr>fa_exit_completed := a, fa_exit_code := c\<rparr>) = fabric_wf cfg s"
  "fabric_wf cfg (s\<lparr>fa_suppress_read := a\<rparr>) = fabric_wf cfg s"
  "fabric_wf cfg (s\<lparr>fa_was_reset := a\<rparr>) = fabric_wf cfg s"
  "fabric_wf cfg (s\<lparr>fa_cycle := n\<rparr>) = fabric_wf cfg s"
  by (simp_all add: fabric_wf_def)

text \<open>What every phase up to arbitration leaves alone: devices, monitors and outputs.\<close>

definition untouched :: "fabric \<Rightarrow> fabric \<Rightarrow> bool" where
  "untouched s s' \<longleftrightarrow> fa_heap s' = fa_heap s \<and> fa_space s' = fa_space s \<and> fa_monitors s' = fa_monitors s \<and>
     fa_outputs s' = fa_outputs s \<and> fa_cycle s' = fa_cycle s \<and> fa_suppress_read s' = fa_suppress_read s"

lemma untouched_refl [simp]: "untouched s s"
  by (simp add: untouched_def)

lemma untouched_trans: "untouched s s' \<Longrightarrow> untouched s' s'' \<Longrightarrow> untouched s s''"
  by (simp add: untouched_def)

section \<open>Stability checks\<close>

lemma check_address_watch_error:
  "check_address_watch s port channel w valid ready payload = Inl e \<Longrightarrow> is_protocol_error e"
  by (auto simp: check_address_watch_def Let_def split: if_splits)

lemma check_write_watch_error: "check_write_watch s port w valid ready payload = Inl e \<Longrightarrow> is_protocol_error e"
  by (auto simp: check_write_watch_def Let_def split: if_splits)

text \<open>Replacing a watch changes nothing the other phases look at.\<close>

definition watch_only :: "(port_state \<Rightarrow> port_state) \<Rightarrow> bool" where
  "watch_only f \<longleftrightarrow> (\<forall>p. ps_aw (f p) = ps_aw p \<and> ps_w (f p) = ps_w p \<and> ps_ar (f p) = ps_ar p \<and>
     ps_b (f p) = ps_b p \<and> ps_r (f p) = ps_r p)"

lemma watch_only_upd:
  assumes "fabric_wf cfg s" and "driven cfg s" and "port < num_ports cfg" and "watch_only f"
  shows "fabric_wf cfg (upd_port port f s) \<and> driven cfg (upd_port port f s) \<and> untouched s (upd_port port f s)"
proof -
  have "port_wf cfg (f (fa_ports s ! port))"
    using fabric_wf_port [OF assms(1,3)] assms(4) by (simp add: port_wf_def watch_only_def)
  moreover have "length (fa_ports s) = num_ports cfg" using assms(1) by (simp add: fabric_wf_def)
  ultimately show ?thesis
    using assms upd_port_wf
    by (auto simp: driven_def ready_ok_def valid_ok_def untouched_def upd_port_nth watch_only_def)
qed

lemma check_stability_wp:
  assumes "fabric_wf cfg s" and "driven cfg s"
  shows "wp (check_stability cfg inputs)
    (\<lambda>_ s'. fabric_wf cfg s' \<and> driven cfg s' \<and> untouched s s')
    (\<lambda>e s'. fabric_wf cfg s' \<and> untouched s s' \<and> is_protocol_error e) s"
  unfolding check_stability_def
proof (rule wp_foreach)
  fix port t
  assume p: "port \<in> set [0..<num_ports cfg]" and t: "fabric_wf cfg t \<and> driven cfg t \<and> untouched s t"
  have step: "fabric_wf cfg (upd_port port f u) \<and> driven cfg (upd_port port f u) \<and> untouched s (upd_port port f u)"
    if "fabric_wf cfg u \<and> driven cfg u \<and> untouched s u" "watch_only f" for u f
    using watch_only_upd [of cfg u port f] that p untouched_trans by auto
  have w: "watch_only (\<lambda>p. p\<lparr>ps_aw_watch := x\<rparr>)" "watch_only (\<lambda>p. p\<lparr>ps_w_watch := y\<rparr>)"
    "watch_only (\<lambda>p. p\<lparr>ps_ar_watch := x\<rparr>)" for x y
    by (simp_all add: watch_only_def)
  show "wp (check_port_stability inputs port) (\<lambda>_ s'. fabric_wf cfg s' \<and> driven cfg s' \<and> untouched s s')
    (\<lambda>e s'. fabric_wf cfg s' \<and> untouched s s' \<and> is_protocol_error e) t"
    using t
    by (auto simp: check_port_stability_def wp_simps wp_lift_result step w
        dest: check_address_watch_error check_write_watch_error)
qed (use assms in simp)

section \<open>Handshakes\<close>

lemma rb_pop_ok:
  assumes "rb_wf q" and "\<not> rb_empty q"
  obtains q' where "rb_pop q = Inr q'" "rb_wf q'" "rb_capacity q' = rb_capacity q" "rb_list q' = tl (rb_list q)"
  using ring.pop_nonempty [OF assms(1)] ring.empty_iff [OF assms(1)] assms(2) by blast

lemma rb_front_ok: "rb_wf q \<Longrightarrow> \<not> rb_empty q \<Longrightarrow> rb_front q = Inr (hd (rb_list q))"
  using ring.front_nonempty [of q] ring.empty_iff [of q] by simp

lemma rb_push_ok:
  assumes "rb_wf q" and "\<not> rb_full q"
  obtains q' where "rb_push v q = (True, q')" "rb_wf q'" "rb_capacity q' = rb_capacity q" "rb_list q' = rb_list q @ [v]"
proof -
  obtain ok q' where e: "rb_push v q = (ok, q')" by fastforce
  show ?thesis using ring.push_free [OF assms e] e that [of q'] by simp
qed

lemma list_all_tl: "list_all P xs \<Longrightarrow> list_all P (tl xs)"
  by (cases xs) auto

definition retire_inv :: "fabric_config \<Rightarrow> fabric \<Rightarrow> nat list \<Rightarrow> fabric \<Rightarrow> bool" where
  "retire_inv cfg s rest t \<longleftrightarrow> fabric_wf cfg t \<and> untouched s t \<and> distinct rest \<and> (\<forall>p\<in>set rest. p < num_ports cfg) \<and>
     (\<forall>p<num_ports cfg. ready_ok t p) \<and> (\<forall>p\<in>set rest. valid_ok t p)"

lemma retire_b_wp:
  assumes "retire_inv cfg s (port # rest) t"
  shows "wp (retire_b inputs port)
    (\<lambda>_ t'. retire_inv cfg s rest t' \<and> (r_valid (fa_outputs t' ! port) \<longrightarrow> \<not> rb_empty (ps_r (fa_ports t' ! port))))
    (\<lambda>e t'. False) t"
proof (cases "b_valid (fa_outputs t ! port) \<and> b_ready (inputs ! port)")
  case False
  then show ?thesis using assms by (auto simp: retire_b_def wp_simps retire_inv_def valid_ok_def)
next
  case True
  have wf: "fabric_wf cfg t" and p: "port < num_ports cfg" and ne: "\<not> rb_empty (ps_b (fa_ports t ! port))"
    using assms True by (auto simp: retire_inv_def valid_ok_def)
  have len: "length (fa_ports t) = num_ports cfg" using wf by (simp add: fabric_wf_def)
  note pw = fabric_wf_port [OF wf p]
  have bwf: "rb_wf (ps_b (fa_ports t ! port))" using pw by (simp add: port_wf_def)
  obtain q where q: "rb_pop (ps_b (fa_ports t ! port)) = Inr q" "rb_wf q"
    "rb_capacity q = rb_capacity (ps_b (fa_ports t ! port))"
    using rb_pop_ok [OF bwf ne] by metis
  let ?f = "\<lambda>p. p\<lparr>ps_b := q\<rparr>"
  have pok: "port_wf cfg (?f (fa_ports t ! port))" using pw q by (simp add: port_wf_def)
  have inv: "retire_inv cfg s rest (upd_port port ?f t) \<and>
      (r_valid (fa_outputs (upd_port port ?f t) ! port) \<longrightarrow> \<not> rb_empty (ps_r (fa_ports (upd_port port ?f t) ! port)))"
    using assms upd_port_wf [OF wf p, of ?f, OF pok] len p
    by (auto simp: retire_inv_def upd_port_nth ready_ok_def valid_ok_def untouched_def)
  have ex: "retire_inv cfg s rest (u\<lparr>fa_exit_completed := a, fa_exit_code := c\<rparr>)" if "retire_inv cfg s rest u" for u a c
    using that by (simp add: retire_inv_def untouched_def ready_ok_def valid_ok_def)
  have comm: "upd_port port ?f (t\<lparr>fa_exit_completed := a, fa_exit_code := c\<rparr>) =
      (upd_port port ?f t)\<lparr>fa_exit_completed := a, fa_exit_code := c\<rparr>" for a c
    by (simp add: upd_port_def)
  show ?thesis
    using True inv ex [of "upd_port port ?f t"]
    by (simp add: retire_b_def wp_simps rb_front_ok [OF bwf ne] q(1) comm)
qed

lemma retire_r_wp:
  assumes "retire_inv cfg s rest t" and "r_valid (fa_outputs t ! port) \<longrightarrow> \<not> rb_empty (ps_r (fa_ports t ! port))"
    and "port < num_ports cfg" and "port \<notin> set rest"
  shows "wp (retire_r inputs port) (\<lambda>_. retire_inv cfg s rest) (\<lambda>e t'. False) t"
proof (cases "r_valid (fa_outputs t ! port) \<and> r_ready (inputs ! port)")
  case False
  then show ?thesis using assms by (auto simp: retire_r_def wp_simps)
next
  case True
  have wf: "fabric_wf cfg t" and ne: "\<not> rb_empty (ps_r (fa_ports t ! port))"
    using assms True by (auto simp: retire_inv_def)
  have len: "length (fa_ports t) = num_ports cfg" using wf by (simp add: fabric_wf_def)
  note pw = fabric_wf_port [OF wf assms(3)]
  have rwf: "rb_wf (ps_r (fa_ports t ! port))" using pw by (simp add: port_wf_def)
  obtain q where q: "rb_pop (ps_r (fa_ports t ! port)) = Inr q" "rb_wf q"
    "rb_capacity q = rb_capacity (ps_r (fa_ports t ! port))" "rb_list q = tl (rb_list (ps_r (fa_ports t ! port)))"
    using rb_pop_ok [OF rwf ne] by metis
  let ?f = "\<lambda>p. p\<lparr>ps_r := q\<rparr>"
  have pok: "port_wf cfg (?f (fa_ports t ! port))" using pw q by (simp add: port_wf_def list_all_tl)
  have "retire_inv cfg s rest (upd_port port ?f t)"
    using assms upd_port_wf [OF wf assms(3), of ?f, OF pok] len
    by (auto simp: retire_inv_def upd_port_nth ready_ok_def valid_ok_def untouched_def)
  then show ?thesis using True by (simp add: retire_r_def wp_simps q(1))
qed

lemma retire_responses_wp:
  assumes "fabric_wf cfg s" and "driven cfg s"
  shows "wp (retire_responses cfg inputs)
    (\<lambda>_ s'. fabric_wf cfg s' \<and> untouched s s' \<and> (\<forall>p<num_ports cfg. ready_ok s' p)) (\<lambda>e s'. False) s"
proof -
  have "wp (retire_responses cfg inputs) (\<lambda>_. retire_inv cfg s []) (\<lambda>e s'. False) s"
    unfolding retire_responses_def
  proof (rule wp_foreach_rest [where I = "retire_inv cfg s"])
    fix port rest t
    assume i: "retire_inv cfg s (port # rest) t"
    then have "port < num_ports cfg" "port \<notin> set rest" by (auto simp: retire_inv_def)
    then show "wp (then_exec (retire_b inputs port) (retire_r inputs port)) (\<lambda>_. retire_inv cfg s rest) (\<lambda>e s'. False) t"
      unfolding wp_then by (intro wp_mono [OF retire_b_wp [OF i]] retire_r_wp) auto
  next
    show "retire_inv cfg s [0..<num_ports cfg] s" using assms by (simp add: retire_inv_def driven_def)
  qed
  then show ?thesis by (rule wp_mono) (auto simp: retire_inv_def)
qed

definition accept_inv :: "fabric_config \<Rightarrow> fabric \<Rightarrow> nat list \<Rightarrow> fabric \<Rightarrow> bool" where
  "accept_inv cfg s rest t \<longleftrightarrow> fabric_wf cfg t \<and> untouched s t \<and> distinct rest \<and> (\<forall>p\<in>set rest. p < num_ports cfg) \<and>
     (\<forall>p\<in>set rest. ready_ok t p)"

text \<open>Each channel of the port at hand loses its promise only once it has used it.\<close>

lemma accept_aw_wp:
  assumes "accept_inv cfg s (port # rest) t"
  shows "wp (accept_aw inputs port)
    (\<lambda>_ t'. accept_inv cfg s rest t' \<and>
       (w_ready (fa_outputs t' ! port) \<longrightarrow> \<not> rb_full (ps_w (fa_ports t' ! port))) \<and>
       (ar_ready (fa_outputs t' ! port) \<longrightarrow> \<not> rb_full (ps_ar (fa_ports t' ! port)))) (\<lambda>e t'. False) t"
proof (cases "aw_valid (inputs ! port) \<and> aw_ready (fa_outputs t ! port)")
  case False
  then show ?thesis using assms by (auto simp: accept_aw_def wp_simps accept_inv_def ready_ok_def)
next
  case True
  have wf: "fabric_wf cfg t" and p: "port < num_ports cfg" and nf: "\<not> rb_full (ps_aw (fa_ports t ! port))"
    using assms True by (auto simp: accept_inv_def ready_ok_def)
  have len: "length (fa_ports t) = num_ports cfg" using wf by (simp add: fabric_wf_def)
  note pw = fabric_wf_port [OF wf p]
  have "rb_wf (ps_aw (fa_ports t ! port))" using pw by (simp add: port_wf_def)
  then obtain q where q: "rb_push (m_aw (inputs ! port)) (ps_aw (fa_ports t ! port)) = (True, q)" "rb_wf q"
    "rb_capacity q = rb_capacity (ps_aw (fa_ports t ! port))"
    using rb_push_ok [OF _ nf] by metis
  let ?f = "\<lambda>p. p\<lparr>ps_aw := q\<rparr>"
  have pok: "port_wf cfg (?f (fa_ports t ! port))" using pw q by (simp add: port_wf_def)
  show ?thesis
    using True assms upd_port_wf [OF wf p, of ?f, OF pok] len p
    by (auto simp: accept_aw_def wp_simps q(1) accept_inv_def upd_port_nth ready_ok_def untouched_def)
qed

lemma accept_w_wp:
  assumes "accept_inv cfg s rest t" and "w_ready (fa_outputs t ! port) \<longrightarrow> \<not> rb_full (ps_w (fa_ports t ! port))"
    and "ar_ready (fa_outputs t ! port) \<longrightarrow> \<not> rb_full (ps_ar (fa_ports t ! port))"
    and "port < num_ports cfg" and "port \<notin> set rest" and "inputs_wf cfg inputs"
  shows "wp (accept_w inputs port)
    (\<lambda>_ t'. accept_inv cfg s rest t' \<and>
       (ar_ready (fa_outputs t' ! port) \<longrightarrow> \<not> rb_full (ps_ar (fa_ports t' ! port)))) (\<lambda>e t'. False) t"
proof (cases "w_valid (inputs ! port) \<and> w_ready (fa_outputs t ! port)")
  case False
  then show ?thesis using assms by (auto simp: accept_w_def wp_simps)
next
  case True
  have wf: "fabric_wf cfg t" and nf: "\<not> rb_full (ps_w (fa_ports t ! port))"
    using assms True by (auto simp: accept_inv_def)
  have len: "length (fa_ports t) = num_ports cfg" using wf by (simp add: fabric_wf_def)
  note pw = fabric_wf_port [OF wf assms(4)]
  have "rb_wf (ps_w (fa_ports t ! port))" using pw by (simp add: port_wf_def)
  then obtain q where q: "rb_push (m_w (inputs ! port)) (ps_w (fa_ports t ! port)) = (True, q)" "rb_wf q"
    "rb_capacity q = rb_capacity (ps_w (fa_ports t ! port))"
    "rb_list q = rb_list (ps_w (fa_ports t ! port)) @ [m_w (inputs ! port)]"
    using rb_push_ok [OF _ nf] by metis
  have b: "beat_wf (data_bytes cfg) (m_w (inputs ! port))"
    using assms(4,6) by (simp add: inputs_wf_def list_all_length)
  let ?f = "\<lambda>p. p\<lparr>ps_w := q\<rparr>"
  have pok: "port_wf cfg (?f (fa_ports t ! port))" using pw q b by (simp add: port_wf_def)
  show ?thesis
    using True assms upd_port_wf [OF wf assms(4), of ?f, OF pok] len
    by (auto simp: accept_w_def wp_simps q(1) accept_inv_def upd_port_nth ready_ok_def untouched_def)
qed

lemma accept_ar_wp:
  assumes "accept_inv cfg s rest t" and "ar_ready (fa_outputs t ! port) \<longrightarrow> \<not> rb_full (ps_ar (fa_ports t ! port))"
    and "port < num_ports cfg" and "port \<notin> set rest"
  shows "wp (accept_ar inputs port) (\<lambda>_. accept_inv cfg s rest) (\<lambda>e t'. False) t"
proof (cases "ar_valid (inputs ! port) \<and> ar_ready (fa_outputs t ! port)")
  case False
  then show ?thesis using assms by (auto simp: accept_ar_def wp_simps)
next
  case True
  have wf: "fabric_wf cfg t" and nf: "\<not> rb_full (ps_ar (fa_ports t ! port))"
    using assms True by (auto simp: accept_inv_def)
  have len: "length (fa_ports t) = num_ports cfg" using wf by (simp add: fabric_wf_def)
  note pw = fabric_wf_port [OF wf assms(3)]
  have "rb_wf (ps_ar (fa_ports t ! port))" using pw by (simp add: port_wf_def)
  then obtain q where q: "rb_push (m_ar (inputs ! port)) (ps_ar (fa_ports t ! port)) = (True, q)" "rb_wf q"
    "rb_capacity q = rb_capacity (ps_ar (fa_ports t ! port))"
    using rb_push_ok [OF _ nf] by metis
  let ?f = "\<lambda>p. p\<lparr>ps_ar := q\<rparr>"
  have pok: "port_wf cfg (?f (fa_ports t ! port))" using pw q by (simp add: port_wf_def)
  show ?thesis
    using True assms upd_port_wf [OF wf assms(3), of ?f, OF pok] len
    by (auto simp: accept_ar_def wp_simps q(1) accept_inv_def upd_port_nth ready_ok_def untouched_def)
qed

lemma accept_ingress_wp:
  assumes "fabric_wf cfg s" and "\<forall>p<num_ports cfg. ready_ok s p" and "inputs_wf cfg inputs"
  shows "wp (accept_ingress cfg inputs) (\<lambda>_ s'. fabric_wf cfg s' \<and> untouched s s') (\<lambda>e s'. False) s"
proof -
  have "wp (accept_ingress cfg inputs) (\<lambda>_. accept_inv cfg s []) (\<lambda>e s'. False) s"
    unfolding accept_ingress_def
  proof (rule wp_foreach_rest [where I = "accept_inv cfg s"])
    fix port rest t
    assume i: "accept_inv cfg s (port # rest) t"
    then have "port < num_ports cfg" "port \<notin> set rest" by (auto simp: accept_inv_def)
    then show "wp (then_exec (accept_aw inputs port) (then_exec (accept_w inputs port) (accept_ar inputs port)))
        (\<lambda>_. accept_inv cfg s rest) (\<lambda>e s'. False) t"
      unfolding wp_then using assms(3)
      by (intro wp_mono [OF accept_aw_wp [OF i]] wp_mono [OF accept_w_wp] accept_ar_wp) auto
  next
    show "accept_inv cfg s [0..<num_ports cfg] s" using assms by (simp add: accept_inv_def)
  qed
  then show ?thesis by (rule wp_mono) (auto simp: accept_inv_def)
qed

section \<open>Arbitration\<close>

lemma burst_cursor_new_error: "burst_cursor_new db p = Inl e \<Longrightarrow> is_protocol_error e"
  by (auto simp: burst_cursor_new_def checked_beat_bytes_def validate_shape_def Let_def is_protocol_error_def
      result_bind_Inl_iff split: if_splits)

lemma beat_address_error: "beat_address c i = Inl e \<Longrightarrow> i < bc_beats c \<Longrightarrow> is_protocol_error e"
  by (auto simp: beat_address_def Let_def is_protocol_error_def result_bind_Inl_iff
      split: if_splits burst.splits)

lemma validate_4k_error: "validate_4k_boundary db c = Inl e \<Longrightarrow> is_protocol_error e"
  by (auto simp: validate_4k_boundary_def Let_def result_bind_Inl_iff bus_word_address_def lane_mask_def
      is_protocol_error_def dest!: result_all_Inl dest: beat_address_error [unfolded is_protocol_error_def])

lemma make_cursor_cases:
  shows "make_cursor cfg s port channel payload = Inr c \<Longrightarrow> valid_burst cfg payload c"
    and "make_cursor cfg s port channel payload = Inl e \<Longrightarrow> is_protocol_error e"
proof -
  show "make_cursor cfg s port channel payload = Inr c \<Longrightarrow> valid_burst cfg payload c"
    by (auto simp: make_cursor_def valid_burst_def split: sum.splits exn.splits)
  assume "make_cursor cfg s port channel payload = Inl e"
  then show "is_protocol_error e"
    using burst_cursor_new_error [of "data_bytes cfg" payload] validate_4k_error [of "data_bytes cfg"]
    by (auto simp: make_cursor_def result_bind_Inl_iff split: sum.splits exn.splits)
qed

lemma route_lane_error: "route_lane cfg s port channel payload base lanes lane st = Inl e \<Longrightarrow> is_protocol_error e"
  by (auto simp: route_lane_def Let_def split: prod.splits if_splits)

lemma route_scan_error:
  assumes "config_ok cfg" and "valid_burst cfg payload c"
    and "result_fold (route_beat cfg s port channel payload c) [0..<bc_beats c] st = Inl e"
  shows "is_protocol_error e"
proof -
  obtain i b where i: "i < bc_beats c" and e: "route_beat cfg s port channel payload c i b = Inl e"
    using result_fold_Inl [OF assms(3)] by auto
  obtain base lanes where "bus_word_address (data_bytes cfg) c i = Inr base" "lane_mask (data_bytes cfg) c i = Inr lanes"
    using valid_burst_beats [OF assms(1,2) i] by metis
  then show ?thesis
    using e by (auto simp: route_beat_def dest!: result_fold_Inl intro: route_lane_error)
qed

lemma route_scan_mapping:
  assumes "as_wf (fa_space s)"
    and "result_fold (route_beat cfg s port channel payload c) bs (None, False) = Inr (mapped, err)"
  shows "case mapped of None \<Rightarrow> True | Some k \<Rightarrow> k < length (as_mappings (fa_space s))"
proof -
  let ?P = "\<lambda>(m, e :: bool). case m of None \<Rightarrow> True | Some k \<Rightarrow> k < length (as_mappings (fa_space s))"
  have lane: "?P z" if "?P y" "route_lane cfg s port channel payload base lanes l y = Inr z" for base lanes l y z
    using that as_resolve_iff [OF assms(1)]
    by (auto simp: route_lane_def Let_def window_of_def split: prod.splits if_splits option.splits)
  have "?P (mapped, err)"
    using assms(2)
  proof (rule result_fold_Inr)
    fix x y z
    assume y: "?P y" and "route_beat cfg s port channel payload c x y = Inr z"
    then obtain base lanes where
      "result_fold (route_lane cfg s port channel payload base lanes) [0..<data_bytes cfg] y = Inr z"
      by (auto simp: route_beat_def)
    then show "?P z" by (rule result_fold_Inr [where P = ?P]) (use y lane in blast)+
  qed simp
  then show ?thesis by simp
qed

text \<open>What arbitration knows about the route it has initialised.\<close>

definition routed :: "fabric_config \<Rightarrow> fabric \<Rightarrow> nat \<Rightarrow> address_payload \<Rightarrow> 'a route_base_scheme \<Rightarrow> 'a route_base_scheme \<Rightarrow> bool" where
  "routed cfg s port payload route r \<longleftrightarrow>
     r = route\<lparr>rt_port := port, rt_payload := payload, rt_exclusive := ax_lock payload,
       rt_mapping := rt_mapping r, rt_forced := rt_forced r\<rparr> \<and>
     (\<exists>c. valid_burst cfg payload c) \<and>
     (case rt_mapping r of None \<Rightarrow> True | Some k \<Rightarrow> k < length (as_mappings (fa_space s)))"

lemma initialize_route_routed:
  assumes "as_wf (fa_space s)" and "initialize_route cfg s port channel payload route = Inr r"
  shows "routed cfg s port payload route r"
proof -
  obtain c mapped err where c: "make_cursor cfg s port channel payload = Inr c"
    and f: "result_fold (route_beat cfg s port channel payload c) [0..<bc_beats c] (None, False) = Inr (mapped, err)"
    using assms(2) by (auto simp: initialize_route_def Let_def)
  note m = route_scan_mapping [OF assms(1) f]
  show ?thesis
    using assms(2) m make_cursor_cases(1) [OF c]
    unfolding routed_def
    by (auto simp: initialize_route_def Let_def c f split: if_splits option.splits)
qed

lemma initialize_route_error:
  assumes "config_ok cfg" and "initialize_route cfg s port channel payload route = Inl e"
  shows "is_protocol_error e"
proof (cases "make_cursor cfg s port channel payload")
  case (Inl e')
  then show ?thesis
    using assms(2) make_cursor_cases(2) by (auto simp: initialize_route_def Let_def)
next
  case (Inr c)
  note v = make_cursor_cases(1) [OF Inr]
  show ?thesis
    using assms(2) route_scan_error [OF assms(1) v]
    by (auto simp: initialize_route_def Let_def Inr result_bind_Inl_iff validate_exclusive_def split: if_splits)
qed

lemma routed_fields:
  assumes "routed cfg s port payload r0 r"
  shows "rt_port r = port" "rt_payload r = payload" "rt_beat r = rt_beat r0" "rt_exclusive r = ax_lock payload"
proof -
  have eq: "r = r0\<lparr>rt_port := port, rt_payload := payload, rt_exclusive := ax_lock payload,
       rt_mapping := rt_mapping r, rt_forced := rt_forced r\<rparr>"
    using assms by (simp add: routed_def)
  show "rt_port r = port" "rt_payload r = payload" "rt_beat r = rt_beat r0" "rt_exclusive r = ax_lock payload"
    by (subst eq, simp)+
qed

lemma routed_wf:
  "routed cfg s port payload r0 r \<Longrightarrow> port < num_ports cfg \<Longrightarrow> route_wf cfg (length (as_mappings (fa_space s))) r"
  using routed_fields [of cfg s port payload r0 r] by (simp add: routed_def route_wf_def)

lemma routed_read_wf:
  assumes "routed cfg s port payload default_read_route r" and "port < num_ports cfg"
  shows "read_route_wf cfg (length (as_mappings (fa_space s))) r"
  using routed_wf [OF assms] routed_fields [OF assms(1)] by (simp add: read_route_wf_def default_read_route_def)

lemma routed_write_wf:
  assumes "routed cfg s port payload (default_write_route (data_bytes cfg)) r" and "port < num_ports cfg"
  shows "write_route_wf cfg (length (as_mappings (fa_space s))) r"
proof -
  have eq: "r = (default_write_route (data_bytes cfg))\<lparr>rt_port := port, rt_payload := payload,
      rt_exclusive := ax_lock payload, rt_mapping := rt_mapping r, rt_forced := rt_forced r\<rparr>"
    using assms(1) by (simp add: routed_def)
  have "wr_data_complete r = False" "wr_commit_beat r = 0" "wr_staged_data r = replicate 256 (replicate (data_bytes cfg) 0)"
    "wr_staged_strobe r = replicate 256 (replicate (data_bytes cfg) 0)" "rt_beat r = 0"
    by (subst eq, simp add: default_write_route_def)+
  then show ?thesis
    using routed_wf [OF assms] by (simp add: write_route_wf_def list_all_iff)
qed

lemma scan_ports_bound: "scan_ports cfg start waiting = Some port \<Longrightarrow> config_ok cfg \<Longrightarrow> port < num_ports cfg \<and> waiting port"
  by (auto simp: scan_ports_def config_ok_def find_Some_iff split: option.splits)

lemma arbitrate_aw_wp:
  assumes "fabric_wf cfg s"
  shows "wp (arbitrate_aw cfg) (\<lambda>_ s'. fabric_wf cfg s' \<and> untouched s s')
    (\<lambda>e s'. fabric_wf cfg s' \<and> untouched s s' \<and> is_protocol_error e) s"
proof (cases "rb_full (fa_write_routes s)")
  case True
  then show ?thesis using assms by (simp add: arbitrate_aw_def wp_simps)
next
  case nf: False
  have ok: "config_ok cfg" and aw: "as_wf (fa_space s)" and rwf: "rb_wf (fa_write_routes s)"
    using assms by (simp_all add: fabric_wf_def)
  show ?thesis
  proof (cases "scan_ports cfg (fa_next_aw_port s) (\<lambda>port. \<not> rb_empty (ps_aw (fa_ports s ! port)))")
    case None
    then show ?thesis using assms nf by (simp add: arbitrate_aw_def wp_simps)
  next
    case (Some port)
    have p: "port < num_ports cfg" and ne: "\<not> rb_empty (ps_aw (fa_ports s ! port))"
      using scan_ports_bound [OF Some ok] by simp_all
    note pw = fabric_wf_port [OF assms p]
    have awf: "rb_wf (ps_aw (fa_ports s ! port))" using pw by (simp add: port_wf_def)
    obtain q where q: "rb_pop (ps_aw (fa_ports s ! port)) = Inr q" "rb_wf q"
      "rb_capacity q = rb_capacity (ps_aw (fa_ports s ! port))"
      using rb_pop_ok [OF awf ne] by metis
    let ?f = "\<lambda>p. p\<lparr>ps_aw := q\<rparr>"
    have pok: "port_wf cfg (?f (fa_ports s ! port))" using pw q by (simp add: port_wf_def)
    have wf': "fabric_wf cfg ((upd_port port ?f s)\<lparr>fa_write_routes := snd (rb_push route (fa_write_routes s)),
        fa_next_aw_port := (port + 1) mod num_ports cfg\<rparr>)"
      if "initialize_route cfg s port ''AW'' payload (default_write_route (data_bytes cfg)) = Inr route" for route payload
    proof -
      note rd = initialize_route_routed [OF aw that]
      obtain rq where rq: "rb_push route (fa_write_routes s) = (True, rq)" "rb_wf rq"
        "rb_capacity rq = rb_capacity (fa_write_routes s)" "rb_list rq = rb_list (fa_write_routes s) @ [route]"
        using rb_push_ok [OF rwf nf] by metis
      have "(port + 1) mod num_ports cfg < num_ports cfg" using ok by (simp add: config_ok_def)
      then show ?thesis
        using upd_port_wf [OF assms p, of ?f, OF pok] rq routed_write_wf [OF rd p]
        by (simp add: fabric_wf_def)
    qed
    have un: "untouched s ((upd_port port ?f s)\<lparr>fa_write_routes := x, fa_next_aw_port := y\<rparr>)" for x y
      by (simp add: untouched_def)
    show ?thesis
      using assms nf Some wf' un initialize_route_error [OF ok]
      by (auto simp: arbitrate_aw_def wp_simps wp_lift_result rb_front_ok [OF awf ne] q(1))
  qed
qed

lemma arbitrate_ar_wp:
  assumes "fabric_wf cfg s"
  shows "wp (arbitrate_ar cfg) (\<lambda>_ s'. fabric_wf cfg s' \<and> untouched s s')
    (\<lambda>e s'. fabric_wf cfg s' \<and> untouched s s' \<and> is_protocol_error e) s"
proof (cases "rb_full (fa_read_routes s)")
  case True
  then show ?thesis using assms by (simp add: arbitrate_ar_def wp_simps)
next
  case nf: False
  have ok: "config_ok cfg" and aw: "as_wf (fa_space s)" and rwf: "rb_wf (fa_read_routes s)"
    using assms by (simp_all add: fabric_wf_def)
  show ?thesis
  proof (cases "scan_ports cfg (fa_next_ar_port s) (\<lambda>port. \<not> rb_empty (ps_ar (fa_ports s ! port)))")
    case None
    then show ?thesis using assms nf by (simp add: arbitrate_ar_def wp_simps)
  next
    case (Some port)
    have p: "port < num_ports cfg" and ne: "\<not> rb_empty (ps_ar (fa_ports s ! port))"
      using scan_ports_bound [OF Some ok] by simp_all
    note pw = fabric_wf_port [OF assms p]
    have awf: "rb_wf (ps_ar (fa_ports s ! port))" using pw by (simp add: port_wf_def)
    obtain q where q: "rb_pop (ps_ar (fa_ports s ! port)) = Inr q" "rb_wf q"
      "rb_capacity q = rb_capacity (ps_ar (fa_ports s ! port))"
      using rb_pop_ok [OF awf ne] by metis
    let ?f = "\<lambda>p. p\<lparr>ps_ar := q\<rparr>"
    have pok: "port_wf cfg (?f (fa_ports s ! port))" using pw q by (simp add: port_wf_def)
    have wf': "fabric_wf cfg ((upd_port port ?f s)\<lparr>fa_read_routes := snd (rb_push route (fa_read_routes s)),
        fa_next_ar_port := (port + 1) mod num_ports cfg\<rparr>)"
      if "initialize_route cfg s port ''AR'' payload default_read_route = Inr route" for route payload
    proof -
      note rd = initialize_route_routed [OF aw that]
      obtain rq where rq: "rb_push route (fa_read_routes s) = (True, rq)" "rb_wf rq"
        "rb_capacity rq = rb_capacity (fa_read_routes s)" "rb_list rq = rb_list (fa_read_routes s) @ [route]"
        using rb_push_ok [OF rwf nf] by metis
      have "(port + 1) mod num_ports cfg < num_ports cfg" using ok by (simp add: config_ok_def)
      then show ?thesis
        using upd_port_wf [OF assms p, of ?f, OF pok] rq routed_read_wf [OF rd p]
        by (simp add: fabric_wf_def)
    qed
    have un: "untouched s ((upd_port port ?f s)\<lparr>fa_read_routes := x, fa_next_ar_port := y\<rparr>)" for x y
      by (simp add: untouched_def)
    show ?thesis
      using assms nf Some wf' un initialize_route_error [OF ok]
      by (auto simp: arbitrate_ar_def wp_simps wp_lift_result rb_front_ok [OF awf ne] q(1))
  qed
qed

lemma arbitrate_addresses_wp:
  assumes "fabric_wf cfg s"
  shows "wp (arbitrate_addresses cfg) (\<lambda>_ s'. fabric_wf cfg s' \<and> untouched s s')
    (\<lambda>e s'. fabric_wf cfg s' \<and> untouched s s' \<and> is_protocol_error e) s"
  unfolding arbitrate_addresses_def wp_then
  by (rule wp_mono [OF arbitrate_aw_wp [OF assms]])
    (auto intro: wp_mono [OF arbitrate_ar_wp] dest: untouched_trans)

end
