(* ===== verification/Fabric_Process.thy ===== *)
theory Fabric_Process
  imports Fabric_Invariant
begin

text \<open>
  The data phases of \<^verbatim>\<open>AxiFabric::commit\<close>: staging and committing writes, exclusive writes, reads, and the
  exclusive monitors. As in \<open>Fabric_Invariant\<close> each is described by a weakest-precondition lemma; together
  they give the behaviour of one clock, \<open>commit_wp\<close>.
\<close>

section \<open>The lanes of a beat\<close>

lemma enabled_extent_fold:
  fixes lanes :: "u8 list"
  assumes "n \<le> length lanes"
  defines "r \<equiv> fold (\<lambda>i (first, last). if lanes ! i \<noteq> 0 then (min first i, i + 1) else (first, last)) [0..<n] (length lanes, 0)"
  shows "(fst r = length lanes \<longleftrightarrow> (\<forall>i<n. lanes ! i = 0)) \<and> (\<forall>i<n. lanes ! i \<noteq> 0 \<longrightarrow> fst r \<le> i \<and> i < snd r) \<and>
    fst r \<le> length lanes \<and> snd r \<le> n \<and>
    (fst r \<noteq> length lanes \<longrightarrow> lanes ! fst r \<noteq> 0 \<and> fst r < snd r \<and> lanes ! (snd r - 1) \<noteq> 0)"
  unfolding r_def using assms(1)
proof (induction n)
  case (Suc n)
  let ?r = "fold (\<lambda>i (first, last). if lanes ! i \<noteq> 0 then (min first i, i + 1) else (first, last)) [0..<n] (length lanes, 0)"
  obtain first last where r: "?r = (first, last)" by fastforce
  note ih = Suc.IH [unfolded r fst_conv snd_conv]
  show ?case
  proof (cases "lanes ! n = 0")
    case True
    then show ?thesis using ih Suc.prems r by (auto simp: less_Suc_eq)
  next
    case False
    have "fold (\<lambda>i (first, last). if lanes ! i \<noteq> 0 then (min first i, i + 1) else (first, last)) [0..<Suc n] (length lanes, 0) =
        (min first n, Suc n)"
      using False r by simp
    moreover have "first = length lanes \<or> first \<noteq> length lanes \<and> min first n = first"
      using ih Suc.prems by (auto simp: min_def)
    ultimately show ?thesis using ih Suc.prems False by (auto simp: less_Suc_eq)
  qed
qed simp

lemma enabled_extent_covers:
  assumes "enabled_extent lanes = (first, count)" and "l < length lanes" and "lanes ! l \<noteq> 0"
  shows "first \<le> l" and "l < first + count" and "first + count \<le> length lanes"
proof -
  note f = enabled_extent_fold [of "length lanes" lanes, OF order_refl]
  have "\<not> (\<forall>i<length lanes. lanes ! i = 0)" using assms(2,3) by blast
  then show "first \<le> l" and "l < first + count" and "first + count \<le> length lanes"
    using assms f by (auto simp: enabled_extent_def Let_def split: prod.splits if_splits)
qed

lemma enabled_extent_tight:
  assumes "enabled_extent lanes = (first, count)" and "count \<noteq> 0"
  shows "lanes ! first \<noteq> 0" and "lanes ! (first + count - 1) \<noteq> 0" and "first + count \<le> length lanes"
  using assms enabled_extent_fold [of "length lanes" lanes, OF order_refl]
  by (auto simp: enabled_extent_def Let_def split: prod.splits if_splits)

section \<open>Device effects\<close>

lemma fabric_wf_effect:
  assumes "fabric_wf cfg s" and "heap_step (fa_heap s) h" and "length m = length (fa_monitors s)"
  shows "fabric_wf cfg (s\<lparr>fa_heap := h, fa_monitors := m\<rparr>)"
  using assms devices_ok_step [of "fa_heap s" h "fa_space s"]
  by (simp add: fabric_wf_def) (simp add: heap_step_def)

lemma invalidate_monitors_length [simp]: "length (invalidate_monitors a ms) = length ms"
  by (simp add: invalidate_monitors_def)

lemma invalidate_fold_length [simp]:
  "length (fold (\<lambda>i ms. if P i then invalidate_monitors (f i) ms else ms) xs ms) = length ms"
  by (induction xs arbitrary: ms) auto

lemma clear_monitor_length [simp]: "length (clear_monitor port i ms) = length ms"
  by (simp add: clear_monitor_def split: option.splits)

lemma slice_length [simp]: "length (slice a n xs) = min n (length xs - a)"
  by (simp add: slice_def)

lemma device_write_step:
  assumes "device_write (dev_write_impl sigma) offset data strobe (h ! i) = Inr (r, d)" and "heap_wf h"
  shows "heap_step h (h[i := d])" and "\<not> response_is_success r \<Longrightarrow> h[i := d] = h" and "r \<noteq> ExclusiveOkay"
proof -
  note f = dev.device_write_facts [OF assms(1)]
  have "same_kind (h ! i) d"
    using assms(1) dev_write_impl_kind by (auto simp: device_write_def split: if_splits)
  then show "heap_step h (h[i := d])"
    using f(1) assms(2) by (intro heap_step_update) (auto simp: heap_wf_def list_all_length)
  show "\<not> response_is_success r \<Longrightarrow> h[i := d] = h" and "r \<noteq> ExclusiveOkay"
    using f(2,3) by (auto simp: response_is_success_def)
qed

lemma device_read_step:
  assumes "device_read dev_read_impl offset data enable (h ! i) = Inr (r, out, d)" and "heap_wf h" and "i < length h"
  shows "heap_step h (h[i := d])" and "length out = length data" and "r \<noteq> ExclusiveOkay"
proof -
  have wf: "dev_wf (h ! i)" using assms(2,3) by (simp add: heap_wf_def list_all_length)
  note f = dev.device_read_facts [OF assms(1) wf]
  have "same_kind (h ! i) d"
    using assms(1) dev_read_impl_kind by (auto simp: device_read_def Let_def split: if_splits)
  then show "heap_step h (h[i := d])" using f(2) by (intro heap_step_update)
  show "length out = length data" and "r \<noteq> ExclusiveOkay" using f(1,3) by auto
qed

section \<open>The front write route\<close>

lemma fabric_wf_write_front:
  assumes "fabric_wf cfg s" and "\<not> rb_empty (fa_write_routes s)"
  shows "write_route_wf cfg (length (as_mappings (fa_space s))) (hd (rb_list (fa_write_routes s)))"
    and "rb_front (fa_write_routes s) = Inr (hd (rb_list (fa_write_routes s)))"
proof -
  have wf: "rb_wf (fa_write_routes s)" using assms(1) by (simp add: fabric_wf_def)
  then have "rb_list (fa_write_routes s) \<noteq> []" using assms(2) ring.empty_iff by blast
  then show "write_route_wf cfg (length (as_mappings (fa_space s))) (hd (rb_list (fa_write_routes s)))"
    using assms(1) by (simp add: fabric_wf_def list_all_iff)
  show "rb_front (fa_write_routes s) = Inr (hd (rb_list (fa_write_routes s)))"
    by (rule rb_front_ok [OF wf assms(2)])
qed

lemma fabric_wf_store:
  assumes "fabric_wf cfg s" and "\<not> rb_empty (fa_write_routes s)"
    and "write_route_wf cfg (length (as_mappings (fa_space s))) route"
  shows "fabric_wf cfg (s\<lparr>fa_write_routes := rb_set_front route (fa_write_routes s)\<rparr>)"
    and "\<not> rb_empty (rb_set_front route (fa_write_routes s))"
    and "hd (rb_list (rb_set_front route (fa_write_routes s))) = route"
proof -
  have wf: "rb_wf (fa_write_routes s)" and ne: "rb_size (fa_write_routes s) \<noteq> 0"
    using assms by (simp_all add: fabric_wf_def rb_empty_def)
  note f = rb_set_front_facts [OF wf ne, of route]
  show "fabric_wf cfg (s\<lparr>fa_write_routes := rb_set_front route (fa_write_routes s)\<rparr>)"
    using assms f by (simp add: fabric_wf_def list_all_tl)
  show "\<not> rb_empty (rb_set_front route (fa_write_routes s))"
    and "hd (rb_list (rb_set_front route (fa_write_routes s))) = route"
    using f assms(2) by (simp_all add: rb_empty_def)
qed

text \<open>The last change of a route and its completion: the route leaves the queue, so nothing is asked of it.\<close>

lemma write_phase_complete:
  assumes "fabric_wf cfg s" and "\<not> rb_empty (fa_write_routes s)" and "rt_port route < num_ports cfg"
    and "\<not> rb_full (ps_b (fa_ports s ! rt_port route))"
  shows "wp (then_exec (store_route route) (complete_write_route route))
    (\<lambda>_ s'. fabric_wf cfg s' \<and> fa_heap s' = fa_heap s \<and> fa_space s' = fa_space s \<and> fa_monitors s' = fa_monitors s \<and>
       fa_suppress_read s' = fa_suppress_read s) (\<lambda>e s'. False) s"
proof -
  note pw = fabric_wf_port [OF assms(1,3)]
  let ?resp = "\<lparr>b_id = ax_id (rt_payload route), b_response = wr_response route,
      b_exit_response = wr_exit_response route, b_exit_code = wr_exit_code route\<rparr>"
  have "rb_wf (ps_b (fa_ports s ! rt_port route))" using pw by (simp add: port_wf_def)
  then obtain q where q: "rb_push ?resp (ps_b (fa_ports s ! rt_port route)) = (True, q)" "rb_wf q"
    "rb_capacity q = rb_capacity (ps_b (fa_ports s ! rt_port route))"
    using rb_push_ok [OF _ assms(4)] by metis
  let ?f = "\<lambda>p. p\<lparr>ps_b := snd (rb_push ?resp (ps_b p))\<rparr>"
  have pok: "port_wf cfg (?f (fa_ports s ! rt_port route))" using pw q by (simp add: port_wf_def)
  have wf1: "fabric_wf cfg (upd_port (rt_port route) ?f s)" by (rule upd_port_wf [OF assms(1,3), of ?f, OF pok])
  have rwf: "rb_wf (fa_write_routes s)" and ne: "rb_size (fa_write_routes s) \<noteq> 0"
    using assms(1,2) by (simp_all add: fabric_wf_def rb_empty_def)
  note sf = rb_set_front_facts [OF rwf ne, of route]
  have ne2: "\<not> rb_empty (rb_set_front route (fa_write_routes s))" using sf(3) ne by (simp add: rb_empty_def)
  obtain rq where rq: "rb_pop (rb_set_front route (fa_write_routes s)) = Inr rq" "rb_wf rq"
    "rb_capacity rq = rb_capacity (fa_write_routes s)" "rb_list rq = tl (rb_list (fa_write_routes s))"
    using rb_pop_ok [OF sf(1) ne2] sf(2,4) by (metis list.sel(3))
  have eq: "upd_port (rt_port route) ?f (s\<lparr>fa_write_routes := x\<rparr>)\<lparr>fa_write_routes := rq\<rparr> =
      (upd_port (rt_port route) ?f s)\<lparr>fa_write_routes := rq\<rparr>" for x
    by (simp add: upd_port_def)
  have "fabric_wf cfg ((upd_port (rt_port route) ?f s)\<lparr>fa_write_routes := rq\<rparr>)"
    using wf1 rq by (simp add: fabric_wf_def list_all_tl)
  then show ?thesis
    by (simp add: complete_write_route_def store_route_def Let_def wp_simps rq(1) eq)
qed

section \<open>Committing a write\<close>

definition device_effect :: "fabric \<Rightarrow> fabric \<Rightarrow> bool" where
  "device_effect s s' \<longleftrightarrow>
     (\<exists>h m. s' = s\<lparr>fa_heap := h, fa_monitors := m\<rparr> \<and> heap_step (fa_heap s) h \<and> length m = length (fa_monitors s))"

lemma device_effect_refl [simp]: "device_effect s s"
  unfolding device_effect_def by (rule exI [of _ "fa_heap s"], rule exI [of _ "fa_monitors s"]) simp

lemma device_effect_wf: "fabric_wf cfg s \<Longrightarrow> device_effect s s' \<Longrightarrow> fabric_wf cfg s'"
  by (auto simp: device_effect_def intro: fabric_wf_effect)

lemma device_effect_simps:
  assumes "device_effect s s'"
  shows "fa_space s' = fa_space s" "fa_ports s' = fa_ports s" "fa_write_routes s' = fa_write_routes s"
    "fa_read_routes s' = fa_read_routes s" "fa_suppress_read s' = fa_suppress_read s"
  using assms by (auto simp: device_effect_def)

lemma write_device_beat_wp:
  assumes "fabric_wf cfg s" and "valid_burst cfg payload c" and "i < bc_beats c"
    and "length data = data_bytes cfg" and "length strobe = data_bytes cfg"
  shows "wp (write_device_beat cfg route k c i data strobe)
    (\<lambda>(r, route') s'. device_effect s s' \<and>
       (\<exists>x code. route' = route\<lparr>wr_exit_response := x, wr_exit_code := code\<rparr>)) (\<lambda>e s'. False) s"
proof -
  have ok: "config_ok cfg" and hwf: "heap_wf (fa_heap s)" using assms(1) by (simp_all add: fabric_wf_def)
  obtain base lanes where b: "bus_word_address (data_bytes cfg) c i = Inr base"
    "lane_mask (data_bytes cfg) c i = Inr lanes" "length lanes = data_bytes cfg"
    using valid_burst_beats [OF ok assms(2,3)] by metis
  obtain first count where e: "enabled_extent lanes = (first, count)" by fastforce
  let ?eff = "map (\<lambda>lane. if lanes ! lane \<noteq> 0 \<and> strobe ! lane \<noteq> 0 then 1 else 0) [0..<data_bytes cfg] :: u8 list"
  let ?m = "as_mappings (fa_space s) ! k"
  have len: "length (slice first count ?eff) = length (slice first count data)" by (simp add: assms(4))
  obtain r d where w: "device_write (dev_write_impl (heap_signal (fa_heap s))) (base + of_nat first - mp_base ?m)
      (slice first count data) (slice first count ?eff) (fa_heap s ! mp_device ?m) = Inr (r, d)"
    using dev.device_write_total [OF len] by blast
  note hs = device_write_step(1) [OF w hwf]
  have eff: "device_effect s (s\<lparr>fa_heap := (fa_heap s)[mp_device ?m := d], fa_monitors := ms\<rparr>)"
    if "length ms = length (fa_monitors s)" for ms
    using hs that by (auto simp: device_effect_def)
  have route: "\<exists>x code. route = route\<lparr>wr_exit_response := x, wr_exit_code := code\<rparr>"
    by (rule exI [of _ "wr_exit_response route"], rule exI [of _ "wr_exit_code route"]) simp
  show ?thesis
    using eff route
    by (auto simp: write_device_beat_def wp_simps b e Let_def w)
qed

lemma gather_lane_length:
  "length (fst (gather_lane route beat base lanes lane acc)) = length (fst acc) \<and>
   length (snd (gather_lane route beat base lanes lane acc)) = length (snd acc)"
  by (simp add: gather_lane_def Let_def split: prod.splits)

lemma gather_fold_length:
  "length (fst (fold (gather_lane route beat base lanes) ls acc)) = length (fst acc) \<and>
   length (snd (fold (gather_lane route beat base lanes) ls acc)) = length (snd acc)"
  by (induction ls arbitrary: acc) (auto simp: gather_lane_length)

lemma gather_exclusive_total:
  assumes "config_ok cfg" and "valid_burst cfg payload c"
  obtains data strobe where "gather_exclusive cfg route c = Inr (data, strobe)" "length data = 128" "length strobe = 128"
proof -
  have all: "\<exists>r. result_fold (gather_beat cfg route c) bs acc = Inr r \<and>
      length (fst r) = length (fst acc) \<and> length (snd r) = length (snd acc)"
    if "\<forall>b\<in>set bs. b < bc_beats c" for bs acc
    using that
  proof (induction bs arbitrary: acc)
    case Nil
    then show ?case by simp
  next
    case (Cons b bs)
    obtain base lanes where "bus_word_address (data_bytes cfg) c b = Inr base" "lane_mask (data_bytes cfg) c b = Inr lanes"
      using valid_burst_beats [OF assms, of b] Cons.prems by (metis list.set_intros(1))
    then have "gather_beat cfg route c b acc = Inr (fold (gather_lane route b base lanes) [0..<data_bytes cfg] acc)"
      by (simp add: gather_beat_def)
    then show ?case
      using Cons.IH [of "fold (gather_lane route b base lanes) [0..<data_bytes cfg] acc"] Cons.prems
      by (simp add: gather_fold_length)
  qed
  have "\<exists>r. gather_exclusive cfg route c = Inr r \<and> length (fst r) = 128 \<and> length (snd r) = 128"
    unfolding gather_exclusive_def using all [of "[0..<bc_beats c]" "(replicate 128 0, replicate 128 0)"] by simp
  then show ?thesis using that by (metis prod.collapse)
qed

lemma finish_exclusive_write_wp:
  assumes "fabric_wf cfg s" and "valid_burst cfg payload c"
  shows "wp (finish_exclusive_write cfg route c)
    (\<lambda>route' s'. device_effect s s' \<and> (\<exists>r. route' = route\<lparr>wr_response := r\<rparr>)) (\<lambda>e s'. False) s"
proof -
  have ok: "config_ok cfg" and hwf: "heap_wf (fa_heap s)" using assms(1) by (simp_all add: fabric_wf_def)
  obtain data strobe where g: "gather_exclusive cfg route c = Inr (data, strobe)" "length data = 128" "length strobe = 128"
    using gather_exclusive_total [OF ok assms(2)] by metis
  let ?m = "as_mappings (fa_space s) ! the (rt_mapping route)"
  let ?total = "bc_beats c * bc_beat_bytes c"
  have len: "length (take ?total strobe) = length (take ?total data)" by (simp add: g)
  obtain r d where w: "device_write (dev_write_impl (heap_signal (fa_heap s))) (ax_address (rt_payload route) - mp_base ?m)
      (take ?total data) (take ?total strobe) (fa_heap s ! mp_device ?m) = Inr (r, d)"
    using dev.device_write_total [OF len] by blast
  note hs = device_write_step(1) [OF w hwf]
  have mon: "device_effect s (s\<lparr>fa_monitors := ms\<rparr>)" if "length ms = length (fa_monitors s)" for ms
    unfolding device_effect_def using that by (intro exI [of _ "fa_heap s"] exI [of _ ms]) simp
  have eff: "device_effect s (s\<lparr>fa_heap := (fa_heap s)[mp_device ?m := d], fa_monitors := ms\<rparr>)"
    if "length ms = length (fa_monitors s)" for ms
    using hs that by (auto simp: device_effect_def)
  show ?thesis
  proof (cases "rt_forced route \<noteq> Okay \<or> rt_mapping route = None")
    case True
    then show ?thesis using mon by (auto simp: finish_exclusive_write_def wp_simps Let_def)
  next
    case False
    show ?thesis
    proof (cases "find_monitor (rt_port route) (ax_id (rt_payload route)) (fa_monitors s)")
      case None
      then show ?thesis using False mon by (auto simp: finish_exclusive_write_def wp_simps Let_def)
    next
      case (Some i)
      then show ?thesis
        using False mon eff by (auto simp: finish_exclusive_write_def wp_simps Let_def g(1) w)
    qed
  qed
qed

text \<open>A committed write either reaches a device, and then suppresses the read of this clock, or leaves
  every device alone.\<close>

definition write_phase :: "fabric_config \<Rightarrow> fabric \<Rightarrow> fabric \<Rightarrow> bool" where
  "write_phase cfg s s' \<longleftrightarrow> fabric_wf cfg s' \<and> fa_space s' = fa_space s \<and> heap_step (fa_heap s) (fa_heap s') \<and>
     (fa_suppress_read s' \<or> fa_heap s' = fa_heap s)"

lemma write_done_wp:
  assumes "fabric_wf cfg s" and "\<not> rb_empty (fa_write_routes s)" and "\<not> rb_full (ps_b (fa_ports s ! rt_port route))"
    and "rt_port route < num_ports cfg" and "device_effect (s\<lparr>fa_suppress_read := True\<rparr>) t"
  shows "wp (then_exec (store_route route) (complete_write_route route)) (\<lambda>_. write_phase cfg s) (\<lambda>e s'. False) t"
proof -
  have "fabric_wf cfg t" by (rule device_effect_wf [OF _ assms(5)]) (use assms(1) in simp)
  moreover have "heap_step (fa_heap s) (fa_heap t)" using assms(5) by (auto simp: device_effect_def)
  ultimately show ?thesis
    by (intro wp_mono [OF write_phase_complete [of cfg t route]])
      (use device_effect_simps [OF assms(5)] assms(2-4) in \<open>auto simp: write_phase_def\<close>)
qed

text \<open>After a beat has been written, the route is stored with the next commit index, or completed after the last beat
  and after a failed one.\<close>

lemma write_step_wp:
  assumes "fabric_wf cfg s" and "\<not> rb_empty (fa_write_routes s)" and "\<not> rb_full (ps_b (fa_ports s ! rt_port route))"
    and "write_route_wf cfg (length (as_mappings (fa_space s))) route" and "valid_burst cfg (rt_payload route) c"
    and "wr_commit_beat route < bc_beats c" and "device_effect (s\<lparr>fa_suppress_read := True\<rparr>) t"
    and "route1 = route\<lparr>wr_exit_response := x, wr_exit_code := code\<rparr>"
    and "route' = route1\<lparr>wr_response := resp, wr_commit_beat := (if succ then wr_commit_beat route1 + 1 else bc_beats c)\<rparr>"
  shows "wp (then_exec (store_route route')
      (if wr_commit_beat route' = bc_beats c then complete_write_route route' else return_exec ()))
    (\<lambda>_. write_phase cfg s) (\<lambda>e s'. False) t"
proof (cases "wr_commit_beat route' = bc_beats c")
  case True
  moreover have "rt_port route' = rt_port route" "rt_port route < num_ports cfg"
    using assms(4,8,9) by (simp_all add: write_route_wf_def route_wf_def)
  ultimately show ?thesis using write_done_wp [OF assms(1,2) _ _ assms(7), of route'] assms(3) by simp
next
  case False
  have twf: "fabric_wf cfg t" by (rule device_effect_wf [OF _ assms(7)]) (use assms(1) in simp)
  have "config_ok cfg" using assms(1) by (simp add: fabric_wf_def)
  then have "write_route_wf cfg (length (as_mappings (fa_space s))) route'"
    using False assms(4,6,8,9) valid_burst_cursor [OF _ assms(5)] by (auto simp: write_route_wf_def route_wf_def split: if_splits)
  then have "fabric_wf cfg (t\<lparr>fa_write_routes := rb_set_front route' (fa_write_routes t)\<rparr>)"
    using fabric_wf_store(1) [of cfg t route'] twf device_effect_simps [OF assms(7)] assms(2) by simp
  moreover have "heap_step (fa_heap s) (fa_heap t)" using assms(7) by (auto simp: device_effect_def)
  ultimately show ?thesis
    using False device_effect_simps [OF assms(7)] by (auto simp: wp_simps store_route_def write_phase_def)
qed

lemma process_write_commit_wp:
  assumes "fabric_wf cfg s" and "\<not> rb_empty (fa_write_routes s)"
    and "write_route_wf cfg (length (as_mappings (fa_space s))) route" and "valid_burst cfg (rt_payload route) c"
  shows "wp (process_write_commit cfg route c) (\<lambda>_. write_phase cfg s) (\<lambda>e s'. False) s"
proof -
  let ?s = "s\<lparr>fa_suppress_read := True\<rparr>" and ?Q = "\<lambda>_. write_phase cfg s" and ?E = "\<lambda>e s'. False"
  have s1: "fabric_wf cfg ?s" using assms(1) by simp
  have p: "rt_port route < num_ports cfg" using assms(3) by (simp add: write_route_wf_def route_wf_def)
  have "config_ok cfg" using assms(1) by (simp add: fabric_wf_def)
  note vb = valid_burst_cursor [OF this assms(4)]
  consider (full) "rb_full (ps_b (fa_ports s ! rt_port route))"
    | (exclusive) "\<not> rb_full (ps_b (fa_ports s ! rt_port route))" "rt_exclusive route"
    | (forced) "\<not> rb_full (ps_b (fa_ports s ! rt_port route))" "\<not> rt_exclusive route" "rt_forced route \<noteq> Okay \<or> rt_mapping route = None"
    | (mapped) "\<not> rb_full (ps_b (fa_ports s ! rt_port route))" "\<not> rt_exclusive route" "\<not> (rt_forced route \<noteq> Okay \<or> rt_mapping route = None)"
    by metis
  then show ?thesis
  proof cases
    case full
    then show ?thesis using assms(1) by (simp add: process_write_commit_def wp_simps write_phase_def)
  next
    case exclusive
    have "wp (finish_exclusive_write cfg route c)
        (\<lambda>route'. wp (then_exec (store_route route') (complete_write_route route')) ?Q ?E) ?E ?s"
      by (rule wp_mono [OF finish_exclusive_write_wp [OF s1 assms(4)]])
        (use write_done_wp [OF assms(1,2)] exclusive(1) p in auto)
    then show ?thesis using exclusive by (simp add: process_write_commit_def wp_simps)
  next
    case forced
    let ?r = "route\<lparr>wr_response := combine_response (wr_response route) (rt_forced route)\<rparr>"
    have "wp (then_exec (store_route ?r) (complete_write_route ?r)) ?Q ?E s"
      by (rule wp_mono [OF write_phase_complete [OF assms(1,2), of ?r]]) (use forced(1) p in \<open>auto simp: write_phase_def\<close>)
    then show ?thesis using forced by (auto simp: process_write_commit_def wp_simps Let_def)
  next
    case mapped
    have i: "wr_commit_beat route < bc_beats c" using assms(3) vb by (auto simp: write_route_wf_def)
    have l: "length (wr_staged_data route ! wr_commit_beat route) = data_bytes cfg"
      "length (wr_staged_strobe route ! wr_commit_beat route) = data_bytes cfg"
      using assms(3) vb i by (auto simp: write_route_wf_def list_all_length)
    note step = write_step_wp [OF assms(1,2) mapped(1) assms(3,4) i]
    have "wp (write_device_beat cfg route (the (rt_mapping route)) c (wr_commit_beat route)
           (wr_staged_data route ! wr_commit_beat route) (wr_staged_strobe route ! wr_commit_beat route))
       (\<lambda>(response, route1).
          wp (let route2 = route1\<lparr>wr_response := combine_response (wr_response route1) response,
                   wr_commit_beat := (if response_is_success response then wr_commit_beat route1 + 1 else bc_beats c)\<rparr>
             in then_exec (store_route route2)
                  (if wr_commit_beat route2 = bc_beats c then complete_write_route route2 else return_exec ())) ?Q ?E) ?E ?s"
      by (rule wp_mono [OF write_device_beat_wp [OF s1 assms(4) i l]])
        (auto simp only: Let_def prod.case intro!: step [OF _ refl refl])
    then show ?thesis
      using mapped by (auto simp: process_write_commit_def wp_simps split_def)
  qed
qed

text \<open>The front route after one more beat has been staged, and the state in which it is.\<close>

definition staged_route :: "write_route \<Rightarrow> write_data_payload \<Rightarrow> write_route" where
  "staged_route r beat = r\<lparr>wr_staged_data := (wr_staged_data r)[rt_beat r := w_data beat],
     wr_staged_strobe := (wr_staged_strobe r)[rt_beat r := w_strobe beat],
     rt_beat := rt_beat r + 1, wr_data_complete := (rt_beat r = unat (ax_length (rt_payload r)))\<rparr>"

definition staged_state :: "write_route \<Rightarrow> write_data_payload ring_buffer \<Rightarrow> fabric \<Rightarrow> fabric" where
  "staged_state r q s = (upd_port (rt_port r) (\<lambda>p. p\<lparr>ps_w := q\<rparr>) s)\<lparr>fa_write_routes := rb_set_front r (fa_write_routes s)\<rparr>"

lemma staged_route_wf:
  assumes "config_ok cfg" and "write_route_wf cfg n r" and "\<not> wr_data_complete r"
    and "beat_wf (data_bytes cfg) beat" and "legal_strobe cfg (rt_payload r) (rt_beat r) (w_strobe beat)"
  shows "write_route_wf cfg n (staged_route r beat)"
proof -
  have b: "rt_beat r \<le> unat (ax_length (rt_payload r))" using assms(2,3) by (simp add: write_route_wf_def)
  have "unat (ax_length (rt_payload r)) < 256" using unsigned_less [where 'a = nat, of "ax_length (rt_payload r)"] by simp
  then have "rt_beat r < 256" using b by simp
  then show ?thesis
    using assms b
    by (auto simp: staged_route_def write_route_wf_def route_wf_def beat_wf_def list_all_length nth_list_update less_Suc_eq)
qed

text \<open>The steps of \<^verbatim>\<open>process_write_beat\<close> while the burst is being collected.\<close>

lemma process_write_beat_collect:
  assumes "fabric_wf cfg s" and "\<not> rb_empty (fa_write_routes s)" and "r = hd (rb_list (fa_write_routes s))"
    and "\<not> wr_data_complete r" and "\<not> rb_empty (ps_w (fa_ports s ! rt_port r))"
    and "beat = hd (rb_list (ps_w (fa_ports s ! rt_port r)))" and "valid_burst cfg (rt_payload r) c"
  obtains q msg where "fabric_wf cfg (staged_state (staged_route r beat) q s) \<or>
      \<not> legal_strobe cfg (rt_payload r) (rt_beat r) (w_strobe beat)"
    "process_write_beat cfg s =
      (if w_last beat \<noteq> (rt_beat r = unat (ax_length (rt_payload r))) \<or>
          \<not> legal_strobe cfg (rt_payload r) (rt_beat r) (w_strobe beat)
       then (Inl (protocol_error s (rt_port r) ''W'' msg (Some (rt_payload r))), s)
       else if \<not> wr_data_complete (staged_route r beat) then (Inr (), staged_state (staged_route r beat) q s)
       else process_write_commit cfg (staged_route r beat) c (staged_state (staged_route r beat) q s))"
proof -
  have ok: "config_ok cfg" using assms(1) by (simp add: fabric_wf_def)
  note front = fabric_wf_write_front [OF assms(1,2), folded assms(3)]
  have cur: "burst_cursor_new (data_bytes cfg) (rt_payload r) = Inr c" using assms(7) by (simp add: valid_burst_def)
  note vb = valid_burst_cursor [OF ok assms(7)]
  have p: "rt_port r < num_ports cfg" using front(1) by (simp add: write_route_wf_def route_wf_def)
  note pw = fabric_wf_port [OF assms(1) p]
  let ?src = "ps_w (fa_ports s ! rt_port r)"
  have wwf: "rb_wf ?src" using pw by (simp add: port_wf_def)
  have i: "rt_beat r < bc_beats c" using front(1) assms(4) vb by (simp add: write_route_wf_def)
  obtain lanes where lanes: "lane_mask (data_bytes cfg) c (rt_beat r) = Inr lanes"
    using valid_burst_beats [OF ok assms(7) i] by metis
  obtain q where q: "rb_pop ?src = Inr q" "rb_wf q" "rb_capacity q = rb_capacity ?src" "rb_list q = tl (rb_list ?src)"
    using rb_pop_ok [OF wwf assms(5)] by metis
  have bwf: "beat_wf (data_bytes cfg) beat"
    using pw assms(5,6) ring.empty_iff [OF wwf] by (simp add: port_wf_def list_all_iff)
  let ?r1 = "staged_route r beat"
  have port1: "rt_port ?r1 = rt_port r" by (simp add: staged_route_def)
  have wf: "fabric_wf cfg (staged_state ?r1 q s)" if "legal_strobe cfg (rt_payload r) (rt_beat r) (w_strobe beat)"
  proof -
    let ?f = "\<lambda>p. p\<lparr>ps_w := q\<rparr>"
    have pok: "port_wf cfg (?f (fa_ports s ! rt_port r))" using pw q by (simp add: port_wf_def list_all_tl)
    have wf1: "fabric_wf cfg (upd_port (rt_port r) ?f s)" by (rule upd_port_wf [OF assms(1) p, of ?f, OF pok])
    show ?thesis
      using fabric_wf_store(1) [OF wf1, of ?r1] assms(2) staged_route_wf [OF ok front(1) assms(4) bwf that]
      by (simp add: staged_state_def port1)
  qed
  have legal: "legal_strobe cfg (rt_payload r) (rt_beat r) (w_strobe beat) \<longleftrightarrow>
      \<not> list_ex (\<lambda>lane. w_strobe beat ! lane \<noteq> 0 \<and> lanes ! lane = 0) [0..<data_bytes cfg]"
    by (auto simp: legal_strobe_def cur lanes list_ex_iff)
  define final where "final \<longleftrightarrow> rt_beat r = unat (ax_length (rt_payload r))"
  have last: "Suc (rt_beat r) = bc_beats c \<longleftrightarrow> final" using vb by (simp add: final_def)
  define msg where "msg = (if w_last beat \<noteq> final
      then (if final then ''WLAST missing on final beat'' else ''WLAST asserted before final beat'')
      else ''WSTRB selects an illegal byte lane'')"
  have "process_write_beat cfg s =
      (if w_last beat \<noteq> final \<or> \<not> legal_strobe cfg (rt_payload r) (rt_beat r) (w_strobe beat)
       then (Inl (protocol_error s (rt_port r) ''W'' msg (Some (rt_payload r))), s)
       else if \<not> wr_data_complete ?r1 then (Inr (), staged_state ?r1 q s)
       else process_write_commit cfg ?r1 c (staged_state ?r1 q s))"
    unfolding legal process_write_beat_def Let_def staged_state_def staged_route_def final_def [symmetric] msg_def
    using assms(2,4,5)
    by (simp add: exec_defs front(2) cur assms(6) [symmetric] rb_front_ok [OF wwf assms(5)] lanes q(1) last)
  then show ?thesis using that [of q msg] wf unfolding final_def by blast
qed

lemma process_write_beat_wp:
  assumes "fabric_wf cfg s"
  shows "wp (process_write_beat cfg) (\<lambda>_. write_phase cfg s)
    (\<lambda>e s'. s' = s \<and> is_protocol_error e) s"
proof (cases "rb_empty (fa_write_routes s)")
  case True
  then show ?thesis using assms by (simp add: process_write_beat_def wp_simps write_phase_def)
next
  case ne: False
  let ?r = "hd (rb_list (fa_write_routes s))"
  let ?b = "hd (rb_list (ps_w (fa_ports s ! rt_port ?r)))"
  have ok: "config_ok cfg" using assms by (simp add: fabric_wf_def)
  note front = fabric_wf_write_front [OF assms ne]
  obtain c where c: "valid_burst cfg (rt_payload ?r) c"
    using front(1) by (auto simp: write_route_wf_def route_wf_def)
  then have cur: "burst_cursor_new (data_bytes cfg) (rt_payload ?r) = Inr c" by (simp add: valid_burst_def)
  show ?thesis
  proof (cases "wr_data_complete ?r")
    case True
    then show ?thesis
      using ne wp_mono [OF process_write_commit_wp [OF assms ne front(1) c]]
      by (simp add: process_write_beat_def wp_simps front(2) cur)
  next
    case nc: False
    show ?thesis
    proof (cases "rb_empty (ps_w (fa_ports s ! rt_port ?r))")
      case True
      then show ?thesis
        using ne nc assms by (simp add: process_write_beat_def wp_simps front(2) cur Let_def write_phase_def)
    next
      case src: False
      let ?legal = "legal_strobe cfg (rt_payload ?r) (rt_beat ?r) (w_strobe ?b)"
      obtain q msg where wf: "fabric_wf cfg (staged_state (staged_route ?r ?b) q s) \<or> \<not> ?legal"
        and eq: "process_write_beat cfg s =
          (if w_last ?b \<noteq> (rt_beat ?r = unat (ax_length (rt_payload ?r))) \<or> \<not> ?legal
           then (Inl (protocol_error s (rt_port ?r) ''W'' msg (Some (rt_payload ?r))), s)
           else if \<not> wr_data_complete (staged_route ?r ?b) then (Inr (), staged_state (staged_route ?r ?b) q s)
           else process_write_commit cfg (staged_route ?r ?b) c (staged_state (staged_route ?r ?b) q s))"
        by (rule process_write_beat_collect [OF assms ne refl nc src refl c])
      let ?t = "staged_state (staged_route ?r ?b) q s"
      have same: "fa_space ?t = fa_space s" "fa_heap ?t = fa_heap s" by (simp_all add: staged_state_def)
      have com: "wp (process_write_commit cfg (staged_route ?r ?b) c) (\<lambda>_. write_phase cfg s)
          (\<lambda>e s'. s' = s \<and> is_protocol_error e) ?t" if twf: "fabric_wf cfg ?t"
      proof -
        have rw: "rb_wf (fa_write_routes s)" "rb_size (fa_write_routes s) \<noteq> 0"
          using assms ne by (simp_all add: fabric_wf_def rb_empty_def)
        have tne: "\<not> rb_empty (fa_write_routes ?t)"
          using rb_set_front_facts [OF rw, of "staged_route ?r ?b"] rw by (simp add: staged_state_def rb_empty_def)
        have hd: "hd (rb_list (fa_write_routes ?t)) = staged_route ?r ?b"
          using rb_set_front_facts [OF rw, of "staged_route ?r ?b"] by (simp add: staged_state_def)
        have "valid_burst cfg (rt_payload (staged_route ?r ?b)) c" using c by (simp add: staged_route_def)
        then show ?thesis
          using wp_mono [OF process_write_commit_wp [OF twf tne fabric_wf_write_front(1) [OF twf tne], unfolded hd, of c]]
          by (simp add: write_phase_def same)
      qed
      show ?thesis
        using com wf by (auto simp: wp_def eq write_phase_def same)
    qed
  qed
qed

section \<open>Reading\<close>

lemma fabric_wf_read_front:
  assumes "fabric_wf cfg s" and "\<not> rb_empty (fa_read_routes s)"
  shows "read_route_wf cfg (length (as_mappings (fa_space s))) (hd (rb_list (fa_read_routes s)))"
    and "rb_front (fa_read_routes s) = Inr (hd (rb_list (fa_read_routes s)))"
proof -
  have wf: "rb_wf (fa_read_routes s)" using assms(1) by (simp add: fabric_wf_def)
  then have "rb_list (fa_read_routes s) \<noteq> []" using assms(2) ring.empty_iff by blast
  then show "read_route_wf cfg (length (as_mappings (fa_space s))) (hd (rb_list (fa_read_routes s)))"
    using assms(1) by (simp add: fabric_wf_def list_all_iff)
  show "rb_front (fa_read_routes s) = Inr (hd (rb_list (fa_read_routes s)))"
    by (rule rb_front_ok [OF wf assms(2)])
qed

lemma establish_monitor_wp:
  assumes "fabric_wf cfg s" and "valid_burst cfg (rt_payload route) c"
  shows "wp (establish_monitor cfg route)
    (\<lambda>_ s'. \<exists>m. s' = s\<lparr>fa_monitors := m\<rparr> \<and> length m = length (fa_monitors s))
    (\<lambda>e s'. s' = s \<and> is_protocol_error e) s"
  using assms(2)
  by (auto simp: establish_monitor_def wp_simps valid_burst_def Let_def split: option.splits)

lemma read_device_beat_total:
  assumes "fabric_wf cfg s" and "valid_burst cfg (rt_payload route) c" and "rt_beat route < bc_beats c"
    and "k < length (as_mappings (fa_space s))"
  obtains r data h where "read_device_beat cfg s route k c = Inr (r, data, h)" "heap_step (fa_heap s) h" "length data = data_bytes cfg"
proof -
  have ok: "config_ok cfg" and hwf: "heap_wf (fa_heap s)" and dok: "devices_ok (fa_space s) (fa_heap s)"
    using assms(1) by (simp_all add: fabric_wf_def)
  obtain base lanes where b: "bus_word_address (data_bytes cfg) c (rt_beat route) = Inr base"
    "lane_mask (data_bytes cfg) c (rt_beat route) = Inr lanes" "length lanes = data_bytes cfg"
    using valid_burst_beats [OF ok assms(2,3)] by metis
  obtain first count where e: "enabled_extent lanes = (first, count)" by fastforce
  let ?m = "as_mappings (fa_space s) ! k"
  have i: "mp_device ?m < length (fa_heap s)" using dok assms(4) by (simp add: devices_ok_def list_all_length)
  have len: "length (slice first count lanes) = length (slice first count (replicate (data_bytes cfg) (0 :: u8)))"
    by (simp add: b(3))
  obtain r out d where rd: "device_read dev_read_impl (base + of_nat first - mp_base ?m)
      (slice first count (replicate (data_bytes cfg) 0)) (slice first count lanes) (fa_heap s ! mp_device ?m) = Inr (r, out, d)"
    using dev.device_read_total [OF len] by blast
  show ?thesis
  proof (cases "count = 0")
    case True
    then show ?thesis using that b e by (simp add: read_device_beat_def Let_def)
  next
    case False
    have "length out = count" "first + count \<le> data_bytes cfg"
      using device_read_step(2) [OF rd hwf i] enabled_extent_tight(3) [OF e False] b(3) by simp_all
    then show ?thesis
      using False that b e rd device_read_step(1) [OF rd hwf i] by (simp add: read_device_beat_def Let_def)
  qed
qed

text \<open>Delivering a read beat: push it, advance the route, and drop the route after its last beat.\<close>

lemma deliver_read_wp:
  assumes "fabric_wf cfg s" and "\<not> rb_empty (fa_read_routes s)" and "route = hd (rb_list (fa_read_routes s))"
    and "\<not> rb_full (ps_r (fa_ports s ! rt_port route))" and "valid_burst cfg (rt_payload route) c"
    and "heap_step (fa_heap s) h" and "route' = route\<lparr>rt_beat := rt_beat route + 1\<rparr>" and "length (r_data beat) = data_bytes cfg"
  shows "wp (then_exec
      (modify_exec (\<lambda>s. (upd_port (rt_port route) (\<lambda>p. p\<lparr>ps_r := snd (rb_push beat (ps_r p))\<rparr>) s)
         \<lparr>fa_heap := h, fa_read_routes := rb_set_front route' (fa_read_routes s)\<rparr>))
      (if rt_beat route' = bc_beats c
       then read_exec (\<lambda>s. bind_exec (lift_result (rb_pop (fa_read_routes s))) (\<lambda>q.
              modify_exec (\<lambda>s. s\<lparr>fa_read_routes := q\<rparr>)))
       else return_exec ()))
    (\<lambda>_ s'. fabric_wf cfg s' \<and> fa_space s' = fa_space s \<and> fa_heap s' = h) (\<lambda>e s'. False) s"
proof -
  have ok: "config_ok cfg" using assms(1) by (simp add: fabric_wf_def)
  note vb = valid_burst_cursor [OF ok assms(5)]
  have rr: "read_route_wf cfg (length (as_mappings (fa_space s))) route"
    using fabric_wf_read_front(1) [OF assms(1,2)] assms(3) by simp
  then have p: "rt_port route < num_ports cfg" by (simp add: read_route_wf_def route_wf_def)
  note pw = fabric_wf_port [OF assms(1) p]
  have "rb_wf (ps_r (fa_ports s ! rt_port route))" using pw by (simp add: port_wf_def)
  then obtain q where q: "rb_push beat (ps_r (fa_ports s ! rt_port route)) = (True, q)" "rb_wf q"
    "rb_capacity q = rb_capacity (ps_r (fa_ports s ! rt_port route))" "rb_list q = rb_list (ps_r (fa_ports s ! rt_port route)) @ [beat]"
    using rb_push_ok [OF _ assms(4)] by metis
  let ?f = "\<lambda>p. p\<lparr>ps_r := snd (rb_push beat (ps_r p))\<rparr>"
  have pok: "port_wf cfg (?f (fa_ports s ! rt_port route))" using pw q assms(8) by (simp add: port_wf_def)
  have wf1: "fabric_wf cfg (upd_port (rt_port route) ?f s)" by (rule upd_port_wf [OF assms(1) p, of ?f, OF pok])
  then have wf2: "fabric_wf cfg ((upd_port (rt_port route) ?f s)\<lparr>fa_heap := h\<rparr>)"
    using fabric_wf_effect [OF wf1, of h "fa_monitors s"] assms(6) by (simp add: fabric_wf_def)
  have rwf: "rb_wf (fa_read_routes s)" and ne: "rb_size (fa_read_routes s) \<noteq> 0"
    using assms(1,2) by (simp_all add: fabric_wf_def rb_empty_def)
  note sf = rb_set_front_facts [OF rwf ne, of route']
  have ne2: "\<not> rb_empty (rb_set_front route' (fa_read_routes s))" using sf(3) ne by (simp add: rb_empty_def)
  obtain rq where rq: "rb_pop (rb_set_front route' (fa_read_routes s)) = Inr rq" "rb_wf rq"
    "rb_capacity rq = rb_capacity (fa_read_routes s)" "rb_list rq = tl (rb_list (fa_read_routes s))"
    using rb_pop_ok [OF sf(1) ne2] sf(2,4) by (metis list.sel(3))
  let ?t = "\<lambda>x. (upd_port (rt_port route) ?f s)\<lparr>fa_heap := h, fa_read_routes := x\<rparr>"
  have popped: "fabric_wf cfg (?t rq)" using wf2 rq by (simp add: fabric_wf_def list_all_tl)
  have kept: "fabric_wf cfg (?t (rb_set_front route' (fa_read_routes s)))" if "rt_beat route' \<noteq> bc_beats c"
  proof -
    have "read_route_wf cfg (length (as_mappings (fa_space s))) route'"
      using rr vb that assms(7) by (auto simp: read_route_wf_def route_wf_def)
    then show ?thesis using wf2 sf by (simp add: fabric_wf_def list_all_tl)
  qed
  have simp_t: "?t x\<lparr>fa_read_routes := rq\<rparr> = ?t rq" for x by simp
  show ?thesis using popped kept by (auto simp: wp_simps rq(1))
qed

lemma wp_read_fun: "wp (read_exec g) Q E = (\<lambda>t. wp (g t) Q E t)"
  by (rule ext) (simp add: wp_read)

text \<open>What is left of a read beat once a reservation has been made: the device is read, and the beat delivered.\<close>

definition deliver_read_beat :: "read_route \<Rightarrow> burst_cursor \<Rightarrow> response \<Rightarrow> u8 list \<Rightarrow> heap \<Rightarrow> (fabric, unit) exec" where
  "deliver_read_beat route c r data h =
     (let beat = \<lparr>r_id = ax_id (rt_payload route), r_data = data, r_response = r, r_last = (rt_beat route + 1 = bc_beats c)\<rparr>;
          route' = route\<lparr>rt_beat := rt_beat route + 1\<rparr>
      in then_exec
           (modify_exec (\<lambda>s. (upd_port (rt_port route) (\<lambda>p. p\<lparr>ps_r := snd (rb_push beat (ps_r p))\<rparr>) s)
              \<lparr>fa_heap := h, fa_read_routes := rb_set_front route' (fa_read_routes s)\<rparr>))
           (if rt_beat route' = bc_beats c
            then read_exec (\<lambda>s. bind_exec (lift_result (rb_pop (fa_read_routes s))) (\<lambda>q.
                   modify_exec (\<lambda>s. s\<lparr>fa_read_routes := q\<rparr>)))
            else return_exec ()))"

definition finish_read_beat :: "fabric_config \<Rightarrow> read_route \<Rightarrow> burst_cursor \<Rightarrow> fabric \<Rightarrow> (fabric, unit) exec" where
  "finish_read_beat cfg route c s =
     bind_exec
       (lift_result (if rt_forced route = Okay \<and> rt_mapping route \<noteq> None
          then result_bind (read_device_beat cfg s route (the (rt_mapping route)) c)
                 (\<lambda>(r, data, h). Inr (if rt_exclusive route \<and> r = Okay then ExclusiveOkay else r, data, h))
          else Inr (rt_forced route, replicate (data_bytes cfg) 0, fa_heap s)))
       (\<lambda>(r, data, h). deliver_read_beat route c r data h)"

definition read_effect :: "fabric_config \<Rightarrow> fabric \<Rightarrow> fabric \<Rightarrow> bool" where
  "read_effect cfg s s' \<longleftrightarrow> fabric_wf cfg s' \<and> fa_space s' = fa_space s \<and> heap_step (fa_heap s) (fa_heap s')"

lemma finish_read_beat_wp:
  assumes "fabric_wf cfg s" and "\<not> rb_empty (fa_read_routes s)" and "route = hd (rb_list (fa_read_routes s))"
    and "\<not> rb_full (ps_r (fa_ports s ! rt_port route))" and "valid_burst cfg (rt_payload route) c"
  shows "wp (finish_read_beat cfg route c s) (\<lambda>_. read_effect cfg s) (\<lambda>e s'. False) s"
proof -
  have rw: "read_route_wf cfg (length (as_mappings (fa_space s))) route"
    using fabric_wf_read_front(1) [OF assms(1,2)] assms(3) by simp
  have "config_ok cfg" using assms(1) by (simp add: fabric_wf_def)
  then have i: "rt_beat route < bc_beats c" using rw valid_burst_cursor [OF _ assms(5)] by (simp add: read_route_wf_def)
  have del: "wp (deliver_read_beat route c r data h) (\<lambda>_. read_effect cfg s) (\<lambda>e s'. False) s"
    if "heap_step (fa_heap s) h" "length data = data_bytes cfg" for r data h
    unfolding deliver_read_beat_def Let_def
    by (rule wp_mono [OF deliver_read_wp [OF assms that(1) refl]]) (use that in \<open>auto simp: read_effect_def\<close>)
  show ?thesis
  proof (cases "rt_forced route = Okay \<and> rt_mapping route \<noteq> None")
    case True
    then have "the (rt_mapping route) < length (as_mappings (fa_space s))" using rw by (auto simp: read_route_wf_def route_wf_def)
    then obtain r data h where "read_device_beat cfg s route (the (rt_mapping route)) c = Inr (r, data, h)"
      "heap_step (fa_heap s) h" "length data = data_bytes cfg"
      using read_device_beat_total [OF assms(1,5) i] by metis
    then show ?thesis using True del by (simp add: finish_read_beat_def wp_simps)
  next
    case False
    then show ?thesis using del [of "fa_heap s"] by (auto simp: finish_read_beat_def wp_simps)
  qed
qed

lemma process_read_beat_wp:
  assumes "fabric_wf cfg s"
  shows "wp (process_read_beat cfg) (\<lambda>_ s'. fabric_wf cfg s' \<and> fa_space s' = fa_space s \<and> heap_step (fa_heap s) (fa_heap s'))
    (\<lambda>e s'. s' = s \<and> is_protocol_error e) s"
proof (cases "rb_empty (fa_read_routes s) \<or> rb_full (ps_r (fa_ports s ! rt_port (hd (rb_list (fa_read_routes s)))))")
  case True
  then show ?thesis
    using assms fabric_wf_read_front(2) [OF assms] by (auto simp: process_read_beat_def wp_simps)
next
  case False
  let ?r = "hd (rb_list (fa_read_routes s))"
  let ?Q = "\<lambda>_. read_effect cfg s" and ?E = "\<lambda>e s'. s' = s \<and> is_protocol_error e"
  have ne: "\<not> rb_empty (fa_read_routes s)" and nf: "\<not> rb_full (ps_r (fa_ports s ! rt_port ?r))" using False by simp_all
  note front = fabric_wf_read_front [OF assms ne]
  obtain c where c: "valid_burst cfg (rt_payload ?r) c" using front(1) by (auto simp: read_route_wf_def route_wf_def)
  then have cur: "burst_cursor_new (data_bytes cfg) (rt_payload ?r) = Inr c" by (simp add: valid_burst_def)
  have rest: "wp (finish_read_beat cfg ?r c t) ?Q ?E t" if "t = s\<lparr>fa_monitors := m\<rparr>" "length m = length (fa_monitors s)" for t m
    by (rule wp_mono [OF finish_read_beat_wp [of cfg t ?r c]])
      (use that assms ne nf c in \<open>auto simp: fabric_wf_def read_effect_def\<close>)
  have "wp (then_exec (if rt_exclusive ?r \<and> rt_beat ?r = 0 \<and> rt_forced ?r = Okay
        then establish_monitor cfg ?r else return_exec ()) (read_exec (finish_read_beat cfg ?r c))) ?Q ?E s"
  proof (cases "rt_exclusive ?r \<and> rt_beat ?r = 0 \<and> rt_forced ?r = Okay")
    case True
    have "wp (establish_monitor cfg ?r) (\<lambda>_ t. wp (finish_read_beat cfg ?r c t) ?Q ?E t) ?E s"
      by (rule wp_mono [OF establish_monitor_wp [OF assms c]]) (use rest in blast)+
    then show ?thesis by (simp only: if_P [OF True] wp_then wp_read_fun)
  next
    case False
    have "wp (finish_read_beat cfg ?r c s) ?Q ?E s" by (rule rest [of s "fa_monitors s"]) simp_all
    then show ?thesis by (simp only: if_not_P [OF False] wp_then wp_read wp_basic)
  qed
  then show ?thesis
    unfolding process_read_beat_def wp_read front(2) finish_read_beat_def deliver_read_beat_def read_effect_def using ne nf
    by (simp only: wp_bind wp_basic cur if_False)
qed

end
