(* ===== verification/Fabric_Handshake.thy ===== *)
theory Fabric_Handshake
  imports Fabric_Process
begin

text \<open>
  The channel handshakes of \<^verbatim>\<open>AxiFabric\<close>: what \<^verbatim>\<open>retire_responses\<close> and \<^verbatim>\<open>accept_ingress\<close> do to the queues of every
  port after \<^verbatim>\<open>drive\<close>. Both loops are shown equal to a simultaneous, port-wise update of the queues; in
  particular the ``internal FIFO overflow'' exceptions are unreachable and no payload is lost, duplicated
  or reordered between the pins and the queues.
\<close>

section \<open>Loops over the ports\<close>

lemma foreach_fold_rest:
  assumes "\<And>x rest t. I (x # rest) t \<Longrightarrow> f x t = (Inr (), h x t) \<and> I rest (h x t)" and "I xs s"
  shows "foreach_exec xs f s = (Inr (), fold h xs s)"
  using assms(2)
proof (induction xs arbitrary: s)
  case Nil
  then show ?case by (simp add: exec_defs)
next
  case (Cons x xs)
  then show ?case using assms(1) [of x xs s] by (simp add: then_exec_def bind_exec_def)
qed

lemma fold_upd_port:
  assumes "distinct xs" and "\<forall>p\<in>set xs. p < length (fa_ports s)"
  shows "fold (\<lambda>p. upd_port p (g p)) xs s =
    s\<lparr>fa_ports := map (\<lambda>p. if p \<in> set xs then g p (fa_ports s ! p) else fa_ports s ! p) [0..<length (fa_ports s)]\<rparr>"
  using assms
proof (induction xs arbitrary: s)
  case Nil
  then show ?case by (simp add: map_nth)
next
  case (Cons x xs)
  have len: "length (fa_ports (upd_port x (g x) s)) = length (fa_ports s)" by simp
  have "fold (\<lambda>p. upd_port p (g p)) (x # xs) s = (upd_port x (g x) s)\<lparr>fa_ports :=
      map (\<lambda>p. if p \<in> set xs then g p (fa_ports (upd_port x (g x) s) ! p) else fa_ports (upd_port x (g x) s) ! p)
        [0..<length (fa_ports s)]\<rparr>"
    using Cons.IH [of "upd_port x (g x) s"] Cons.prems len by simp
  also have "\<dots> = s\<lparr>fa_ports := map (\<lambda>p. if p \<in> set xs then g p (fa_ports (upd_port x (g x) s) ! p)
      else fa_ports (upd_port x (g x) s) ! p) [0..<length (fa_ports s)]\<rparr>"
    by (simp add: upd_port_def)
  also have "map (\<lambda>p. if p \<in> set xs then g p (fa_ports (upd_port x (g x) s) ! p)
      else fa_ports (upd_port x (g x) s) ! p) [0..<length (fa_ports s)] =
    map (\<lambda>p. if p \<in> set (x # xs) then g p (fa_ports s ! p) else fa_ports s ! p) [0..<length (fa_ports s)]"
    using Cons.prems by (auto simp: upd_port_nth)
  finally show ?case .
qed

text \<open>The two facts together: a loop over all ports whose body updates its own port.\<close>

lemma foreach_ports:
  assumes "length (fa_ports s) = n"
    and "\<And>p t. p < n \<Longrightarrow> fa_outputs t = fa_outputs s \<Longrightarrow> fa_ports t ! p = fa_ports s ! p \<Longrightarrow>
      length (fa_ports t) = n \<Longrightarrow> f p t = (Inr (), upd_port p (g p) t)"
  shows "foreach_exec [0..<n] f s = (Inr (), s\<lparr>fa_ports := map (\<lambda>p. g p (fa_ports s ! p)) [0..<n]\<rparr>)"
proof -
  let ?I = "\<lambda>rest t. distinct rest \<and> (\<forall>p\<in>set rest. p < n \<and> fa_ports t ! p = fa_ports s ! p) \<and>
    fa_outputs t = fa_outputs s \<and> length (fa_ports t) = n"
  have "foreach_exec [0..<n] f s = (Inr (), fold (\<lambda>p. upd_port p (g p)) [0..<n] s)"
    by (rule foreach_fold_rest [where I = ?I]) (use assms in \<open>auto simp: upd_port_nth\<close>)
  then show ?thesis using assms(1) by (simp add: fold_upd_port)
qed

lemma rb_pop_tail: "rb_wf q \<Longrightarrow> \<not> rb_empty q \<Longrightarrow> rb_list (projr (rb_pop q)) = tl (rb_list q)"
  using rb_pop_ok [of q] by (metis sum.sel(2))

section \<open>Ingress\<close>

text \<open>The queue of a channel after a clock in which the channel did or did not handshake.\<close>

definition offer :: "bool \<Rightarrow> 'a \<Rightarrow> 'a ring_buffer \<Rightarrow> 'a ring_buffer" where
  "offer b v q = (if b then snd (rb_push v q) else q)"

lemma push_facts:
  assumes "rb_wf q" and "\<not> rb_full q"
  shows "rb_push v q = (True, snd (rb_push v q))" and "rb_list (snd (rb_push v q)) = rb_list q @ [v]"
    and "rb_wf (snd (rb_push v q))"
  using rb_push_ok [OF assms, of v] by (metis snd_conv)+

lemma offer_list:
  "rb_wf q \<Longrightarrow> (b \<Longrightarrow> \<not> rb_full q) \<Longrightarrow> rb_list (offer b v q) = rb_list q @ (if b then [v] else [])"
  by (simp add: offer_def push_facts(2))

lemma upd_port_id: "upd_port p (\<lambda>x. x) t = t"
  by (simp add: upd_port_def)

definition accept_port :: "master_signals \<Rightarrow> slave_signals \<Rightarrow> port_state \<Rightarrow> port_state" where
  "accept_port i out p = p\<lparr>
     ps_aw := offer (aw_valid i \<and> aw_ready out) (m_aw i) (ps_aw p),
     ps_w := offer (w_valid i \<and> w_ready out) (m_w i) (ps_w p),
     ps_ar := offer (ar_valid i \<and> ar_ready out) (m_ar i) (ps_ar p)\<rparr>"

lemma accept_port_exec:
  assumes "port_wf cfg (fa_ports t ! p)" and "ready_ok t p" and "p < length (fa_ports t)"
  shows "then_exec (accept_aw inputs p) (then_exec (accept_w inputs p) (accept_ar inputs p)) t =
    (Inr (), upd_port p (accept_port (inputs ! p) (fa_outputs t ! p)) t)"
proof -
  let ?a = "\<lambda>x. x\<lparr>ps_aw := offer (aw_valid (inputs ! p) \<and> aw_ready (fa_outputs t ! p)) (m_aw (inputs ! p)) (ps_aw x)\<rparr>"
  let ?w = "\<lambda>x. x\<lparr>ps_w := offer (w_valid (inputs ! p) \<and> w_ready (fa_outputs t ! p)) (m_w (inputs ! p)) (ps_w x)\<rparr>"
  let ?t1 = "upd_port p ?a t"
  let ?t2 = "upd_port p (\<lambda>x. ?w (?a x)) t"
  have wf: "rb_wf (ps_aw (fa_ports t ! p))" "rb_wf (ps_w (fa_ports t ! p))" "rb_wf (ps_ar (fa_ports t ! p))"
    using assms(1) by (simp_all add: port_wf_def)
  have rd: "aw_ready (fa_outputs t ! p) \<longrightarrow> \<not> rb_full (ps_aw (fa_ports t ! p))"
    "w_ready (fa_outputs t ! p) \<longrightarrow> \<not> rb_full (ps_w (fa_ports t ! p))"
    "ar_ready (fa_outputs t ! p) \<longrightarrow> \<not> rb_full (ps_ar (fa_ports t ! p))"
    using assms(2) by (simp_all add: ready_ok_def)
  have 1: "accept_aw inputs p t = (Inr (), ?t1)"
    using push_facts(1) [OF wf(1), of "m_aw (inputs ! p)"] rd(1)
    by (cases "aw_valid (inputs ! p) \<and> aw_ready (fa_outputs t ! p)")
      (auto simp: accept_aw_def exec_defs offer_def upd_port_def split: prod.splits)
  have 2: "accept_w inputs p ?t1 = (Inr (), ?t2)"
    using wf push_facts(1) [OF wf(2), of "m_w (inputs ! p)"] rd(2) assms(3)
    by (cases "w_valid (inputs ! p) \<and> w_ready (fa_outputs t ! p)")
      (auto simp: accept_w_def exec_defs offer_def upd_port_def split: prod.splits)
  have 3: "accept_ar inputs p ?t2 = (Inr (), upd_port p (accept_port (inputs ! p) (fa_outputs t ! p)) t)"
    using wf push_facts(1) [OF wf(3), of "m_ar (inputs ! p)"] rd(3) assms(3)
    by (cases "ar_valid (inputs ! p) \<and> ar_ready (fa_outputs t ! p)")
      (auto simp: accept_ar_def exec_defs offer_def upd_port_def accept_port_def split: prod.splits)
  show ?thesis unfolding then_exec_def bind_exec_def by (simp only: 1 2 3 prod.case sum.case)
qed

lemma accept_ingress_exec:
  assumes "fabric_wf cfg s" and "\<forall>p<num_ports cfg. ready_ok s p"
  shows "accept_ingress cfg inputs s =
    (Inr (), s\<lparr>fa_ports := map (\<lambda>p. accept_port (inputs ! p) (fa_outputs s ! p) (fa_ports s ! p)) [0..<num_ports cfg]\<rparr>)"
  unfolding accept_ingress_def
proof (rule foreach_ports)
  show "length (fa_ports s) = num_ports cfg" using assms(1) by (simp add: fabric_wf_def)
  fix p and t :: fabric
  assume p: "p < num_ports cfg" and t: "fa_outputs t = fa_outputs s" "fa_ports t ! p = fa_ports s ! p"
    "length (fa_ports t) = num_ports cfg"
  have "port_wf cfg (fa_ports t ! p)" using fabric_wf_port [OF assms(1) p] t(2) by simp
  moreover have "ready_ok t p" using assms(2) p t by (simp add: ready_ok_def)
  ultimately show "then_exec (accept_aw inputs p) (then_exec (accept_w inputs p) (accept_ar inputs p)) t =
      (Inr (), upd_port p (accept_port (inputs ! p) (fa_outputs s ! p)) t)"
    using accept_port_exec [of cfg t p inputs] p t(1,3) by simp
qed

section \<open>Responses\<close>

definition take_b :: "master_signals \<Rightarrow> slave_signals \<Rightarrow> bool" where
  "take_b i out \<longleftrightarrow> b_valid out \<and> b_ready i"

definition take_r :: "master_signals \<Rightarrow> slave_signals \<Rightarrow> bool" where
  "take_r i out \<longleftrightarrow> r_valid out \<and> r_ready i"

definition retire_port :: "master_signals \<Rightarrow> slave_signals \<Rightarrow> port_state \<Rightarrow> port_state" where
  "retire_port i out p = p\<lparr>
     ps_b := (if take_b i out then projr (rb_pop (ps_b p)) else ps_b p),
     ps_r := (if take_r i out then projr (rb_pop (ps_r p)) else ps_r p)\<rparr>"

text \<open>The write response whose acceptance completes the exit handshake.\<close>

definition exit_retired :: "master_signals list \<Rightarrow> fabric \<Rightarrow> nat \<Rightarrow> bool" where
  "exit_retired inputs s p \<longleftrightarrow> take_b (inputs ! p) (fa_outputs s ! p) \<and> b_exit_response (hd (rb_list (ps_b (fa_ports s ! p))))"

definition record_exit :: "master_signals list \<Rightarrow> nat \<Rightarrow> fabric \<Rightarrow> fabric" where
  "record_exit inputs p s =
     (if exit_retired inputs s p \<and> \<not> fa_exit_completed s
      then s\<lparr>fa_exit_completed := True, fa_exit_code := b_exit_code (hd (rb_list (ps_b (fa_ports s ! p))))\<rparr> else s)"

lemma retire_port_exec:
  assumes "port_wf cfg (fa_ports t ! p)" and "valid_ok t p" and "p < length (fa_ports t)"
  shows "then_exec (retire_b inputs p) (retire_r inputs p) t =
    (Inr (), upd_port p (retire_port (inputs ! p) (fa_outputs t ! p)) (record_exit inputs p t))"
proof -
  let ?p = "fa_ports t ! p"
  let ?b = "\<lambda>x. x\<lparr>ps_b := (if take_b (inputs ! p) (fa_outputs t ! p) then projr (rb_pop (ps_b x)) else ps_b x)\<rparr>"
  let ?t = "upd_port p ?b (record_exit inputs p t)"
  have wf: "rb_wf (ps_b ?p)" "rb_wf (ps_r ?p)" using assms(1) by (simp_all add: port_wf_def)
  have ne: "b_valid (fa_outputs t ! p) \<longrightarrow> \<not> rb_empty (ps_b ?p)" "r_valid (fa_outputs t ! p) \<longrightarrow> \<not> rb_empty (ps_r ?p)"
    using assms(2) by (simp_all add: valid_ok_def)
  have 1: "retire_b inputs p t = (Inr (), ?t)"
  proof (cases "take_b (inputs ! p) (fa_outputs t ! p)")
    case True
    then have e: "\<not> rb_empty (ps_b ?p)" using ne(1) by (simp add: take_b_def)
    obtain q where "rb_pop (ps_b ?p) = Inr q" using rb_pop_ok [OF wf(1) e] by metis
    then show ?thesis
      using True rb_front_ok [OF wf(1) e]
      by (auto simp: retire_b_def exec_defs record_exit_def exit_retired_def take_b_def upd_port_def)
  next
    case False
    then show ?thesis
      by (auto simp: retire_b_def exec_defs record_exit_def exit_retired_def take_b_def upd_port_def)
  qed
  have same: "fa_outputs ?t = fa_outputs t" "ps_r (fa_ports ?t ! p) = ps_r ?p"
    "fa_ports (record_exit inputs p t) = fa_ports t"
    using assms(3) by (simp_all add: record_exit_def upd_port_def)
  have 2: "retire_r inputs p ?t = (Inr (), upd_port p (retire_port (inputs ! p) (fa_outputs t ! p)) (record_exit inputs p t))"
  proof (cases "take_r (inputs ! p) (fa_outputs t ! p)")
    case True
    then have e: "\<not> rb_empty (ps_r ?p)" using ne(2) by (simp add: take_r_def)
    obtain q where "rb_pop (ps_r ?p) = Inr q" using rb_pop_ok [OF wf(2) e] by metis
    then show ?thesis
      using True assms(3) unfolding retire_r_def exec_defs same
      by (simp add: take_r_def upd_port_def retire_port_def same(3))
  next
    case False
    then show ?thesis
      using assms(3) unfolding retire_r_def exec_defs same
      by (auto simp: take_r_def upd_port_def retire_port_def)
  qed
  show ?thesis unfolding then_exec_def bind_exec_def by (simp only: 1 2 prod.case sum.case)
qed

lemma record_exit_upd: "p \<noteq> q \<Longrightarrow> record_exit inputs p (upd_port q g t) = upd_port q g (record_exit inputs p t)"
  by (simp add: record_exit_def exit_retired_def upd_port_def)

lemma record_exit_keeps [simp]:
  "fa_ports (record_exit inputs p t) = fa_ports t" "fa_outputs (record_exit inputs p t) = fa_outputs t"
  by (simp_all add: record_exit_def)

lemma fold_record_exit_upd:
  "p \<notin> set xs \<Longrightarrow> fold (record_exit inputs) xs (upd_port p g t) = upd_port p g (fold (record_exit inputs) xs t)"
proof (induction xs arbitrary: t)
  case (Cons x xs)
  then show ?case by (simp add: record_exit_upd [of x p])
qed simp

lemma fold_retire:
  "distinct xs \<Longrightarrow> fold (\<lambda>p t. upd_port p (g p) (record_exit inputs p t)) xs s =
     fold (\<lambda>p. upd_port p (g p)) xs (fold (record_exit inputs) xs s)"
  by (induction xs arbitrary: s) (simp_all add: fold_record_exit_upd)

lemma fold_record_exit_keeps [simp]:
  "fa_ports (fold (record_exit inputs) xs t) = fa_ports t" "fa_outputs (fold (record_exit inputs) xs t) = fa_outputs t"
  by (induction xs arbitrary: t) simp_all

lemma retire_responses_exec:
  assumes "fabric_wf cfg s" and "driven cfg s"
  shows "retire_responses cfg inputs s =
    (Inr (), (fold (record_exit inputs) [0..<num_ports cfg] s)
      \<lparr>fa_ports := map (\<lambda>p. retire_port (inputs ! p) (fa_outputs s ! p) (fa_ports s ! p)) [0..<num_ports cfg]\<rparr>)"
proof -
  let ?n = "num_ports cfg"
  let ?h = "\<lambda>p t. upd_port p (retire_port (inputs ! p) (fa_outputs s ! p)) (record_exit inputs p t)"
  let ?I = "\<lambda>rest (t :: fabric). distinct rest \<and> (\<forall>p\<in>set rest. p < ?n \<and> fa_ports t ! p = fa_ports s ! p) \<and>
    fa_outputs t = fa_outputs s \<and> length (fa_ports t) = ?n"
  have len: "length (fa_ports s) = ?n" using assms(1) by (simp add: fabric_wf_def)
  have "foreach_exec [0..<?n] (\<lambda>p. then_exec (retire_b inputs p) (retire_r inputs p)) s = (Inr (), fold ?h [0..<?n] s)"
  proof (rule foreach_fold_rest [where I = ?I])
    fix p rest and t :: fabric
    assume i: "?I (p # rest) t"
    then have p: "p < ?n" by simp
    have "port_wf cfg (fa_ports t ! p)" using fabric_wf_port [OF assms(1) p] i by simp
    moreover have "valid_ok t p" using assms(2) p i by (simp add: driven_def valid_ok_def)
    ultimately show "then_exec (retire_b inputs p) (retire_r inputs p) t = (Inr (), ?h p t) \<and> ?I rest (?h p t)"
      using retire_port_exec [of cfg t p inputs] p i by (auto simp: upd_port_nth)
  qed (use len in simp)
  then show ?thesis unfolding retire_responses_def using len by (simp add: fold_retire fold_upd_port)
qed

text \<open>Only the first exit response retired counts.\<close>

lemma fold_record_exit:
  "fold (record_exit inputs) xs s =
    (case find (exit_retired inputs s) xs of
       None \<Rightarrow> s
     | Some p \<Rightarrow> if fa_exit_completed s then s
         else s\<lparr>fa_exit_completed := True, fa_exit_code := b_exit_code (hd (rb_list (ps_b (fa_ports s ! p))))\<rparr>)"
proof (induction xs arbitrary: s)
  case (Cons x xs)
  have kept: "fold (record_exit inputs) xs t = t" if "fa_exit_completed t" for t
    using that by (induction xs) (simp_all add: record_exit_def)
  show ?case
    using Cons.IH [of s] by (auto simp: record_exit_def [of inputs x] kept split: option.splits)
qed simp

section \<open>Driving\<close>

text \<open>The response channels show exactly the fronts of their queues.\<close>

definition shown_ok :: "fabric \<Rightarrow> nat \<Rightarrow> bool" where
  "shown_ok s p \<longleftrightarrow>
     b_valid (fa_outputs s ! p) = (\<not> rb_empty (ps_b (fa_ports s ! p))) \<and>
     (b_valid (fa_outputs s ! p) \<longrightarrow> s_b (fa_outputs s ! p) = projr (rb_front (ps_b (fa_ports s ! p)))) \<and>
     r_valid (fa_outputs s ! p) = (\<not> rb_empty (ps_r (fa_ports s ! p))) \<and>
     (r_valid (fa_outputs s ! p) \<longrightarrow> s_r (fa_outputs s ! p) = projr (rb_front (ps_r (fa_ports s ! p))))"

lemma shown_valid: "shown_ok s p \<Longrightarrow> valid_ok s p"
  by (simp add: shown_ok_def valid_ok_def)

lemma xor_push_bit_nonzero:
  assumes "0 < k" and "(x :: u64) \<noteq> 0"
  shows "x XOR push_bit k x \<noteq> 0"
proof
  assume "x XOR push_bit k x = 0"
  then have e: "x = push_bit k x" by (rule word_xor_eq_0)
  have "\<not> bit x n" for n
  proof (induction n rule: less_induct)
    case (less n)
    have "bit x n \<longleftrightarrow> bit (push_bit k x) n" using e by simp
    then show ?case using less [of "n - k"] assms(1) by (auto simp: bit_push_bit_iff)
  qed
  then show False using assms(2) by (metis bit_eqI bit_0_eq bot_apply bot_bool_def)
qed

lemma xor_drop_bit_nonzero:
  assumes "0 < k" and "(x :: u64) \<noteq> 0"
  shows "x XOR drop_bit k x \<noteq> 0"
proof
  assume "x XOR drop_bit k x = 0"
  then have e: "x = drop_bit k x" by (rule word_xor_eq_0)
  have step: "bit x n \<longleftrightarrow> bit x (k + n)" for n by (metis e bit_drop_bit_eq comp_apply)
  have "\<not> bit x n" for n
  proof (induction "64 - n" arbitrary: n rule: less_induct)
    case less
    then show ?case
      using step [of n] bit_imp_le_length [of x n] assms(1) by (cases "n < 64") auto
  qed
  then show False using assms(2) by (metis bit_eqI bit_0_eq bot_apply bot_bool_def)
qed

lemma xorshift_nonzero: "x \<noteq> 0 \<Longrightarrow> xorshift x \<noteq> 0"
  unfolding xorshift_def Let_def
  by (intro xor_push_bit_nonzero xor_drop_bit_nonzero) auto

lemma ready_bit_facts:
  assumes "ready_bit b s = (r, s')" and "fa_random_state s \<noteq> 0"
  shows "\<exists>x. s' = s\<lparr>fa_random_state := x\<rparr> \<and> x \<noteq> 0" and "r \<Longrightarrow> \<not> b"
proof -
  have "\<exists>x. s = s\<lparr>fa_random_state := x\<rparr> \<and> x \<noteq> 0"
    using assms(2) by (intro exI [of _ "fa_random_state s"]) simp
  then show "\<exists>x. s' = s\<lparr>fa_random_state := x\<rparr> \<and> x \<noteq> 0"
    using assms xorshift_nonzero by (auto simp: ready_bit_def allow_ready_def Let_def split: if_splits)
  show "r \<Longrightarrow> \<not> b" using assms(1) by (simp add: ready_bit_def split: if_splits)
qed

lemma drive_port_facts:
  assumes "fabric_wf cfg s" and "port < num_ports cfg"
    and "\<not> b_valid (fa_outputs s ! port)" and "\<not> r_valid (fa_outputs s ! port)"
  shows "\<exists>x out. drive_port port s = s\<lparr>fa_random_state := x, fa_outputs := (fa_outputs s)[port := out]\<rparr> \<and> x \<noteq> 0"
    and "ready_ok (drive_port port s) port \<and> shown_ok (drive_port port s) port"
proof -
  have rnd: "fa_random_state s \<noteq> 0" and len: "length (fa_outputs s) = num_ports cfg"
    using assms(1) by (simp_all add: fabric_wf_def)
  let ?st = "fa_ports s ! port"
  obtain awr s1 where 1: "ready_bit (rb_full (ps_aw ?st)) s = (awr, s1)" by fastforce
  obtain x1 where x1: "s1 = s\<lparr>fa_random_state := x1\<rparr>" "x1 \<noteq> 0" using ready_bit_facts(1) [OF 1 rnd] by blast
  obtain wr s2 where 2: "ready_bit (rb_full (ps_w ?st)) s1 = (wr, s2)" by fastforce
  obtain x2 where x2: "s2 = s\<lparr>fa_random_state := x2\<rparr>" "x2 \<noteq> 0" using ready_bit_facts(1) [OF 2] x1 by auto
  obtain arr s3 where 3: "ready_bit (rb_full (ps_ar ?st)) s2 = (arr, s3)" by fastforce
  obtain x3 where x3: "s3 = s\<lparr>fa_random_state := x3\<rparr>" "x3 \<noteq> 0" using ready_bit_facts(1) [OF 3] x2 by auto
  have r: "awr \<Longrightarrow> \<not> rb_full (ps_aw ?st)" "wr \<Longrightarrow> \<not> rb_full (ps_w ?st)" "arr \<Longrightarrow> \<not> rb_full (ps_ar ?st)"
    using ready_bit_facts(2) [OF 1 rnd] ready_bit_facts(2) [OF 2] ready_bit_facts(2) [OF 3] x1 x2 by auto
  show "\<exists>x out. drive_port port s = s\<lparr>fa_random_state := x, fa_outputs := (fa_outputs s)[port := out]\<rparr> \<and> x \<noteq> 0"
    using 1 2 3 x3 by (auto simp: drive_port_def Let_def)
  show "ready_ok (drive_port port s) port \<and> shown_ok (drive_port port s) port"
    using 1 2 3 x3 r len assms(2-4) by (auto simp: drive_port_def Let_def ready_ok_def shown_ok_def)
qed

lemma ready_bit_same: "ready_bit b s = (r, s') \<Longrightarrow> fa_ports s' = fa_ports s \<and> fa_outputs s' = fa_outputs s"
  by (auto simp: ready_bit_def allow_ready_def Let_def split: if_splits)

lemma drive_slaves_wf:
  assumes "fabric_wf cfg s"
  shows "slaves_wf cfg (fa_outputs (drive cfg reset_active s))"
proof -
  have step: "fa_ports (drive_port p t) = fa_ports t \<and> slaves_wf cfg (fa_outputs (drive_port p t))"
    if "fa_ports t = fa_ports s" "slaves_wf cfg (fa_outputs t)" "p < num_ports cfg" for p t
  proof -
    have "length (r_data (hd (rb_list (ps_r (fa_ports s ! p))))) = data_bytes cfg" "rb_wf (ps_r (fa_ports s ! p))"
      if "\<not> rb_empty (ps_r (fa_ports s ! p))"
      using fabric_wf_port [OF assms \<open>p < num_ports cfg\<close>] that ring.empty_iff [of "ps_r (fa_ports s ! p)"]
      by (auto simp: port_wf_def list_all_iff)
    then show ?thesis
      using that by (auto simp: drive_port_def Let_def slaves_wf_def list_all_length nth_list_update rb_front_ok
          split: prod.splits dest!: ready_bit_same)
  qed
  have ports: "fa_ports (fold drive_port ps t) = fa_ports s \<and> slaves_wf cfg (fa_outputs (fold drive_port ps t))"
    if "fa_ports t = fa_ports s" "slaves_wf cfg (fa_outputs t)" "set ps \<subseteq> {..<num_ports cfg}" for ps t
    using that by (induction ps arbitrary: t) (auto simp: step)
  let ?z = "s\<lparr>fa_outputs := replicate (num_ports cfg) (default_slave_signals (data_bytes cfg))\<rparr>"
  have "slaves_wf cfg (fa_outputs ?z)" by (simp add: slaves_wf_def list_all_length default_slave_signals_def default_read_data_def)
  then show ?thesis
    using ports [of ?z "[0..<num_ports cfg]"] by (cases reset_active) (simp_all add: drive_def Let_def atLeast0LessThan)
qed

lemma drive_prefix:
  assumes "fabric_wf cfg s" and "n \<le> num_ports cfg"
    and "\<forall>p<num_ports cfg. \<not> b_valid (fa_outputs s ! p) \<and> \<not> r_valid (fa_outputs s ! p)"
  shows "\<exists>x out. fold drive_port [0..<n] s = s\<lparr>fa_random_state := x, fa_outputs := out\<rparr> \<and> x \<noteq> 0 \<and>
      length out = num_ports cfg \<and> (\<forall>p<num_ports cfg. n \<le> p \<longrightarrow> out ! p = fa_outputs s ! p) \<and>
      (\<forall>p<n. ready_ok (s\<lparr>fa_random_state := x, fa_outputs := out\<rparr>) p \<and> shown_ok (s\<lparr>fa_random_state := x, fa_outputs := out\<rparr>) p)"
  using assms(2)
proof (induction n)
  case 0
  then show ?case
    using assms(1) by (intro exI [of _ "fa_random_state s"] exI [of _ "fa_outputs s"]) (auto simp: fabric_wf_def)
next
  case (Suc n)
  then obtain x out where ih: "fold drive_port [0..<n] s = s\<lparr>fa_random_state := x, fa_outputs := out\<rparr>" "x \<noteq> 0"
    "length out = num_ports cfg" "\<forall>p<num_ports cfg. n \<le> p \<longrightarrow> out ! p = fa_outputs s ! p"
    "\<forall>p<n. ready_ok (s\<lparr>fa_random_state := x, fa_outputs := out\<rparr>) p \<and> shown_ok (s\<lparr>fa_random_state := x, fa_outputs := out\<rparr>) p"
    by auto
  let ?t = "s\<lparr>fa_random_state := x, fa_outputs := out\<rparr>"
  have twf: "fabric_wf cfg ?t" using assms(1) ih(2,3) by (simp add: fabric_wf_def)
  have n: "n < num_ports cfg" using Suc.prems by simp
  have nv: "\<not> b_valid (fa_outputs ?t ! n)" "\<not> r_valid (fa_outputs ?t ! n)" using ih(4) assms(3) n by auto
  obtain y o1 where d: "drive_port n ?t = ?t\<lparr>fa_random_state := y, fa_outputs := (fa_outputs ?t)[n := o1]\<rparr>" "y \<noteq> 0"
    using drive_port_facts(1) [OF twf n nv] by blast
  have eq: "fold drive_port [0..<Suc n] s = s\<lparr>fa_random_state := y, fa_outputs := out[n := o1]\<rparr>"
    using d(1) by (simp add: ih(1))
  have ok: "ready_ok (s\<lparr>fa_random_state := y, fa_outputs := out[n := o1]\<rparr>) n \<and>
      shown_ok (s\<lparr>fa_random_state := y, fa_outputs := out[n := o1]\<rparr>) n"
    using drive_port_facts(2) [OF twf n nv] d(1) by simp
  have "ready_ok (s\<lparr>fa_random_state := y, fa_outputs := out[n := o1]\<rparr>) p \<and>
      shown_ok (s\<lparr>fa_random_state := y, fa_outputs := out[n := o1]\<rparr>) p" if "p < Suc n" for p
    using that ok ih(5) by (cases "p = n") (auto simp: ready_ok_def shown_ok_def)
  then show ?case
    using eq d(2) ih(3,4) by (intro exI [of _ y] exI [of _ "out[n := o1]"]) auto
qed

lemma drive_facts:
  assumes "fabric_wf cfg s"
  shows "fabric_wf cfg (drive cfg reset_active s)" and "driven cfg (drive cfg reset_active s)"
    and "\<exists>x out. drive cfg reset_active s = s\<lparr>fa_random_state := x, fa_outputs := out\<rparr>"
    and "\<not> reset_active \<Longrightarrow> p < num_ports cfg \<Longrightarrow> shown_ok (drive cfg reset_active s) p"
proof -
  let ?o = "replicate (num_ports cfg) (default_slave_signals (data_bytes cfg))"
  let ?s = "s\<lparr>fa_outputs := ?o\<rparr>"
  have wf0: "fabric_wf cfg ?s" using assms by (simp add: fabric_wf_def)
  have off: "\<forall>p<num_ports cfg. \<not> b_valid (fa_outputs ?s ! p) \<and> \<not> r_valid (fa_outputs ?s ! p)"
    by (simp add: default_slave_signals_def)
  obtain x out where d: "fold drive_port [0..<num_ports cfg] ?s = ?s\<lparr>fa_random_state := x, fa_outputs := out\<rparr>" "x \<noteq> 0"
    "length out = num_ports cfg"
    "\<forall>p<num_ports cfg. ready_ok (?s\<lparr>fa_random_state := x, fa_outputs := out\<rparr>) p \<and> shown_ok (?s\<lparr>fa_random_state := x, fa_outputs := out\<rparr>) p"
    using drive_prefix [OF wf0 order_refl off] by blast
  have on: "drive cfg False s = s\<lparr>fa_random_state := x, fa_outputs := out\<rparr>" using d(1) by (simp add: drive_def Let_def)
  have quiet: "drive cfg True s = s\<lparr>fa_random_state := fa_random_state s, fa_outputs := ?o\<rparr>"
    by (simp add: drive_def Let_def)
  show "fabric_wf cfg (drive cfg reset_active s)"
    using assms d(2,3) by (cases reset_active) (simp_all add: on quiet fabric_wf_def)
  have "driven cfg (drive cfg False s)"
    using d(4) by (simp add: driven_def on shown_valid)
  moreover have "driven cfg (drive cfg True s)"
    by (simp add: driven_def quiet ready_ok_def valid_ok_def default_slave_signals_def)
  ultimately show "driven cfg (drive cfg reset_active s)" by (cases reset_active) simp_all
  show "\<exists>x out. drive cfg reset_active s = s\<lparr>fa_random_state := x, fa_outputs := out\<rparr>"
  proof (cases reset_active)
    case True
    then have "drive cfg reset_active s = s\<lparr>fa_random_state := fa_random_state s, fa_outputs := ?o\<rparr>"
      by (simp only: quiet)
    then show ?thesis by blast
  next
    case False
    then show ?thesis using on by auto
  qed
  show "shown_ok (drive cfg reset_active s) p" if "\<not> reset_active" "p < num_ports cfg"
    using that d(4) by (simp add: on)
qed

section \<open>Construction\<close>

lemma fabric_new_wf:
  assumes "config_ok cfg" and "as_wf space" and "heap_wf h" and "devices_ok space h"
  shows "fabric_wf cfg (fabric_new cfg space h reset_devices)"
proof -
  have pos: "0 < address_depth cfg" "0 < write_data_depth cfg" "0 < response_depth cfg" "0 < route_depth cfg" "0 < num_ports cfg"
    using assms(1) by (simp_all add: config_ok_def)
  have "port_wf cfg (new_port cfg)"
    by (simp add: port_wf_def new_port_def Let_def rb_new_wf pos del: rb_list_eq_Nil_iff)
  then show ?thesis
    using assms by (simp add: fabric_wf_def fabric_new_def list_all_iff rb_new_wf pos del: rb_list_eq_Nil_iff)
qed

definition example_config :: fabric_config where
  "example_config = \<lparr>num_ports = 2, address_bits = 32, data_bits = 32, id_bits = 4, address_depth = 2,
     write_data_depth = 2, response_depth = 2, route_depth = 2\<rparr>"

definition example_heap :: heap where
  "example_heap = [DRam example_ram, DExit exit_new]"

definition example_fabric :: fabric where
  "example_fabric = fabric_new example_config example_space example_heap True"

lemma example_parts:
  "config_ok example_config" "as_wf example_space" "heap_wf example_heap" "devices_ok example_space example_heap"
  by (rule example_space_wf | simp add: config_ok_def example_config_def heap_wf_def example_heap_def ram_wf_def
      example_ram_def devices_ok_def example_space_def)+

lemma example_fabric_wf: "fabric_wf example_config example_fabric"
  unfolding example_fabric_def by (rule fabric_new_wf [OF example_parts])

lemma example_data_bytes [simp]: "data_bytes example_config = 4" "num_ports example_config = 2"
  by (simp_all add: data_bytes_def example_config_def)

text \<open>Port 0 presents a single-beat write of four bytes at the base of the RAM; port 1 is quiet.\<close>

definition example_aw :: address_payload where
  "example_aw = default_address_payload\<lparr>ax_id := 3, ax_address := 0x100, ax_size := 2\<rparr>"

definition example_w :: write_data_payload where
  "example_w = \<lparr>w_data = [1, 2, 3, 4], w_strobe = [1, 1, 1, 1], w_last = True\<rparr>"

definition example_inputs :: "master_signals list" where
  "example_inputs =
     [(default_master_signals 4)\<lparr>aw_valid := True, m_aw := example_aw, w_valid := True, m_w := example_w\<rparr>,
      default_master_signals 4]"

lemma example_inputs_wf: "inputs_wf example_config example_inputs"
  by (simp add: inputs_wf_def example_inputs_def beat_wf_def default_master_signals_def default_write_data_def example_w_def)

section \<open>Properties\<close>

text \<open>C4: the handshakes of a clock are exact. After \<^verbatim>\<open>drive\<close> neither \<^verbatim>\<open>retire_responses\<close> nor \<^verbatim>\<open>accept_ingress\<close> can
  throw; at every port each of AW, W and AR gains exactly the presented payload, at the back, when VALID
  and READY meet and nothing otherwise; each of B and R is shown exactly when its queue is not empty, shows
  the oldest entry, and loses exactly that entry when VALID and READY meet.\<close>

theorem handshakes_exact:
  assumes "fabric_wf cfg s"
  defines "d \<equiv> drive cfg False s"
  shows "\<exists>t u. retire_responses cfg inputs d = (Inr (), t) \<and> accept_ingress cfg inputs t = (Inr (), u) \<and>
    (\<forall>p<num_ports cfg. let out = fa_outputs d ! p; i = inputs ! p; old = fa_ports s ! p; new = fa_ports u ! p in
      rb_list (ps_aw new) = rb_list (ps_aw old) @ (if aw_valid i \<and> aw_ready out then [m_aw i] else []) \<and>
      rb_list (ps_w new) = rb_list (ps_w old) @ (if w_valid i \<and> w_ready out then [m_w i] else []) \<and>
      rb_list (ps_ar new) = rb_list (ps_ar old) @ (if ar_valid i \<and> ar_ready out then [m_ar i] else []) \<and>
      b_valid out = (rb_list (ps_b old) \<noteq> []) \<and> (b_valid out \<longrightarrow> s_b out = hd (rb_list (ps_b old))) \<and>
      rb_list (ps_b new) = (if b_valid out \<and> b_ready i then tl (rb_list (ps_b old)) else rb_list (ps_b old)) \<and>
      r_valid out = (rb_list (ps_r old) \<noteq> []) \<and> (r_valid out \<longrightarrow> s_r out = hd (rb_list (ps_r old))) \<and>
      rb_list (ps_r new) = (if r_valid out \<and> r_ready i then tl (rb_list (ps_r old)) else rb_list (ps_r old)))"
proof -
  note df = drive_facts [OF assms(1), of False, folded d_def]
  have dp: "fa_ports d = fa_ports s" using df(3) by auto
  let ?t = "(fold (record_exit inputs) [0..<num_ports cfg] d)
      \<lparr>fa_ports := map (\<lambda>p. retire_port (inputs ! p) (fa_outputs d ! p) (fa_ports d ! p)) [0..<num_ports cfg]\<rparr>"
  have t: "retire_responses cfg inputs d = (Inr (), ?t)" by (rule retire_responses_exec [OF df(1,2)])
  note rw = wpD(1) [OF retire_responses_wp [OF df(1,2)] t]
  have u: "accept_ingress cfg inputs ?t = (Inr (), ?t\<lparr>fa_ports := map (\<lambda>p. accept_port (inputs ! p) (fa_outputs ?t ! p)
      (fa_ports ?t ! p)) [0..<num_ports cfg]\<rparr>)"
    using accept_ingress_exec [of cfg ?t inputs] rw by simp
  have queues: "let out = fa_outputs d ! p; i = inputs ! p; old = fa_ports s ! p; new = accept_port i out (retire_port i out old) in
      rb_list (ps_aw new) = rb_list (ps_aw old) @ (if aw_valid i \<and> aw_ready out then [m_aw i] else []) \<and>
      rb_list (ps_w new) = rb_list (ps_w old) @ (if w_valid i \<and> w_ready out then [m_w i] else []) \<and>
      rb_list (ps_ar new) = rb_list (ps_ar old) @ (if ar_valid i \<and> ar_ready out then [m_ar i] else []) \<and>
      b_valid out = (rb_list (ps_b old) \<noteq> []) \<and> (b_valid out \<longrightarrow> s_b out = hd (rb_list (ps_b old))) \<and>
      rb_list (ps_b new) = (if b_valid out \<and> b_ready i then tl (rb_list (ps_b old)) else rb_list (ps_b old)) \<and>
      r_valid out = (rb_list (ps_r old) \<noteq> []) \<and> (r_valid out \<longrightarrow> s_r out = hd (rb_list (ps_r old))) \<and>
      rb_list (ps_r new) = (if r_valid out \<and> r_ready i then tl (rb_list (ps_r old)) else rb_list (ps_r old))"
    if p: "p < num_ports cfg" for p
  proof -
    have wf: "port_wf cfg (fa_ports s ! p)" by (rule fabric_wf_port [OF assms(1) p])
    have rd: "ready_ok d p" using df(2) p by (simp add: driven_def)
    show ?thesis
      using wf rd df(4) [OF _ p] dp
      by (simp add: Let_def accept_port_def retire_port_def offer_list port_wf_def ready_ok_def shown_ok_def
          take_b_def take_r_def ring.empty_iff rb_front_ok rb_pop_tail)
  qed
  show ?thesis
    by (intro exI conjI, rule t, rule u) (use queues in \<open>simp add: dp Let_def\<close>)
qed

theorem handshakes_exact_witness:
  "\<exists>t u. retire_responses example_config example_inputs (drive example_config False example_fabric) = (Inr (), t) \<and>
     accept_ingress example_config example_inputs t = (Inr (), u) \<and> rb_list (ps_aw (fa_ports u ! 0)) = [example_aw]"
proof -
  have start: "aw_ready (fa_outputs (drive example_config False example_fabric) ! 0)"
    "rb_list (ps_aw (fa_ports example_fabric ! 0)) = []"
    "aw_valid (example_inputs ! 0)" "m_aw (example_inputs ! 0) = example_aw"
    by (code_simp, code_simp, code_simp, code_simp)
  show ?thesis
    using handshakes_exact [OF example_fabric_wf, of example_inputs] start
    by (auto simp: Let_def)
qed

end
