(* ===== verification/Fabric_Safety.thy ===== *)
theory Fabric_Safety
  imports Fabric_Handshake
begin

text \<open>
  The fabric as a whole: \<^verbatim>\<open>drive\<close>, one clock, runs of clocks, and the properties of \<^verbatim>\<open>AxiFabric\<close>: which exceptions
  can escape, that a clock that throws has not touched a device, that writes take effect only after
  their whole burst has been checked, the exclusive-access protocol, fair arbitration and reset.
\<close>

section \<open>One clock\<close>

lemma reset_state_wf: "fabric_wf cfg s \<Longrightarrow> fabric_wf cfg (reset_state cfg s)"
proof -
  assume wf: "fabric_wf cfg s"
  have "port_wf cfg (reset_port cfg p)" if "port_wf cfg p" for p
    using that rb_clear_wf [of "ps_aw p"] rb_clear_wf [of "ps_w p"] rb_clear_wf [of "ps_ar p"]
      rb_clear_wf [of "ps_b p"] rb_clear_wf [of "ps_r p"]
    by (simp add: port_wf_def reset_port_def del: rb_list_eq_Nil_iff)
  then show ?thesis
    using wf rb_clear_wf [of "fa_read_routes s"] rb_clear_wf [of "fa_write_routes s"]
    by (auto simp: fabric_wf_def reset_state_def list_all_iff config_ok_def simp del: rb_list_eq_Nil_iff)
qed

lemma commit_reset_wp:
  assumes "fabric_wf cfg s"
  shows "wp (commit cfg inputs True) (\<lambda>_ s'. fabric_wf cfg s' \<and> fa_space s' = fa_space s) (\<lambda>e s'. False) s"
proof -
  let ?r = "reset_state cfg s"
  have rwf: "fabric_wf cfg ?r" by (rule reset_state_wf [OF assms])
  then have "heap_step (fa_heap ?r) (as_reset (fa_space ?r) (fa_heap ?r))"
    by (intro as_reset_step) (simp add: fabric_wf_def)
  then have hwf: "fabric_wf cfg (?r\<lparr>fa_heap := as_reset (fa_space ?r) (fa_heap ?r)\<rparr>)"
    using fabric_wf_effect [OF rwf, of _ "fa_monitors ?r"] by simp
  have sp: "fa_space ?r = fa_space s" by (simp add: reset_state_def)
  define u where "u = (if \<not> fa_was_reset s
      then (if fa_reset_devices ?r then ?r\<lparr>fa_heap := as_reset (fa_space ?r) (fa_heap ?r)\<rparr> else ?r) else s)"
  have "fabric_wf cfg u" "fa_space u = fa_space s" using assms rwf hwf sp by (simp_all add: u_def)
  moreover have "wp (commit cfg inputs True) Q E s = Q () (u\<lparr>fa_was_reset := True, fa_cycle := fa_cycle u + 1\<rparr>)" for Q E
    by (simp add: commit_def wp_simps Let_def u_def)
  ultimately show ?thesis by simp
qed

lemma commit_wp:
  assumes "fabric_wf cfg s" and "driven cfg s" and "inputs_wf cfg inputs"
  shows "wp (commit cfg inputs False)
    (\<lambda>_ s'. fabric_wf cfg s' \<and> fa_space s' = fa_space s \<and> heap_step (fa_heap s) (fa_heap s'))
    (\<lambda>e s'. fabric_wf cfg s' \<and> fa_space s' = fa_space s \<and> fa_heap s' = fa_heap s \<and> is_protocol_error e) s"
proof -
  let ?Q = "\<lambda>_ s'. fabric_wf cfg s' \<and> fa_space s' = fa_space s \<and> heap_step (fa_heap s) (fa_heap s')"
  let ?E = "\<lambda>e s'. fabric_wf cfg s' \<and> fa_space s' = fa_space s \<and> fa_heap s' = fa_heap s \<and> is_protocol_error e"
  let ?I = "\<lambda>t. fabric_wf cfg t \<and> fa_space t = fa_space s \<and> fa_heap t = fa_heap s"
  have rd: "wp (read_exec (\<lambda>s. if \<not> fa_suppress_read s then process_read_beat cfg else return_exec ())) ?Q ?E t"
    if "write_phase cfg u t" "?I u" for t u
  proof (cases "fa_suppress_read t")
    case True
    then show ?thesis using that by (simp add: wp_simps write_phase_def)
  next
    case False
    then have t: "?I t" using that by (simp add: write_phase_def)
    have "wp (process_read_beat cfg) ?Q ?E t"
      by (rule wp_mono [OF process_read_beat_wp]) (use t in auto)
    then show ?thesis using False by (simp add: wp_simps)
  qed
  have s0: "fabric_wf cfg (s\<lparr>fa_was_reset := False\<rparr>)" "driven cfg (s\<lparr>fa_was_reset := False\<rparr>)"
    using assms(1,2) by (simp_all add: driven_def ready_ok_def valid_ok_def)
  show ?thesis
    unfolding commit_def if_False
  proof (intro wp_thenI)
    show "wp (modify_exec (\<lambda>s. s\<lparr>fa_was_reset := False\<rparr>)) (\<lambda>_ t. ?I t \<and> driven cfg t) ?E s"
      using s0 by (simp add: wp_modify)
    show "wp (check_stability cfg inputs) (\<lambda>_ t'. ?I t' \<and> driven cfg t') ?E t" if "?I t \<and> driven cfg t" for t
      by (rule wp_mono [OF check_stability_wp]) (use that in \<open>auto simp: untouched_def\<close>)
    show "wp (retire_responses cfg inputs) (\<lambda>_ t'. ?I t' \<and> (\<forall>p<num_ports cfg. ready_ok t' p)) ?E t"
      if "?I t \<and> driven cfg t" for t
      by (rule wp_mono [OF retire_responses_wp]) (use that in \<open>auto simp: untouched_def\<close>)
    show "wp (accept_ingress cfg inputs) (\<lambda>_. ?I) ?E t" if "?I t \<and> (\<forall>p<num_ports cfg. ready_ok t p)" for t
      by (rule wp_mono [OF accept_ingress_wp]) (use that assms(3) in \<open>auto simp: untouched_def\<close>)
    show "wp (arbitrate_addresses cfg) (\<lambda>_. ?I) ?E t" if "?I t" for t
      by (rule wp_mono [OF arbitrate_addresses_wp]) (use that in \<open>auto simp: untouched_def\<close>)
    show "wp (modify_exec (\<lambda>s. s\<lparr>fa_suppress_read := False\<rparr>)) (\<lambda>_. ?I) ?E t" if "?I t" for t
      using that by (simp add: wp_modify)
    show "wp (process_write_beat cfg) (\<lambda>_ t'. \<exists>u. ?I u \<and> write_phase cfg u t') ?E t" if "?I t" for t
      by (rule wp_mono [OF process_write_beat_wp]) (use that in auto)
    show "wp (read_exec (\<lambda>s. if \<not> fa_suppress_read s then process_read_beat cfg else return_exec ())) (\<lambda>_. ?Q ()) ?E t"
      if "\<exists>u. ?I u \<and> write_phase cfg u t" for t
      using that rd by blast
    show "wp (modify_exec (\<lambda>s. s\<lparr>fa_cycle := fa_cycle s + 1\<rparr>)) ?Q ?E t" if "?Q () t" for t
      using that by (simp add: wp_modify)
  qed
qed

section \<open>Runs\<close>

text \<open>What the simulation loop does with the fabric in one clock: drive, let the design respond, commit.\<close>

definition fabric_cycle :: "fabric_config \<Rightarrow> bool \<times> master_signals list \<Rightarrow> (fabric, unit) exec" where
  "fabric_cycle cfg x =
     then_exec (modify_exec (drive cfg (fst x))) (commit cfg (snd x) (fst x))"

definition fabric_run :: "fabric_config \<Rightarrow> (bool \<times> master_signals list) list \<Rightarrow> (fabric, unit) exec" where
  "fabric_run cfg xs = foreach_exec xs (fabric_cycle cfg)"

lemma fabric_cycle_wp:
  assumes "fabric_wf cfg s" and "inputs_wf cfg (snd x)"
  shows "wp (fabric_cycle cfg x) (\<lambda>_ s'. fabric_wf cfg s' \<and> fa_space s' = fa_space s)
    (\<lambda>e s'. fabric_wf cfg s' \<and> fa_space s' = fa_space s \<and> fa_heap s' = fa_heap s \<and> is_protocol_error e \<and> \<not> fst x) s"
proof -
  let ?d = "drive cfg (fst x) s"
  note d = drive_facts [OF assms(1), of "fst x"]
  have same: "fa_space ?d = fa_space s" "fa_heap ?d = fa_heap s" using d(3) by auto
  have "wp (commit cfg (snd x) (fst x)) (\<lambda>_ s'. fabric_wf cfg s' \<and> fa_space s' = fa_space s)
    (\<lambda>e s'. fabric_wf cfg s' \<and> fa_space s' = fa_space s \<and> fa_heap s' = fa_heap s \<and> is_protocol_error e \<and> \<not> fst x) ?d"
  proof (cases "fst x")
    case True
    have "wp (commit cfg (snd x) True) (\<lambda>_ s'. fabric_wf cfg s' \<and> fa_space s' = fa_space s)
      (\<lambda>e s'. fabric_wf cfg s' \<and> fa_space s' = fa_space s \<and> fa_heap s' = fa_heap s \<and> is_protocol_error e \<and> \<not> fst x) ?d"
      by (rule wp_mono [OF commit_reset_wp [OF d(1)]]) (use same in auto)
    then show ?thesis by (simp only: True)
  next
    case False
    have "wp (commit cfg (snd x) False) (\<lambda>_ s'. fabric_wf cfg s' \<and> fa_space s' = fa_space s)
      (\<lambda>e s'. fabric_wf cfg s' \<and> fa_space s' = fa_space s \<and> fa_heap s' = fa_heap s \<and> is_protocol_error e \<and> \<not> fst x) ?d"
      by (rule wp_mono [OF commit_wp [OF d(1,2) assms(2)]]) (use same False in auto)
    then show ?thesis by (simp only: False)
  qed
  then show ?thesis by (simp add: fabric_cycle_def wp_simps)
qed

lemma fabric_run_wp:
  assumes "fabric_wf cfg s" and "\<forall>x\<in>set xs. inputs_wf cfg (snd x)"
  shows "wp (fabric_run cfg xs) (\<lambda>_. fabric_wf cfg) (\<lambda>e s'. fabric_wf cfg s' \<and> is_protocol_error e) s"
  unfolding fabric_run_def
  by (rule wp_foreach) (use assms in \<open>auto intro: wp_mono [OF fabric_cycle_wp]\<close>)

section \<open>Frames\<close>

text \<open>\<open>keeps f m\<close>: the computation \<open>m\<close> leaves the part \<open>f\<close> of the state alone, whether it returns or throws. The rules
  follow the structure of a computation.\<close>

definition keeps :: "('s \<Rightarrow> 'b) \<Rightarrow> ('s, 'a) exec \<Rightarrow> bool" where
  "keeps f m \<longleftrightarrow> (\<forall>s. f (snd (m s)) = f s)"

named_theorems keeps_intros

lemma keeps_basic [keeps_intros]:
  "keeps f (return_exec x)" "keeps f (throw_exec e)" "keeps f (lift_result r)"
  by (simp_all add: keeps_def exec_defs)

lemma keeps_modify [keeps_intros]: "(\<And>s. f (h s) = f s) \<Longrightarrow> keeps f (modify_exec h)"
  by (simp add: keeps_def exec_defs)

lemma keeps_read [keeps_intros]: "(\<And>s. keeps f (g s)) \<Longrightarrow> keeps f (read_exec g)"
  by (simp add: keeps_def exec_defs)

lemma keeps_bind [keeps_intros]: "keeps f m \<Longrightarrow> (\<And>x. keeps f (k x)) \<Longrightarrow> keeps f (bind_exec m k)"
  by (simp add: keeps_def exec_defs split: prod.splits sum.splits) (metis snd_conv)

lemma keeps_then [keeps_intros]: "keeps f m \<Longrightarrow> keeps f n \<Longrightarrow> keeps f (then_exec m n)"
  unfolding then_exec_def by (rule keeps_bind)

lemma keeps_if [keeps_intros]: "(b \<Longrightarrow> keeps f m) \<Longrightarrow> (\<not> b \<Longrightarrow> keeps f n) \<Longrightarrow> keeps f (if b then m else n)"
  by simp

lemma keeps_option [keeps_intros]: "keeps f m \<Longrightarrow> (\<And>x. keeps f (g x)) \<Longrightarrow> keeps f (case y of None \<Rightarrow> m | Some x \<Rightarrow> g x)"
  by (cases y) simp_all

lemma keeps_prod [keeps_intros]: "(\<And>a b. keeps f (g a b)) \<Longrightarrow> keeps f (case y of (a, b) \<Rightarrow> g a b)"
  by (cases y) simp

lemma keeps_let [keeps_intros]: "(\<And>x. keeps f (g x)) \<Longrightarrow> keeps f (let x = y in g x)"
  by (simp add: Let_def)

lemma keeps_foreach [keeps_intros]: "(\<And>x. keeps f (g x)) \<Longrightarrow> keeps f (foreach_exec xs g)"
  by (induction xs) (simp_all add: keeps_basic keeps_then)

lemma keepsD: "keeps f m \<Longrightarrow> m s = (r, s') \<Longrightarrow> f s' = f s"
  unfolding keeps_def by (metis snd_conv)

text \<open>The exit flag and code move only in \<^verbatim>\<open>retire_responses\<close>.\<close>

definition exit_view :: "fabric \<Rightarrow> bool \<times> u32" where
  "exit_view s = (fa_exit_completed s, fa_exit_code s)"

definition b_view :: "fabric \<Rightarrow> (bool \<times> u32) \<times> slave_signals list \<times> write_response_payload ring_buffer list" where
  "b_view s = (exit_view s, fa_outputs s, map ps_b (fa_ports s))"

lemma check_stability_b_view: "keeps b_view (check_stability cfg inputs)"
proof -
  have same: "b_view (upd_port p f s) = b_view s" if "\<And>x. ps_b (f x) = ps_b x" for p f and s :: fabric
    using that by (simp add: b_view_def exit_view_def upd_port_def map_update) (metis list_update_id map_update)
  show ?thesis
    unfolding check_stability_def check_port_stability_def by (intro keeps_intros same) simp_all
qed

lemma ingress_exit_view: "keeps exit_view (accept_ingress cfg inputs)" "keeps exit_view (arbitrate_addresses cfg)"
  unfolding accept_ingress_def accept_aw_def accept_w_def accept_ar_def arbitrate_addresses_def
    arbitrate_aw_def arbitrate_ar_def
  by (intro keeps_intros; simp add: exit_view_def)+

lemma finish_exclusive_exit_view: "keeps exit_view (finish_exclusive_write cfg route cursor)"
  unfolding finish_exclusive_write_def Let_def by (intro keeps_intros; simp add: exit_view_def)

lemma process_exit_view: "keeps exit_view (process_write_beat cfg)" "keeps exit_view (process_read_beat cfg)"
  unfolding process_write_beat_def process_write_commit_def write_device_beat_def
    store_route_def complete_write_route_def process_read_beat_def establish_monitor_def
  by (intro keeps_intros finish_exclusive_exit_view; simp add: exit_view_def)+

text \<open>The exit view after a clock is the one after \<^verbatim>\<open>retire_responses\<close>, if the clock gets that far.\<close>

lemma commit_exit_view:
  assumes "fabric_wf cfg s" and "driven cfg s" and "commit cfg inputs False s = (r, s')"
  shows "exit_view s' = exit_view s \<or> exit_view s' = exit_view (fold (record_exit inputs) [0..<num_ports cfg] s)"
proof -
  let ?s0 = "s\<lparr>fa_was_reset := False\<rparr>"
  have s0: "fabric_wf cfg ?s0" "driven cfg ?s0"
    using assms(1,2) by (simp_all add: driven_def ready_ok_def valid_ok_def)
  obtain r1 s1 where c: "check_stability cfg inputs ?s0 = (r1, s1)" by fastforce
  have bv: "b_view s1 = b_view ?s0" by (rule keepsD [OF check_stability_b_view c])
  then have same: "exit_view s1 = exit_view s" "fa_outputs s1 = fa_outputs s" "map ps_b (fa_ports s1) = map ps_b (fa_ports s)"
    by (simp_all add: b_view_def exit_view_def)
  let ?rest = "then_exec (accept_ingress cfg inputs)
        (then_exec (arbitrate_addresses cfg)
        (then_exec (modify_exec (\<lambda>s. s\<lparr>fa_suppress_read := False\<rparr>))
        (then_exec (process_write_beat cfg)
        (then_exec (read_exec (\<lambda>s. if \<not> fa_suppress_read s then process_read_beat cfg else return_exec ()))
          (modify_exec (\<lambda>s. s\<lparr>fa_cycle := fa_cycle s + 1\<rparr>))))))"
  have rest: "keeps exit_view ?rest"
    by (intro keeps_intros ingress_exit_view process_exit_view) (simp_all add: exit_view_def)
  show ?thesis
  proof (cases r1)
    case (Inl e)
    then have "s' = s1" using assms(3) c by (simp add: commit_def then_exec_def bind_exec_def modify_exec_def)
    then show ?thesis using same by simp
  next
    case (Inr u)
    note cs = wpD(1) [OF check_stability_wp [OF s0] c [unfolded Inr]]
    obtain s2 where s2: "retire_responses cfg inputs s1 = (Inr (), s2)"
      and ev: "exit_view s2 = exit_view (fold (record_exit inputs) [0..<num_ports cfg] s1)"
      using retire_responses_exec [of cfg s1 inputs] cs by (auto simp: exit_view_def)
    have "?rest s2 = (r, s')"
      using assms(3) c s2 Inr by (simp add: commit_def then_exec_def bind_exec_def modify_exec_def)
    then have "exit_view s' = exit_view s2" by (rule keepsD [OF rest])
    moreover have "exit_view (fold (record_exit inputs) [0..<num_ports cfg] s1) =
        exit_view (fold (record_exit inputs) [0..<num_ports cfg] s)"
    proof -
      have len: "length (fa_ports s1) = num_ports cfg" "length (fa_ports s) = num_ports cfg"
        using cs assms(1) by (simp_all add: fabric_wf_def)
      then have b: "ps_b (fa_ports s1 ! p) = ps_b (fa_ports s ! p)" if "p < num_ports cfg" for p
        using same(3) that by (metis nth_map)
      then have f: "find (exit_retired inputs s1) [0..<num_ports cfg] = find (exit_retired inputs s) [0..<num_ports cfg]"
        by (intro find_cong) (simp_all add: exit_retired_def same(2))
      show ?thesis
      proof (cases "find (exit_retired inputs s) [0..<num_ports cfg]")
        case None
        then show ?thesis using same(1) by (simp add: fold_record_exit f)
      next
        case (Some p)
        then have "p < num_ports cfg" by (auto simp: find_Some_iff)
        then show ?thesis using same(1) b [of p] by (simp add: fold_record_exit f Some exit_view_def)
      qed
    qed
    ultimately show ?thesis using ev by simp
  qed
qed

section \<open>Properties\<close>

text \<open>C1: the fabric never fails internally. Start a fabric on any address space and devices and clock it with
  any sequence of reset levels and master signals: the run keeps the invariant \<open>fabric_wf\<close> (queues within
  their depths, routes on validated bursts and existing windows, staged strobes legal, a non-zero random
  state), and if a clock throws, the exception is a \<^verbatim>\<open>ProtocolError\<close>, that is, the design under test broke
  the protocol; \<^verbatim>\<open>std::logic_error\<close>, \<^verbatim>\<open>std::invalid_argument\<close> and \<^verbatim>\<open>std::out_of_range\<close> never escape.\<close>

theorem fabric_run_safe:
  assumes "config_ok cfg" and "as_wf space" and "heap_wf h" and "devices_ok space h"
    and "\<forall>x\<in>set xs. inputs_wf cfg (snd x)"
  shows "case fabric_run cfg xs (fabric_new cfg space h reset_devices) of
      (Inl e, s) \<Rightarrow> is_protocol_error e \<and> fabric_wf cfg s
    | (Inr _, s) \<Rightarrow> fabric_wf cfg s"
  using fabric_run_wp [OF fabric_new_wf [OF assms(1-4)] assms(5), of reset_devices]
  by (auto simp: wp_def split: prod.splits sum.splits)

theorem fabric_run_safe_witness:
  "fabric_wf example_config
     (snd (fabric_run example_config [(True, example_inputs), (False, example_inputs)]
        (fabric_new example_config example_space example_heap True)))"
proof -
  have "\<forall>x\<in>set [(True, example_inputs), (False, example_inputs)]. inputs_wf example_config (snd x)"
    using example_inputs_wf by simp
  from fabric_run_safe [OF example_parts this, of True] show ?thesis
    by (auto split: prod.splits sum.splits)
qed

text \<open>C3: a clock that throws has not touched a device. Whatever a clock has done before it throws (watches,
  handshakes, arbitration, staging), no device has been read or written in it, and it was not a reset
  clock: a write that reached a device suppresses the read that could still have thrown.\<close>

theorem failed_clock_keeps_devices:
  assumes "fabric_wf cfg s" and "inputs_wf cfg inputs" and "fabric_cycle cfg (reset_active, inputs) s = (Inl e, s')"
  shows "fa_heap s' = fa_heap s \<and> fa_space s' = fa_space s \<and> fabric_wf cfg s' \<and> is_protocol_error e \<and> \<not> reset_active"
  using wpD(2) [OF fabric_cycle_wp [OF assms(1), of "(reset_active, inputs)"] assms(3)] assms(2) by simp

definition example_bad_inputs :: "master_signals list" where
  "example_bad_inputs = example_inputs[0 := (example_inputs ! 0)\<lparr>m_w := example_w\<lparr>w_last := False\<rparr>\<rparr>]"

theorem failed_clock_keeps_devices_witness:
  "\<exists>e s'. fabric_cycle example_config (False, example_bad_inputs) example_fabric = (Inl e, s') \<and>
     fa_heap s' = example_heap"
proof -
  have wf: "inputs_wf example_config example_bad_inputs"
    by (simp add: inputs_wf_def example_bad_inputs_def example_inputs_def beat_wf_def default_master_signals_def
        default_write_data_def example_w_def)
  have "isl (fst (fabric_cycle example_config (False, example_bad_inputs) example_fabric))" by code_simp
  then obtain e s' where c: "fabric_cycle example_config (False, example_bad_inputs) example_fabric = (Inl e, s')"
    by (metis isl_def prod.collapse)
  have "fa_heap s' = fa_heap example_fabric"
    using failed_clock_keeps_devices [OF example_fabric_wf wf c] by simp
  then show ?thesis using c by (simp add: example_fabric_def fabric_new_def)
qed


text \<open>The state in which the write of \<open>example_inputs\<close> has been accepted and routed.\<close>

definition example_routed :: fabric where
  "example_routed = snd (arbitrate_aw example_config
     (snd (accept_ingress example_config example_inputs (drive example_config False example_fabric))))"

lemma wp_snd: "wp m (\<lambda>_. P) (\<lambda>_. P) s \<Longrightarrow> P (snd (m s))"
  by (auto simp: wp_def split: prod.splits sum.splits)

lemma example_routed_wf: "fabric_wf example_config example_routed"
proof -
  note d = drive_facts [OF example_fabric_wf, of False]
  have ready: "\<forall>p<num_ports example_config. ready_ok (drive example_config False example_fabric) p"
    using d(2) by (simp add: driven_def)
  have "fabric_wf example_config (snd (accept_ingress example_config example_inputs (drive example_config False example_fabric)))"
    by (rule wp_snd, rule wp_mono [OF accept_ingress_wp [OF d(1) ready example_inputs_wf]]) simp_all
  then show ?thesis
    unfolding example_routed_def by (rule wp_snd [OF wp_mono [OF arbitrate_aw_wp]]) simp_all
qed


text \<open>C12: the simulation is told to exit only once the design under test has accepted the write response of an
  exit write. If a clock turns the exit flag on, then in that clock some port took (BVALID and BREADY) a
  response marked as an exit response, the code reported is the one carried by the first such port, and
  later responses never overwrite it.\<close>

theorem exit_only_after_response:
  assumes "fabric_wf cfg s" and "fabric_cycle cfg (False, inputs) s = (r, s')"
  defines "out \<equiv> \<lambda>p. fa_outputs (drive cfg False s) ! p"
  shows "(fa_exit_completed s \<longrightarrow> fa_exit_completed s' \<and> fa_exit_code s' = fa_exit_code s) \<and>
    (\<not> fa_exit_completed s \<and> fa_exit_completed s' \<longrightarrow>
      (\<exists>p<num_ports cfg. b_valid (out p) \<and> b_ready (inputs ! p) \<and> b_exit_response (s_b (out p)) \<and>
         fa_exit_code s' = b_exit_code (s_b (out p)) \<and>
         (\<forall>q<p. \<not> (b_valid (out q) \<and> b_ready (inputs ! q) \<and> b_exit_response (s_b (out q))))))"
proof -
  let ?d = "drive cfg False s"
  note d = drive_facts [OF assms(1), of False]
  have ev: "exit_view ?d = exit_view s" using d(3) by (auto simp: exit_view_def)
  have com: "commit cfg inputs False ?d = (r, s')" using assms(2) by (simp add: fabric_cycle_def exec_defs)
  have ex: "exit_retired inputs ?d p \<longleftrightarrow> b_valid (out p) \<and> b_ready (inputs ! p) \<and> b_exit_response (s_b (out p))"
    and front: "b_valid (out p) \<Longrightarrow> hd (rb_list (ps_b (fa_ports ?d ! p))) = s_b (out p)" if p: "p < num_ports cfg" for p
  proof -
    have wf: "rb_wf (ps_b (fa_ports ?d ! p))" using fabric_wf_port [OF d(1) p] by (simp add: port_wf_def)
    show f: "b_valid (out p) \<Longrightarrow> hd (rb_list (ps_b (fa_ports ?d ! p))) = s_b (out p)"
      using d(4) [OF _ p] rb_front_ok [OF wf] by (simp add: shown_ok_def out_def)
    then show "exit_retired inputs ?d p \<longleftrightarrow> b_valid (out p) \<and> b_ready (inputs ! p) \<and> b_exit_response (s_b (out p))"
      by (auto simp: exit_retired_def take_b_def out_def)
  qed
  show ?thesis
  proof (cases "find (exit_retired inputs ?d) [0..<num_ports cfg]")
    case None
    then show ?thesis using commit_exit_view [OF d(1,2) com] ev by (auto simp: fold_record_exit exit_view_def)
  next
    case (Some p)
    then have p: "p < num_ports cfg" "exit_retired inputs ?d p" "\<forall>q<p. \<not> exit_retired inputs ?d q"
      by (auto simp: find_Some_iff)
    then have "\<forall>q<p. \<not> (b_valid (out q) \<and> b_ready (inputs ! q) \<and> b_exit_response (s_b (out q)))" using ex by auto
    then show ?thesis
      using commit_exit_view [OF d(1,2) com] ev ex [OF p(1)] front [OF p(1)] p(1,2)
      by (auto simp: fold_record_exit exit_view_def Some split: if_splits intro!: exI [of _ p])
  qed
qed

text \<open>The response to an exit write of code 7 waits at port 0.\<close>

definition example_exiting :: fabric where
  "example_exiting = upd_port 0 (\<lambda>p. p\<lparr>ps_b := snd (rb_push
     \<lparr>b_id = 3, b_response = Okay, b_exit_response = True, b_exit_code = 7\<rparr> (ps_b p))\<rparr>) example_fabric"

definition example_taking :: "master_signals list" where
  "example_taking = replicate 2 ((default_master_signals 4)\<lparr>b_ready := True\<rparr>)"

lemma example_exiting_wf: "fabric_wf example_config example_exiting"
proof -
  have p: "port_wf example_config (fa_ports example_fabric ! 0)" by (rule fabric_wf_port [OF example_fabric_wf]) simp
  have "\<not> rb_full (ps_b (fa_ports example_fabric ! 0))" by code_simp
  moreover have "rb_wf (ps_b (fa_ports example_fabric ! 0))" using p by (simp add: port_wf_def)
  ultimately obtain q where q: "rb_push \<lparr>b_id = 3, b_response = Okay, b_exit_response = True, b_exit_code = 7\<rparr>
      (ps_b (fa_ports example_fabric ! 0)) = (True, q)" "rb_wf q" "rb_capacity q = rb_capacity (ps_b (fa_ports example_fabric ! 0))"
    using rb_push_ok by metis
  show ?thesis
    unfolding example_exiting_def by (rule upd_port_wf [OF example_fabric_wf]) (use p q in \<open>simp_all add: port_wf_def\<close>)
qed

theorem exit_only_after_response_witness:
  "\<exists>p<2. b_ready (example_taking ! p) \<and> b_exit_response (s_b (fa_outputs (drive example_config False example_exiting) ! p)) \<and>
     b_exit_code (s_b (fa_outputs (drive example_config False example_exiting) ! p)) = 7"
proof -
  let ?m = "fabric_cycle example_config (False, example_taking)"
  have now: "\<not> fa_exit_completed example_exiting" by code_simp
  have later: "fa_exit_completed (snd (?m example_exiting)) \<and> fa_exit_code (snd (?m example_exiting)) = 7" by code_simp
  show ?thesis
    using exit_only_after_response [OF example_exiting_wf prod.collapse [symmetric], of example_taking] now later by auto
qed

text \<open>C13: the first clock of a reset leaves the fabric idle: every queue and route is empty, no exclusive
  reservation is valid, no exit is pending, no stall is remembered; the devices are reset exactly when the
  fabric was built to do so, and further reset clocks only count cycles.\<close>

theorem reset_quiesces:
  assumes "\<not> fa_was_reset s"
  shows "\<exists>s'. commit cfg inputs True s = (Inr (), s') \<and> fabric_idle s' \<and> list_all (\<lambda>m. \<not> mo_valid m) (fa_monitors s') \<and>
    \<not> fa_exit_completed s' \<and> fa_exit_code s' = 0 \<and>
    list_all (\<lambda>p. \<not> wa_blocked (ps_aw_watch p) \<and> \<not> ww_blocked (ps_w_watch p) \<and> \<not> wa_blocked (ps_ar_watch p)) (fa_ports s') \<and>
    fa_heap s' = (if fa_reset_devices s then as_reset (fa_space s) (fa_heap s) else fa_heap s) \<and>
    commit cfg inputs2 True s' = (Inr (), s'\<lparr>fa_cycle := fa_cycle s' + 1\<rparr>)"
proof -
  have e: "rb_empty (rb_clear q)" for q :: "'z ring_buffer" by (simp add: rb_clear_def rb_empty_def)
  show ?thesis
    using assms
    by (simp add: commit_def modify_exec_def Let_def reset_state_def reset_port_def fabric_idle_def e list_all_iff
        no_monitor_def no_address_watch_def no_write_watch_def)
qed

theorem reset_quiesces_witness:
  "\<exists>s'. commit example_config example_inputs True example_fabric = (Inr (), s') \<and> fabric_idle s'"
proof -
  have "\<not> fa_was_reset example_fabric" by code_simp
  from reset_quiesces [OF this] show ?thesis by blast
qed

end
