(* ===== verification/Fabric_Arbitration.thy ===== *)
theory Fabric_Arbitration
  imports Fabric_Handshake
begin

text \<open>
  Round-robin arbitration of the address channels (\<^verbatim>\<open>arbitrate_addresses\<close>): whenever a route slot is free and some
  port waits, exactly one waiting port is granted, and a waiting port that is not granted moves strictly
  closer to its turn, so it is overtaken by every other port at most once.
\<close>

section \<open>The scan\<close>

lemma scan_ports_first:
  assumes "0 < num_ports cfg" and "d < num_ports cfg" and "waiting ((start + d) mod num_ports cfg)"
  obtains k where "k \<le> d" "scan_ports cfg start waiting = Some ((start + k) mod num_ports cfg)"
    "waiting ((start + k) mod num_ports cfg)"
proof -
  let ?P = "\<lambda>offset. waiting ((start + offset) mod num_ports cfg)"
  have "find ?P [0..<num_ports cfg] \<noteq> None"
    using assms(2,3) by (auto simp: find_None_iff)
  then obtain k where k: "find ?P [0..<num_ports cfg] = Some k" by blast
  then have "?P k" "k < num_ports cfg" "\<forall>j<k. \<not> ?P j" by (auto simp: find_Some_iff)
  then have "k \<le> d" using assms(3) by (meson not_less)
  then show ?thesis using that k \<open>?P k\<close> by (simp add: scan_ports_def)
qed

lemma mod_distance:
  fixes n :: nat
  assumes "0 < n" and "g < n" and "p < n"
  shows "(p + n - g) mod n < n" and "(g + (p + n - g) mod n) mod n = p"
    and "m < n \<Longrightarrow> (g + m) mod n = p \<Longrightarrow> (p + n - g) mod n = m"
proof -
  show "(p + n - g) mod n < n" using assms(1) by simp
  have "g + (p + n - g) = p + n" using assms(2) by simp
  then show "(g + (p + n - g) mod n) mod n = p" using assms(3) by (simp add: mod_add_right_eq)
  show "m < n \<Longrightarrow> (g + m) mod n = p \<Longrightarrow> (p + n - g) mod n = m"
    using assms by (cases "g + m < n") (auto simp: mod_if [of "g + m"])
qed

lemma rr_distance:
  assumes "0 < num_ports cfg" and "port < num_ports cfg" and "start < num_ports cfg"
    and "scan_ports cfg start waiting = Some g" and "waiting port" and "g \<noteq> port"
  shows "(port + num_ports cfg - (g + 1) mod num_ports cfg) mod num_ports cfg <
    (port + num_ports cfg - start) mod num_ports cfg"
proof -
  let ?n = "num_ports cfg"
  define d where "d = (port + ?n - start) mod ?n"
  have d: "d < ?n" "(start + d) mod ?n = port"
    using mod_distance(1,2) [OF assms(1,3,2)] by (simp_all add: d_def)
  obtain k where k: "k \<le> d" "g = (start + k) mod ?n"
    using scan_ports_first [OF assms(1) d(1)] d(2) assms(4,5) by (metis option.inject)
  have kd: "k < d" using k d(2) assms(6) by (metis nat_less_le)
  let ?g = "(g + 1) mod ?n"
  have g: "?g < ?n" using assms(1) by simp
  have "?g = (start + k + 1) mod ?n" by (simp add: k(2) mod_Suc_eq)
  then have "(?g + (d - k - 1)) mod ?n = (start + k + 1 + (d - k - 1)) mod ?n" by (simp only: mod_add_left_eq)
  also have "start + k + 1 + (d - k - 1) = start + d" using kd by simp
  finally have "(?g + (d - k - 1)) mod ?n = port" using d(2) by simp
  moreover have "d - k - 1 < ?n" using d(1) by linarith
  ultimately have "(port + ?n - ?g) mod ?n = d - k - 1" by (intro mod_distance(3) [OF assms(1) g assms(2)])
  then show ?thesis using kd by (simp add: d_def)
qed

text \<open>How many other ports the round-robin scan may still prefer to \<open>port\<close>.\<close>

definition rr_wait :: "fabric_config \<Rightarrow> nat \<Rightarrow> nat \<Rightarrow> nat" where
  "rr_wait cfg start port = (port + num_ports cfg - start) mod num_ports cfg"

lemma scan_ports_total:
  assumes "0 < num_ports cfg" and "port < num_ports cfg" and "start < num_ports cfg" and "waiting port"
  obtains g where "scan_ports cfg start waiting = Some g"
  using scan_ports_first [OF assms(1) mod_distance(1) [OF assms(1,3,2)], of waiting start]
    mod_distance(2) [OF assms(1,3,2)] assms(4) by metis

lemma rr_wait_bound: "0 < num_ports cfg \<Longrightarrow> rr_wait cfg start port < num_ports cfg"
  by (simp add: rr_wait_def)

section \<open>One arbitration step\<close>

text \<open>What granting a port means on either channel: its oldest address leaves the queue and becomes the youngest
  route; nothing else moves.\<close>

lemma arbitrate_aw_cases:
  assumes "fabric_wf cfg s" and "arbitrate_aw cfg s = (Inr (), s')" and "\<not> rb_full (fa_write_routes s)"
    and "scan_ports cfg (fa_next_aw_port s) (\<lambda>p. \<not> rb_empty (ps_aw (fa_ports s ! p))) = Some g"
  shows "fa_next_aw_port s' = (g + 1) mod num_ports cfg"
    and "p \<noteq> g \<Longrightarrow> fa_ports s' ! p = fa_ports s ! p"
    and "rb_list (ps_aw (fa_ports s ! g)) = a # rest \<Longrightarrow> \<exists>route. rb_list (fa_write_routes s') = rb_list (fa_write_routes s) @ [route] \<and>
      rt_port route = g \<and> rt_payload route = a \<and> rt_beat route = 0 \<and> rb_list (ps_aw (fa_ports s' ! g)) = rest"
proof -
  have ok: "config_ok cfg" and aw: "as_wf (fa_space s)" and rwf: "rb_wf (fa_write_routes s)"
    and len: "length (fa_ports s) = num_ports cfg"
    using assms(1) by (simp_all add: fabric_wf_def)
  have g: "g < num_ports cfg" and ne: "\<not> rb_empty (ps_aw (fa_ports s ! g))"
    using scan_ports_bound [OF assms(4) ok] by simp_all
  have awf: "rb_wf (ps_aw (fa_ports s ! g))" using fabric_wf_port [OF assms(1) g] by (simp add: port_wf_def)
  obtain q where q: "rb_pop (ps_aw (fa_ports s ! g)) = Inr q" "rb_list q = tl (rb_list (ps_aw (fa_ports s ! g)))"
    using rb_pop_ok [OF awf ne] by metis
  let ?a = "hd (rb_list (ps_aw (fa_ports s ! g)))"
  obtain route where r: "initialize_route cfg s g ''AW'' ?a (default_write_route (data_bytes cfg)) = Inr route"
    and s': "s' = (upd_port g (\<lambda>p. p\<lparr>ps_aw := q\<rparr>) s)\<lparr>fa_write_routes := snd (rb_push route (fa_write_routes s)),
        fa_next_aw_port := (g + 1) mod num_ports cfg\<rparr>"
    using assms(2,3) unfolding arbitrate_aw_def
    by (auto simp: exec_defs assms(4) rb_front_ok [OF awf ne] q(1) split: sum.splits prod.splits)
  note rf = routed_fields [OF initialize_route_routed [OF aw r]]
  show "fa_next_aw_port s' = (g + 1) mod num_ports cfg" by (simp add: s')
  show "p \<noteq> g \<Longrightarrow> fa_ports s' ! p = fa_ports s ! p" by (simp add: s' upd_port_def)
  show "rb_list (ps_aw (fa_ports s ! g)) = a # rest \<Longrightarrow> \<exists>route. rb_list (fa_write_routes s') = rb_list (fa_write_routes s) @ [route] \<and>
      rt_port route = g \<and> rt_payload route = a \<and> rt_beat route = 0 \<and> rb_list (ps_aw (fa_ports s' ! g)) = rest"
    using rf q(2) push_facts(2) [OF rwf assms(3), of route] g len
    by (intro exI [of _ route]) (simp add: s' upd_port_def default_write_route_def)
qed

lemma arbitrate_ar_cases:
  assumes "fabric_wf cfg s" and "arbitrate_ar cfg s = (Inr (), s')" and "\<not> rb_full (fa_read_routes s)"
    and "scan_ports cfg (fa_next_ar_port s) (\<lambda>p. \<not> rb_empty (ps_ar (fa_ports s ! p))) = Some g"
  shows "fa_next_ar_port s' = (g + 1) mod num_ports cfg"
    and "p \<noteq> g \<Longrightarrow> fa_ports s' ! p = fa_ports s ! p"
    and "rb_list (ps_ar (fa_ports s ! g)) = a # rest \<Longrightarrow> \<exists>route. rb_list (fa_read_routes s') = rb_list (fa_read_routes s) @ [route] \<and>
      rt_port route = g \<and> rt_payload route = a \<and> rt_beat route = 0 \<and> rb_list (ps_ar (fa_ports s' ! g)) = rest"
proof -
  have ok: "config_ok cfg" and aw: "as_wf (fa_space s)" and rwf: "rb_wf (fa_read_routes s)"
    and len: "length (fa_ports s) = num_ports cfg"
    using assms(1) by (simp_all add: fabric_wf_def)
  have g: "g < num_ports cfg" and ne: "\<not> rb_empty (ps_ar (fa_ports s ! g))"
    using scan_ports_bound [OF assms(4) ok] by simp_all
  have awf: "rb_wf (ps_ar (fa_ports s ! g))" using fabric_wf_port [OF assms(1) g] by (simp add: port_wf_def)
  obtain q where q: "rb_pop (ps_ar (fa_ports s ! g)) = Inr q" "rb_list q = tl (rb_list (ps_ar (fa_ports s ! g)))"
    using rb_pop_ok [OF awf ne] by metis
  let ?a = "hd (rb_list (ps_ar (fa_ports s ! g)))"
  obtain route where r: "initialize_route cfg s g ''AR'' ?a default_read_route = Inr route"
    and s': "s' = (upd_port g (\<lambda>p. p\<lparr>ps_ar := q\<rparr>) s)\<lparr>fa_read_routes := snd (rb_push route (fa_read_routes s)),
        fa_next_ar_port := (g + 1) mod num_ports cfg\<rparr>"
    using assms(2,3) unfolding arbitrate_ar_def
    by (auto simp: exec_defs assms(4) rb_front_ok [OF awf ne] q(1) split: sum.splits prod.splits)
  note rf = routed_fields [OF initialize_route_routed [OF aw r]]
  show "fa_next_ar_port s' = (g + 1) mod num_ports cfg" by (simp add: s')
  show "p \<noteq> g \<Longrightarrow> fa_ports s' ! p = fa_ports s ! p" by (simp add: s' upd_port_def)
  show "rb_list (ps_ar (fa_ports s ! g)) = a # rest \<Longrightarrow> \<exists>route. rb_list (fa_read_routes s') = rb_list (fa_read_routes s) @ [route] \<and>
      rt_port route = g \<and> rt_payload route = a \<and> rt_beat route = 0 \<and> rb_list (ps_ar (fa_ports s' ! g)) = rest"
    using rf q(2) push_facts(2) [OF rwf assms(3), of route] g len
    by (intro exI [of _ route]) (simp add: s' upd_port_def default_read_route_def)
qed

section \<open>Properties\<close>

text \<open>C11: write arbitration is starvation-free. Let port \<open>p\<close> wait with address \<open>a\<close> at the head of its AW queue and let a
  write route slot be free. An arbitration that does not throw either grants \<open>p\<close>, turning \<open>a\<close> into the youngest
  route and popping it, or leaves \<open>p\<close> as it was and strictly decreases the number \<open>rr_wait\<close> of ports that may
  still be preferred to it, which is below the number of ports.\<close>

theorem write_arbitration_fair:
  assumes "fabric_wf cfg s" and "p < num_ports cfg" and "rb_list (ps_aw (fa_ports s ! p)) = a # rest"
    and "\<not> rb_full (fa_write_routes s)" and "arbitrate_aw cfg s = (Inr (), s')"
  shows "rr_wait cfg (fa_next_aw_port s) p < num_ports cfg \<and>
    ((\<exists>route. rb_list (fa_write_routes s') = rb_list (fa_write_routes s) @ [route] \<and> rt_port route = p \<and>
        rt_payload route = a \<and> rt_beat route = 0 \<and> rb_list (ps_aw (fa_ports s' ! p)) = rest) \<or>
     (fa_ports s' ! p = fa_ports s ! p \<and> rr_wait cfg (fa_next_aw_port s') p < rr_wait cfg (fa_next_aw_port s) p))"
proof -
  have pos: "0 < num_ports cfg" and start: "fa_next_aw_port s < num_ports cfg"
    using assms(1) by (simp_all add: fabric_wf_def config_ok_def)
  have "rb_wf (ps_aw (fa_ports s ! p))" using fabric_wf_port [OF assms(1,2)] by (simp add: port_wf_def)
  then have w: "\<not> rb_empty (ps_aw (fa_ports s ! p))" using assms(3) by (simp add: ring.empty_iff)
  let ?w = "\<lambda>p. \<not> rb_empty (ps_aw (fa_ports s ! p))"
  obtain g where g: "scan_ports cfg (fa_next_aw_port s) ?w = Some g"
    using scan_ports_total [OF pos assms(2) start, of ?w] w by metis
  note c = arbitrate_aw_cases [OF assms(1,5,4) g]
  show ?thesis
  proof (cases "g = p")
    case True
    then show ?thesis using c(3) assms(3) rr_wait_bound [OF pos] by blast
  next
    case False
    then show ?thesis
      using c(1,2) rr_distance [OF pos assms(2) start g w] rr_wait_bound [OF pos] by (simp add: rr_wait_def)
  qed
qed

text \<open>Both ports wait on AW and on AR.\<close>

definition example_waiting :: fabric where
  "example_waiting = snd (accept_ingress example_config
     (replicate 2 ((default_master_signals 4)\<lparr>aw_valid := True, m_aw := example_aw, ar_valid := True, m_ar := example_aw\<rparr>))
     (drive example_config False example_fabric))"

lemma example_waiting_wf: "fabric_wf example_config example_waiting"
proof -
  let ?i = "replicate 2 ((default_master_signals 4)\<lparr>aw_valid := True, m_aw := example_aw, ar_valid := True, m_ar := example_aw\<rparr>)"
  note d = drive_facts [OF example_fabric_wf, of False]
  have ready: "\<forall>p<num_ports example_config. ready_ok (drive example_config False example_fabric) p"
    using d(2) by (simp add: driven_def)
  have "inputs_wf example_config ?i"
    by (simp add: inputs_wf_def list_all_iff beat_wf_def default_master_signals_def default_write_data_def)
  then show ?thesis
    using accept_ingress_wp [OF d(1) ready] accept_ingress_exec [OF d(1) ready, of ?i]
    unfolding wp_def example_waiting_def by fastforce
qed

theorem write_arbitration_fair_witness:
  "\<exists>s'. arbitrate_aw example_config example_waiting = (Inr (), s') \<and>
     rr_wait example_config (fa_next_aw_port s') 1 < rr_wait example_config (fa_next_aw_port example_waiting) 1"
proof -
  have q: "rb_list (ps_aw (fa_ports example_waiting ! 1)) = example_aw # []" by code_simp
  have nf: "\<not> rb_full (fa_write_routes example_waiting)" by code_simp
  obtain s' where s': "arbitrate_aw example_config example_waiting = (Inr (), s')"
    and g: "rb_list (ps_aw (fa_ports s' ! 1)) \<noteq> []"
  proof -
    have "\<not> isl (fst (arbitrate_aw example_config example_waiting)) \<and>
      rb_list (ps_aw (fa_ports (snd (arbitrate_aw example_config example_waiting)) ! 1)) \<noteq> []" by code_simp
    then show ?thesis using that by (metis exec_returns old.unit.exhaust)
  qed
  show ?thesis
    using write_arbitration_fair [OF example_waiting_wf _ q nf s'] s' g by auto
qed

text \<open>The same for reads: an AR arbitration that does not throw grants the waiting port or brings its turn
  strictly closer.\<close>

theorem read_arbitration_fair:
  assumes "fabric_wf cfg s" and "p < num_ports cfg" and "rb_list (ps_ar (fa_ports s ! p)) = a # rest"
    and "\<not> rb_full (fa_read_routes s)" and "arbitrate_ar cfg s = (Inr (), s')"
  shows "rr_wait cfg (fa_next_ar_port s) p < num_ports cfg \<and>
    ((\<exists>route. rb_list (fa_read_routes s') = rb_list (fa_read_routes s) @ [route] \<and> rt_port route = p \<and>
        rt_payload route = a \<and> rt_beat route = 0 \<and> rb_list (ps_ar (fa_ports s' ! p)) = rest) \<or>
     (fa_ports s' ! p = fa_ports s ! p \<and> rr_wait cfg (fa_next_ar_port s') p < rr_wait cfg (fa_next_ar_port s) p))"
proof -
  have pos: "0 < num_ports cfg" and start: "fa_next_ar_port s < num_ports cfg"
    using assms(1) by (simp_all add: fabric_wf_def config_ok_def)
  have "rb_wf (ps_ar (fa_ports s ! p))" using fabric_wf_port [OF assms(1,2)] by (simp add: port_wf_def)
  then have w: "\<not> rb_empty (ps_ar (fa_ports s ! p))" using assms(3) by (simp add: ring.empty_iff)
  let ?w = "\<lambda>p. \<not> rb_empty (ps_ar (fa_ports s ! p))"
  obtain g where g: "scan_ports cfg (fa_next_ar_port s) ?w = Some g"
    using scan_ports_total [OF pos assms(2) start, of ?w] w by metis
  note c = arbitrate_ar_cases [OF assms(1,5,4) g]
  show ?thesis
  proof (cases "g = p")
    case True
    then show ?thesis using c(3) assms(3) rr_wait_bound [OF pos] by blast
  next
    case False
    then show ?thesis
      using c(1,2) rr_distance [OF pos assms(2) start g w] rr_wait_bound [OF pos] by (simp add: rr_wait_def)
  qed
qed

theorem read_arbitration_fair_witness:
  "\<exists>s'. arbitrate_ar example_config example_waiting = (Inr (), s') \<and>
     rr_wait example_config (fa_next_ar_port s') 1 < rr_wait example_config (fa_next_ar_port example_waiting) 1"
proof -
  have q: "rb_list (ps_ar (fa_ports example_waiting ! 1)) = example_aw # []" by code_simp
  have nf: "\<not> rb_full (fa_read_routes example_waiting)" by code_simp
  obtain s' where s': "arbitrate_ar example_config example_waiting = (Inr (), s')"
    and g: "rb_list (ps_ar (fa_ports s' ! 1)) \<noteq> []"
  proof -
    have "\<not> isl (fst (arbitrate_ar example_config example_waiting)) \<and>
      rb_list (ps_ar (fa_ports (snd (arbitrate_ar example_config example_waiting)) ! 1)) \<noteq> []" by code_simp
    then show ?thesis using that by (metis exec_returns old.unit.exhaust)
  qed
  show ?thesis
    using read_arbitration_fair [OF example_waiting_wf _ q nf s'] s' g by auto
qed

end
