(* ===== verification/Fabric_Routing.thy ===== *)
theory Fabric_Routing
  imports Fabric_Handshake
begin

text \<open>
  From bursts to devices: the lanes a beat uses (\<^verbatim>\<open>enabled_extent\<close>), the window a burst is routed to
  (\<^verbatim>\<open>initialize_route\<close>), and what a read or write beat does to the RAM behind that window.
\<close>

section \<open>Routing a burst\<close>

lemma result_fold_collect:
  assumes "result_fold f xs st = Inr st'" and "I A st"
    and "\<And>x A st st'. x \<in> set xs \<Longrightarrow> I A st \<Longrightarrow> f x st = Inr st' \<Longrightarrow> I (A \<union> g x) st'"
  shows "I (A \<union> (\<Union>x\<in>set xs. g x)) st'"
  using assms
proof (induction xs arbitrary: st A)
  case (Cons x xs)
  then obtain st1 where s1: "f x st = Inr st1" "result_fold f xs st1 = Inr st'" by auto
  have "I (A \<union> g x) st1" using Cons.prems s1(1) by simp
  from Cons.IH [OF s1(2) this] show ?case using Cons.prems(3) by (simp add: Un_assoc)
qed simp

text \<open>What the scan of \<^verbatim>\<open>initialize_route\<close> knows after it has seen the addresses \<open>A\<close>.\<close>

definition scan_knows :: "address_space \<Rightarrow> u64 set \<Rightarrow> nat option \<times> bool \<Rightarrow> bool" where
  "scan_knows sp A st \<longleftrightarrow> (case st of (mapped, err) \<Rightarrow>
     (A = {} \<longrightarrow> mapped = None \<and> \<not> err) \<and>
     (A \<noteq> {} \<and> \<not> err \<longrightarrow> mapped \<noteq> None \<and> (\<forall>a\<in>A. as_resolve sp a 1 = mapped)) \<and>
     (err \<longrightarrow> \<not> (\<exists>k. \<forall>a\<in>A. as_resolve sp a 1 = Some k)))"

lemma scan_knows_iff:
  assumes "scan_knows sp A (mapped, err)"
  shows "(mapped = Some k \<and> \<not> err) \<longleftrightarrow> A \<noteq> {} \<and> (\<forall>a\<in>A. as_resolve sp a 1 = Some k)"
proof (cases "A = {}")
  case True
  then show ?thesis using assms by (simp add: scan_knows_def)
next
  case False
  then obtain a where "a \<in> A" by blast
  then show ?thesis using assms False unfolding scan_knows_def by fastforce
qed

lemma route_lane_scan:
  assumes "scan_knows (fa_space s) A st" and "route_lane cfg s port channel payload base lanes lane st = Inr st'"
  shows "scan_knows (fa_space s) (A \<union> (if lanes ! lane = 0 then {} else {base + of_nat lane})) st'"
proof (cases "lanes ! lane = 0")
  case True
  then show ?thesis using assms by (simp add: route_lane_def split: prod.splits)
next
  case False
  obtain mapped err where st: "st = (mapped, err)" by (cases st)
  let ?c = "as_resolve (fa_space s) (base + of_nat lane) 1"
  have st': "st' = (if ?c = None \<or> (mapped \<noteq> None \<and> ?c \<noteq> mapped) then (mapped, True)
      else if mapped = None then (?c, err) else (mapped, err))"
    using assms(2) False by (auto simp: route_lane_def st Let_def split: if_splits)
  show ?thesis
    using assms(1) False unfolding st st' scan_knows_def by (auto split: if_splits)
qed

definition beat_addresses :: "nat \<Rightarrow> burst_cursor \<Rightarrow> nat \<Rightarrow> u64 set" where
  "beat_addresses db c i =
     (case (bus_word_address db c i, lane_mask db c i) of
        (Inr base, Inr lanes) \<Rightarrow> (\<Union>lane\<in>{..<db}. if lanes ! lane = 0 then {} else {base + of_nat lane})
      | _ \<Rightarrow> {})"

lemma beat_addresses_bytes: "unat ` beat_addresses db c i = set (cursor_bytes db c i)"
  by (auto simp: beat_addresses_def cursor_bytes_def image_UN split: sum.splits)

lemma route_scan:
  assumes "result_fold (route_beat cfg s port channel payload c) [0..<bc_beats c] (None, False) = Inr st"
  shows "scan_knows (fa_space s) (\<Union>i<bc_beats c. beat_addresses (data_bytes cfg) c i) st"
proof -
  have "scan_knows (fa_space s) ({} \<union> (\<Union>i\<in>set [0..<bc_beats c]. beat_addresses (data_bytes cfg) c i)) st"
    using assms
  proof (rule result_fold_collect)
    show "scan_knows (fa_space s) {} (None, False)" by (simp add: scan_knows_def)
    fix i A st st'
    assume k: "scan_knows (fa_space s) A st" and b: "route_beat cfg s port channel payload c i st = Inr st'"
    then obtain base lanes where bl: "bus_word_address (data_bytes cfg) c i = Inr base" "lane_mask (data_bytes cfg) c i = Inr lanes"
      and f: "result_fold (route_lane cfg s port channel payload base lanes) [0..<data_bytes cfg] st = Inr st'"
      by (auto simp: route_beat_def)
    have "scan_knows (fa_space s) (A \<union> (\<Union>lane\<in>set [0..<data_bytes cfg]. if lanes ! lane = 0 then {} else {base + of_nat lane})) st'"
      using f k by (rule result_fold_collect) (rule route_lane_scan)
    then show "scan_knows (fa_space s) (A \<union> beat_addresses (data_bytes cfg) c i) st'"
      by (simp add: beat_addresses_def bl lessThan_atLeast0)
  qed
  then show ?thesis by (simp add: lessThan_atLeast0)
qed

lemma resolve_byte: "as_wf sp \<Longrightarrow> as_resolve sp a 1 = Some k \<longleftrightarrow> window_of sp (unat a) k"
  by (auto simp: as_resolve_iff window_of_def)

text \<open>The scan finds window \<open>k\<close> exactly when every byte of the burst lies in it.\<close>

lemma route_scan_window:
  assumes "as_wf (fa_space s)"
    and "result_fold (route_beat cfg s port channel payload c) [0..<bc_beats c] (None, False) = Inr (mapped, err)"
  shows "(mapped = Some k \<and> \<not> err) \<longleftrightarrow>
    burst_bytes (data_bytes cfg) c \<noteq> [] \<and> (\<forall>a\<in>set (burst_bytes (data_bytes cfg) c). window_of (fa_space s) a k)"
proof -
  let ?A = "\<Union>i<bc_beats c. beat_addresses (data_bytes cfg) c i"
  have bytes: "set (burst_bytes (data_bytes cfg) c) = unat ` ?A"
    by (auto simp: burst_bytes_def beat_addresses_bytes [symmetric] lessThan_atLeast0)
  have all: "(\<forall>a\<in>set (burst_bytes (data_bytes cfg) c). window_of (fa_space s) a k) \<longleftrightarrow>
      (\<forall>a\<in>?A. as_resolve (fa_space s) a 1 = Some k)"
    unfolding bytes resolve_byte [OF assms(1)] by blast
  have ne: "burst_bytes (data_bytes cfg) c \<noteq> [] \<longleftrightarrow> ?A \<noteq> {}"
    using bytes by (metis image_is_empty set_empty)
  show ?thesis unfolding all ne by (rule scan_knows_iff [OF route_scan [OF assms(2)]])
qed

lemma initialize_route_scan:
  assumes "initialize_route cfg s port channel payload route = Inr r"
  obtains c mapped err where "make_cursor cfg s port channel payload = Inr c"
    "result_fold (route_beat cfg s port channel payload c) [0..<bc_beats c] (None, False) = Inr (mapped, err)"
    "rt_mapping r = (if err \<or> mapped = None then None else mapped)"
proof -
  obtain c mapped err where c: "make_cursor cfg s port channel payload = Inr c"
    and f: "result_fold (route_beat cfg s port channel payload c) [0..<bc_beats c] (None, False) = Inr (mapped, err)"
    using assms by (auto simp: initialize_route_def Let_def)
  have "rt_mapping r = (if err \<or> mapped = None then None else mapped)"
    using assms by (auto simp: initialize_route_def Let_def c f split: if_splits)
  then show ?thesis using c f that by blast
qed


text \<open>The write of \<open>example_aw\<close> is routed to the RAM window.\<close>

definition example_aw_cursor :: burst_cursor where
  "example_aw_cursor = \<lparr>bc_payload = example_aw, bc_beats = 1, bc_beat_bytes = 4\<rparr>"

lemma example_aw_burst:
  "valid_burst example_config example_aw example_aw_cursor" "burst_bytes 4 example_aw_cursor = [0x100..<0x104]"
  "cursor_bytes 4 example_aw_cursor 0 = [0x100..<0x104]"
  "bus_word_address 4 example_aw_cursor 0 = Inr 0x100" "lane_mask 4 example_aw_cursor 0 = Inr [1, 1, 1, 1]"
proof -
  have "burst_cursor_new 4 example_aw = Inr example_aw_cursor" by code_simp
  moreover have "validate_4k_boundary 4 example_aw_cursor = Inr ()" by code_simp
  ultimately show "valid_burst example_config example_aw example_aw_cursor" by (simp add: valid_burst_def)
  show b: "bus_word_address 4 example_aw_cursor 0 = Inr 0x100" "lane_mask 4 example_aw_cursor 0 = Inr [1, 1, 1, 1]"
    by (code_simp, code_simp)
  show c: "cursor_bytes 4 example_aw_cursor 0 = [0x100..<0x104]"
    unfolding cursor_bytes_def b by (simp add: upt_rec)
  show "burst_bytes 4 example_aw_cursor = [0x100..<0x104]"
    using c by (simp add: burst_bytes_def example_aw_cursor_def)
qed

lemma example_window: "a \<in> set [0x100..<0x104] \<Longrightarrow> window_of example_space a 0"
  by (auto simp: window_of_def example_space_def mp_from_def mp_to_def)


section \<open>Beats on RAM\<close>

text \<open>All the bytes of the beat lie in window \<open>k\<close>, behind which there is a RAM at least as large as the window.\<close>

definition ram_window :: "fabric \<Rightarrow> nat \<Rightarrow> ram \<Rightarrow> bool" where
  "ram_window s k d \<longleftrightarrow> k < length (as_mappings (fa_space s)) \<and> mapped_device s k = DRam d \<and>
     unat (mp_size (as_mappings (fa_space s) ! k)) \<le> ram_size d"

lemma beat_span:
  assumes "fabric_wf cfg s" and "ram_window s k d" and "valid_burst cfg payload c" and "i < bc_beats c"
    and "bus_word_address (data_bytes cfg) c i = Inr base" and "lane_mask (data_bytes cfg) c i = Inr lanes"
    and "\<forall>a\<in>set (cursor_bytes (data_bytes cfg) c i). window_of (fa_space s) a k"
    and "enabled_extent lanes = (first, count)" and "count \<noteq> 0"
  defines "m \<equiv> as_mappings (fa_space s) ! k"
  shows "unat (base + of_nat first - mp_base m) = unat base + first - unat (mp_base m)"
    and "unat (mp_base m) \<le> unat base + first"
    and "unat base + first - unat (mp_base m) + count \<le> ram_size d"
    and "l < data_bytes cfg \<Longrightarrow> unat (base + of_nat l) = unat base + l"
proof -
  have ok: "config_ok cfg" and aw: "as_wf (fa_space s)" using assms(1) by (simp_all add: fabric_wf_def)
  have cur: "cursor_of (data_bytes cfg) c" using valid_burst_cursor [OF ok assms(3)] by simp
  obtain j where j: "data_bytes cfg = 2 ^ j" "j \<le> 7" using cursor_shape [OF cur] by metis
  obtain a where a: "beat_address c i = Inr a" using valid_burst_beats [OF ok assms(3,4)] by metis
  have base: "base = a AND NOT (mask j)" "unat base = unat a div data_bytes cfg * data_bytes cfg"
    using bus_word_address_spec [OF j(1) a] assms(5) by simp_all
  show addr: "unat (base + of_nat l) = unat base + l" if "l < data_bytes cfg" for l
    using unat_lane_address [OF j that, of a] base by simp
  have ll: "length lanes = data_bytes cfg" using valid_burst_beats [OF ok assms(3,4)] assms(6) by (metis sum.inject(2))
  note t = enabled_extent_tight [OF assms(8,9)]
  have byte: "window_of (fa_space s) (unat base + l) k" if "l < data_bytes cfg" "lanes ! l \<noteq> 0" for l
    using assms(7) that addr [OF that(1)] by (auto simp: cursor_bytes_def assms(5,6))
  have w1: "window_of (fa_space s) (unat base + first) k" using byte [of first] t ll assms(9) by simp
  have w2: "window_of (fa_space s) (unat base + (first + count - 1)) k" using byte [of "first + count - 1"] t ll assms(9) by simp
  show le: "unat (mp_base m) \<le> unat base + first" using w1 by (simp add: window_of_def mp_from_def m_def)
  have "mp_base m \<le> base + of_nat first"
    using le addr [of first] t(3) ll assms(9) by (simp add: word_le_nat_alt)
  then show "unat (base + of_nat first - mp_base m) = unat base + first - unat (mp_base m)"
    using addr [of first] t(3) ll assms(9) by (simp add: unat_sub)
  have "unat base + (first + count - 1) < unat (mp_base m) + unat (mp_size m)"
    using w2 by (simp add: window_of_def mp_to_def m_def)
  moreover have "unat (mp_size m) \<le> ram_size d" using assms(2) by (simp add: ram_window_def m_def)
  ultimately show "unat base + first - unat (mp_base m) + count \<le> ram_size d" using le assms(9) by linarith
qed

lemma slice_nth: "l < n \<Longrightarrow> a + n \<le> length xs \<Longrightarrow> slice a n xs ! l = xs ! (a + l)"
  by (simp add: slice_def)

lemma ram_window_device:
  assumes "fabric_wf cfg s" and "ram_window s k d"
  defines "a \<equiv> mp_device (as_mappings (fa_space s) ! k)"
  shows "fa_heap s ! a = DRam d" and "ram_wf d" and "(fa_heap s)[a := DRam d] = fa_heap s"
proof -
  show dev: "fa_heap s ! a = DRam d" using assms(2) by (simp add: ram_window_def mapped_device_def a_def)
  have "a < length (fa_heap s)" and "heap_wf (fa_heap s)"
    using assms by (simp_all add: fabric_wf_def devices_ok_def list_all_length ram_window_def a_def)
  then show "ram_wf d" using dev by (metis dev_wf.simps(2) heap_wf_def list_all_length)
  show "(fa_heap s)[a := DRam d] = fa_heap s" using dev by (metis list_update_id)
qed

lemma outside_extent:
  assumes "enabled_extent lanes = (first, count)" and "l < length lanes" and "l < first \<or> first + count \<le> l"
  shows "lanes ! l = 0"
  using enabled_extent_covers(1,2) [OF assms(1,2)] assms(3) by force

text \<open>The extent of a beat, copied from or to a memory at its offset in the window, is the beat lane by lane.\<close>

lemma read_extent_nth:
  assumes "enabled_extent lanes = (first, count)" and "count \<noteq> 0" and "l < length lanes"
    and "base + first = window + off"
  shows "copy_into (replicate (length lanes) 0) first (read_lanes mem off (replicate count 0) (slice first count lanes)) ! l =
    (if lanes ! l \<noteq> 0 then mem ! (base + l - window) else 0)"
proof (cases "first \<le> l \<and> l < first + count")
  case True
  then have "base + l - window = off + (l - first)" using assms(4) by linarith
  then show ?thesis
    using True enabled_extent_tight(3) [OF assms(1,2)] assms(3) by (simp add: copy_into_nth read_lanes_nth slice_nth less_diff_conv2)
next
  case False
  then show ?thesis
    using outside_extent [OF assms(1,3)] enabled_extent_tight(3) [OF assms(1,2)] assms(3) by (auto simp: copy_into_nth)
qed

lemma write_extent_nth:
  assumes "enabled_extent lanes = (first, count)" and "count \<noteq> 0" and "length data = length lanes" and "x < length mem"
    and "base + first = window + off" and "off + count \<le> length mem"
  shows "write_lanes mem off (slice first count data)
      (slice first count (map (\<lambda>l. if lanes ! l \<noteq> 0 \<and> strobe ! l \<noteq> 0 then 1 else 0) [0..<length lanes])) ! x =
    (let a = x + window; l = a - base
     in if base \<le> a \<and> l < length lanes \<and> lanes ! l \<noteq> 0 \<and> strobe ! l \<noteq> 0 then data ! l else mem ! x)"
proof (cases "off \<le> x \<and> x < off + count")
  case True
  then have "x - off < count" "first + (x - off) = x + window - base" "base \<le> x + window" using assms(5) by linarith+
  moreover from this have "x + window - base < length lanes" using enabled_extent_tight(3) [OF assms(1,2)] by linarith
  ultimately show ?thesis
    using True assms(3,4,6) enabled_extent_tight(3) [OF assms(1,2)] by (auto simp: write_lanes_nth slice_nth Let_def)
next
  case False
  have "lanes ! (x + window - base) = 0" if "base \<le> x + window" "x + window - base < length lanes"
    by (rule outside_extent [OF assms(1) that(2)]) (use False assms(5) that(1) in linarith)
  then show ?thesis
    using False assms(3,4,6) enabled_extent_tight(3) [OF assms(1,2)] by (auto simp: write_lanes_nth Let_def)
qed

text \<open>C9: a read beat routed to a RAM returns memory: the device answers OKAY without changing, every lane of the beat
  carries the RAM byte at its bus address (relative to the base of the window), and the lanes outside the
  beat are zero.\<close>

theorem read_beat_returns_ram:
  assumes "fabric_wf cfg s" and "ram_window s k d" and "valid_burst cfg payload c" and "rt_beat route < bc_beats c"
    and "rt_forced route = Okay"
    and "bus_word_address (data_bytes cfg) c (rt_beat route) = Inr base" and "lane_mask (data_bytes cfg) c (rt_beat route) = Inr lanes"
    and "\<forall>a\<in>set (cursor_bytes (data_bytes cfg) c (rt_beat route)). window_of (fa_space s) a k"
  shows "\<exists>data. read_device_beat cfg s route k c = Inr (Okay, data, fa_heap s) \<and> length data = data_bytes cfg \<and>
    (\<forall>l<data_bytes cfg. data ! l =
       (if lanes ! l \<noteq> 0 then ram_bytes d ! (unat base + l - unat (mp_base (as_mappings (fa_space s) ! k))) else 0))"
proof -
  let ?db = "data_bytes cfg" and ?m = "as_mappings (fa_space s) ! k"
  have "config_ok cfg" using assms(1) by (simp add: fabric_wf_def)
  then have ll: "length lanes = ?db" using valid_burst_beats [OF _ assms(3,4)] assms(7) by (metis sum.inject(2))
  obtain first count where e: "enabled_extent lanes = (first, count)" by fastforce
  note ram = ram_window_device [OF assms(1,2)]
  show ?thesis
  proof (cases "count = 0")
    case True
    then have "lanes ! l = 0" if "l < ?db" for l using outside_extent [OF e, of l] that ll by linarith
    then show ?thesis
      using True assms(5) by (simp add: read_device_beat_def assms(6,7) e Let_def)
  next
    case False
    note sp = beat_span [OF assms(1-4,6-8) e False] and t = enabled_extent_tight(3) [OF e False, unfolded ll]
    let ?off = "base + of_nat first - mp_base ?m" and ?en = "slice first count lanes"
    let ?out = "read_lanes (ram_bytes d) (unat ?off) (replicate count 0) ?en"
    have "device_read dev_read_impl ?off (slice first count (replicate ?db 0)) ?en (DRam d) = Inr (Okay, ?out, DRam d)"
      using sp(1,3) t False ll ram_read_lanes [OF ram(2), of ?en "replicate count 0" ?off]
      by (simp add: device_read_def Let_def wrap_read_def)
    moreover have "unat base + first = unat (mp_base ?m) + unat ?off" using sp(1,2) by simp
    ultimately show ?thesis
      using False t ll read_extent_nth [OF e False, of _ "unat base"]
      by (simp add: read_device_beat_def assms(6,7) e Let_def ram(1,3))
  qed
qed

lemma example_ram_window: "ram_window example_fabric 0 example_ram"
  by (simp add: ram_window_def example_fabric_def fabric_new_def example_space_def mapped_device_def example_heap_def
      example_ram_def)

theorem read_beat_returns_ram_witness:
  "\<exists>data. read_device_beat example_config example_fabric (default_read_route\<lparr>rt_payload := example_aw\<rparr>) 0 example_aw_cursor =
     Inr (Okay, data, example_heap) \<and> data ! 3 = ram_bytes example_ram ! 3"
proof -
  let ?r = "default_read_route\<lparr>rt_payload := example_aw\<rparr>"
  have h: "rt_beat ?r < bc_beats example_aw_cursor" "rt_forced ?r = Okay" "rt_beat ?r = 0"
    by (simp_all add: default_read_route_def example_aw_cursor_def)
  have sp: "fa_space example_fabric = example_space" "fa_heap example_fabric = example_heap"
    by (simp_all add: example_fabric_def fabric_new_def)
  have w: "\<forall>a\<in>set (cursor_bytes (data_bytes example_config) example_aw_cursor (rt_beat ?r)). window_of (fa_space example_fabric) a 0"
    using example_aw_burst(3) example_window by (simp add: h sp)
  show ?thesis
    using read_beat_returns_ram [OF example_fabric_wf example_ram_window example_aw_burst(1) h(1,2) _ _ w,
        where base = "0x100" and lanes = "[1, 1, 1, 1]"] example_aw_burst(4,5)
    by (auto simp: h sp example_space_def)
qed

text \<open>C8: a write beat routed to a RAM updates exactly the addressed bytes: the device answers OKAY, every RAM byte
  whose bus address is a lane of the beat with its strobe set takes that lane's data, and every other byte
  of the RAM keeps its value.\<close>

theorem write_beat_updates_ram:
  assumes "fabric_wf cfg s" and "ram_window s k d" and "valid_burst cfg payload c" and "i < bc_beats c"
    and "length data = data_bytes cfg" and "length strobe = data_bytes cfg"
    and "bus_word_address (data_bytes cfg) c i = Inr base" and "lane_mask (data_bytes cfg) c i = Inr lanes"
    and "\<forall>a\<in>set (cursor_bytes (data_bytes cfg) c i). window_of (fa_space s) a k"
  shows "\<exists>d' s'. write_device_beat cfg route k c i data strobe s = (Inr (Okay, route), s') \<and>
    fa_heap s' = (fa_heap s)[mp_device (as_mappings (fa_space s) ! k) := DRam d'] \<and> fa_space s' = fa_space s \<and>
    ram_size d' = ram_size d \<and>
    (\<forall>x<ram_size d. ram_bytes d' ! x =
       (let a = x + unat (mp_base (as_mappings (fa_space s) ! k)); l = a - unat base
        in if unat base \<le> a \<and> l < data_bytes cfg \<and> lanes ! l \<noteq> 0 \<and> strobe ! l \<noteq> 0 then data ! l else ram_bytes d ! x))"
proof -
  let ?db = "data_bytes cfg" and ?m = "as_mappings (fa_space s) ! k"
  have "config_ok cfg" using assms(1) by (simp add: fabric_wf_def)
  then have ll: "length lanes = ?db" using valid_burst_beats [OF _ assms(3,4)] assms(8) by (metis sum.inject(2))
  obtain first count where e: "enabled_extent lanes = (first, count)" by fastforce
  note ram = ram_window_device [OF assms(1,2)]
  show ?thesis
  proof (cases "count = 0")
    case True
    then have "lanes ! l = 0" if "l < ?db" for l using outside_extent [OF e, of l] that ll by linarith
    then show ?thesis
      using True by (intro exI [of _ d] exI [of _ s]) (auto simp: write_device_beat_def exec_defs assms(7,8) e Let_def ram(3))
  next
    case False
    note sp = beat_span [OF assms(1-4,7-9) e False] and t = enabled_extent_tight(3) [OF e False, unfolded ll]
    let ?off = "base + of_nat first - mp_base ?m" and ?da = "slice first count data"
    let ?en = "slice first count (map (\<lambda>l. if lanes ! l \<noteq> 0 \<and> strobe ! l \<noteq> 0 then 1 else 0) [0..<?db])"
    let ?d' = "d\<lparr>ram_bytes := write_lanes (ram_bytes d) (unat ?off) ?da ?en\<rparr>"
    have lens: "length ?en = count" "length ?da = count" using t assms(5) by simp_all
    have fit: "unat ?off + length ?da \<le> ram_size d" using sp(1,3) lens by simp
    have "?da \<noteq> []" using lens(2) False by (metis list.size(3))
    then have wr: "device_write (dev_write_impl sigma) ?off ?da ?en (DRam d) = Inr (Okay, DRam ?d')" for sigma
      using ram_write_lanes [OF ram(2) _ fit, of ?en] lens by (simp add: device_write_def wrap_write_def)
    have "\<exists>ms. write_device_beat cfg route k c i data strobe s =
        (Inr (Okay, route), s\<lparr>fa_heap := (fa_heap s)[mp_device ?m := DRam ?d'], fa_monitors := ms\<rparr>)"
      by (rule exI) (simp add: False write_device_beat_def exec_defs assms(7,8) e Let_def ram(1) wr response_is_success_def)
    then obtain ms where w: "write_device_beat cfg route k c i data strobe s =
        (Inr (Okay, route), s\<lparr>fa_heap := (fa_heap s)[mp_device ?m := DRam ?d'], fa_monitors := ms\<rparr>)" by blast
    have "unat base + first = unat (mp_base ?m) + unat ?off" "length (ram_bytes d) = ram_size d"
      using sp(1,2) ram(2) by (simp_all add: ram_wf_def)
    then have byte: "\<forall>x<ram_size d. ram_bytes ?d' ! x = (let a = x + unat (mp_base ?m); l = a - unat base
        in if unat base \<le> a \<and> l < ?db \<and> lanes ! l \<noteq> 0 \<and> strobe ! l \<noteq> 0 then data ! l else ram_bytes d ! x)"
      using write_extent_nth [OF e False, where mem = "ram_bytes d" and base = "unat base" and window = "unat (mp_base ?m)" and off = "unat ?off"
          and data = data and strobe = strobe, unfolded ll] fit lens assms(5) by simp
    show ?thesis
      unfolding w by (rule exI [of _ ?d'], rule exI, rule conjI, rule refl) (use byte in simp)
  qed
qed

theorem write_beat_updates_ram_witness:
  "\<exists>d' s'. write_device_beat example_config (default_write_route 4) 0 example_aw_cursor 0 [9, 8, 7, 6] [0, 0, 1, 0] example_fabric =
     (Inr (Okay, default_write_route 4), s') \<and> fa_heap s' = example_heap[0 := DRam d'] \<and>
     ram_bytes d' ! 2 = 7 \<and> ram_bytes d' ! 3 = ram_bytes example_ram ! 3"
proof -
  have h: "0 < bc_beats example_aw_cursor" by (simp add: example_aw_cursor_def)
  have sp: "fa_space example_fabric = example_space" "fa_heap example_fabric = example_heap"
    by (simp_all add: example_fabric_def fabric_new_def)
  have w: "\<forall>a\<in>set (cursor_bytes (data_bytes example_config) example_aw_cursor 0). window_of (fa_space example_fabric) a 0"
    using example_aw_burst(3) example_window by (simp add: sp)
  obtain d' s' where e: "write_device_beat example_config (default_write_route 4) 0 example_aw_cursor 0 [9, 8, 7, 6] [0, 0, 1, 0] example_fabric =
      (Inr (Okay, default_write_route 4), s')" "fa_heap s' = example_heap[0 := DRam d']"
    and b: "\<forall>x<8. ram_bytes d' ! x = (let a = x + 0x100; l = a - 0x100
        in if 0x100 \<le> a \<and> l < 4 \<and> [1, 1, 1, 1 :: u8] ! l \<noteq> 0 \<and> [0, 0, 1, 0 :: u8] ! l \<noteq> 0 then [9, 8, 7, 6] ! l else ram_bytes example_ram ! x)"
    using write_beat_updates_ram [OF example_fabric_wf example_ram_window example_aw_burst(1) h _ _ _ _ w, of "[9, 8, 7, 6]" "[0, 0, 1, 0]" "0x100" "[1, 1, 1, 1]" "default_write_route 4"]
      example_aw_burst(4,5) by (auto simp: sp example_space_def example_ram_def)
  have "ram_bytes d' ! 2 = 7" "ram_bytes d' ! 3 = ram_bytes example_ram ! 3"
    using b [rule_format, of 2] b [rule_format, of 3] by simp_all
  then show ?thesis using e by blast
qed

end
