(* ===== verification/Exclusive_Access.thy ===== *)
theory Exclusive_Access
  imports Fabric_Safety Fabric_Routing
begin

text \<open>
  AXI exclusive accesses: the monitor table of \<^verbatim>\<open>AxiFabric\<close> as a finite map from (port, ID) to reservations. The
  interface \<open>reservation_table\<close> states what the table promises; it is interpreted on \<^verbatim>\<open>find_monitor\<close>, \<^verbatim>\<open>clear_monitor\<close>,
  \<^verbatim>\<open>invalidate_monitors\<close> and the slot search of \<^verbatim>\<open>establish_monitor\<close>, and the outcome of exclusive reads and writes is
  stated over it.
\<close>

section \<open>The contract of a reservation table\<close>

locale reservation_table =
  fixes inv :: "'t \<Rightarrow> bool"
    and lookup :: "'t \<Rightarrow> nat \<Rightarrow> u64 \<Rightarrow> 'm option"
    and clear :: "nat \<Rightarrow> u64 \<Rightarrow> 't \<Rightarrow> 't"
    and kill :: "u64 \<Rightarrow> 't \<Rightarrow> 't"
    and covers :: "'m \<Rightarrow> u64 \<Rightarrow> bool"
    and entry :: "nat \<Rightarrow> u64 \<Rightarrow> 'm \<Rightarrow> bool"
    and put :: "'m \<Rightarrow> 't \<Rightarrow> 't option"
  assumes clear_inv: "inv t \<Longrightarrow> inv (clear p i t)"
    and clear_lookup: "inv t \<Longrightarrow> lookup (clear p i t) q j = (if q = p \<and> j = i then None else lookup t q j)"
    and kill_inv: "inv t \<Longrightarrow> inv (kill a t)"
    and kill_lookup: "inv t \<Longrightarrow> lookup (kill a t) q j =
      (case lookup t q j of None \<Rightarrow> None | Some m \<Rightarrow> if covers m a then None else Some m)"
    and put_inv: "inv t \<Longrightarrow> entry p i m \<Longrightarrow> put m t = Some t' \<Longrightarrow> inv t'"
    and put_lookup: "inv t \<Longrightarrow> entry p i m \<Longrightarrow> put m t = Some t' \<Longrightarrow>
      lookup t' q j = (if q = p \<and> j = i then Some m else lookup t q j)"
begin

text \<open>Killing a whole set of bytes.\<close>

lemma kill_bytes:
  assumes "inv t"
  shows "inv (fold (\<lambda>x t. if P x then kill (f x) t else t) xs t)"
    and "lookup (fold (\<lambda>x t. if P x then kill (f x) t else t) xs t) q j =
      (case lookup t q j of None \<Rightarrow> None | Some m \<Rightarrow> if \<exists>x\<in>set xs. P x \<and> covers m (f x) then None else Some m)"
proof -
  have "inv (fold (\<lambda>x t. if P x then kill (f x) t else t) xs t) \<and>
    lookup (fold (\<lambda>x t. if P x then kill (f x) t else t) xs t) q j =
      (case lookup t q j of None \<Rightarrow> None | Some m \<Rightarrow> if \<exists>x\<in>set xs. P x \<and> covers m (f x) then None else Some m)"
    using assms
  proof (induction xs arbitrary: t)
    case Nil
    then show ?case by (simp split: option.splits)
  next
    case (Cons x xs)
    show ?case
    proof (cases "P x")
      case True
      then show ?thesis
        using Cons.IH [OF kill_inv [OF Cons.prems, of "f x"]] kill_lookup [OF Cons.prems]
        by (auto split: option.splits)
    next
      case False
      then show ?thesis using Cons.IH [OF Cons.prems] by (auto split: option.splits)
    qed
  qed
  then show "inv (fold (\<lambda>x t. if P x then kill (f x) t else t) xs t)"
    and "lookup (fold (\<lambda>x t. if P x then kill (f x) t else t) xs t) q j =
      (case lookup t q j of None \<Rightarrow> None | Some m \<Rightarrow> if \<exists>x\<in>set xs. P x \<and> covers m (f x) then None else Some m)"
    by simp_all
qed

text \<open>Killing neither creates nor changes a reservation.\<close>

lemma kill_shrink:
  assumes "inv t" and "lookup (fold (\<lambda>x t. if P x then kill (f x) t else t) xs t) q j = Some m"
  shows "lookup t q j = Some m"
  using assms(2) unfolding kill_bytes(2) [OF assms(1)] by (auto split: if_splits option.splits)

end

section \<open>The monitor array keeps the contract\<close>

definition monitor_entry :: "nat \<Rightarrow> u64 \<Rightarrow> exclusive_monitor \<Rightarrow> bool" where
  "monitor_entry p i m \<longleftrightarrow> mo_valid m \<and> mo_port m = p \<and> mo_id m = i"

text \<open>At most one valid monitor per port and ID.\<close>

definition monitors_unique :: "exclusive_monitor list \<Rightarrow> bool" where
  "monitors_unique ms \<longleftrightarrow> (\<forall>j k p i. j < length ms \<longrightarrow> k < length ms \<longrightarrow> monitor_entry p i (ms ! j) \<longrightarrow>
     monitor_entry p i (ms ! k) \<longrightarrow> j = k)"

lemma monitors_uniqueD:
  "monitors_unique ms \<Longrightarrow> j < length ms \<Longrightarrow> k < length ms \<Longrightarrow> monitor_entry p i (ms ! j) \<Longrightarrow> monitor_entry p i (ms ! k) \<Longrightarrow> j = k"
  unfolding monitors_unique_def by blast

definition reservation :: "exclusive_monitor list \<Rightarrow> nat \<Rightarrow> u64 \<Rightarrow> exclusive_monitor option" where
  "reservation ms p i = (case find_monitor p i ms of None \<Rightarrow> None | Some k \<Rightarrow> Some (ms ! k))"

definition monitor_covers :: "exclusive_monitor \<Rightarrow> u64 \<Rightarrow> bool" where
  "monitor_covers m a \<longleftrightarrow> a \<ge> mo_first m \<and> a < mo_last m"

text \<open>The slot search and store of \<^verbatim>\<open>establish_monitor\<close>.\<close>

definition put_monitor :: "exclusive_monitor \<Rightarrow> exclusive_monitor list \<Rightarrow> exclusive_monitor list option" where
  "put_monitor m ms =
     (case (case find_monitor (mo_port m) (mo_id m) ms of
              None \<Rightarrow> find_index (\<lambda>m. \<not> mo_valid m) ms | Some i \<Rightarrow> Some i) of
        None \<Rightarrow> None | Some i \<Rightarrow> Some (ms[i := m]))"

lemma find_index_Some: "find_index P xs = Some i \<longleftrightarrow> i < length xs \<and> P (xs ! i) \<and> (\<forall>j<i. \<not> P (xs ! j))"
  by (auto simp: find_index_def find_Some_iff)

lemma find_index_None: "find_index P xs = None \<longleftrightarrow> (\<forall>i<length xs. \<not> P (xs ! i))"
  by (auto simp: find_index_def find_None_iff)

lemma reservation_Some:
  assumes "monitors_unique ms"
  shows "reservation ms p i = Some m \<longleftrightarrow> (\<exists>k<length ms. ms ! k = m \<and> monitor_entry p i m)"
proof
  assume "reservation ms p i = Some m"
  then show "\<exists>k<length ms. ms ! k = m \<and> monitor_entry p i m"
    by (auto simp: reservation_def find_monitor_def find_index_Some monitor_entry_def split: option.splits)
next
  assume "\<exists>k<length ms. ms ! k = m \<and> monitor_entry p i m"
  then obtain k where k: "k < length ms" "ms ! k = m" "monitor_entry p i m" by blast
  then have "find_monitor p i ms \<noteq> None"
    by (auto simp: find_monitor_def find_index_None monitor_entry_def)
  then obtain j where j: "find_monitor p i ms = Some j" by blast
  then have "j < length ms" "monitor_entry p i (ms ! j)"
    by (auto simp: find_monitor_def find_index_Some monitor_entry_def)
  then have "j = k" using monitors_uniqueD [OF assms _ k(1)] k(2,3) by blast
  then show "reservation ms p i = Some m" using j k by (simp add: reservation_def)
qed

lemma reservation_eqI:
  assumes "monitors_unique ms"
    and "\<And>m. (\<exists>k<length ms. ms ! k = m \<and> monitor_entry p i m) \<longleftrightarrow> r = Some m"
  shows "reservation ms p i = r"
  using reservation_Some [OF assms(1), of p i] assms(2) by (metis not_Some_eq)

lemma monitors_unique_map:
  assumes "monitors_unique ms"
    and "length ms' = length ms" and "\<And>k. k < length ms \<Longrightarrow> mo_valid (ms' ! k) \<Longrightarrow> ms' ! k = ms ! k"
  shows "monitors_unique ms'"
  unfolding monitors_unique_def
proof (intro allI impI)
  fix j k p i
  assume "j < length ms'" "k < length ms'" "monitor_entry p i (ms' ! j)" "monitor_entry p i (ms' ! k)"
  then show "j = k"
    using monitors_uniqueD [OF assms(1), of j k p i] assms(2,3) by (simp add: monitor_entry_def)
qed

lemma clear_monitor_nth:
  assumes "monitors_unique ms" and "k < length ms"
  shows "clear_monitor p i ms ! k = (if monitor_entry p i (ms ! k) then (ms ! k)\<lparr>mo_valid := False\<rparr> else ms ! k)"
proof (cases "find_monitor p i ms")
  case None
  then have "\<not> monitor_entry p i (ms ! k)"
    using assms(2) by (auto simp: find_monitor_def find_index_None monitor_entry_def)
  then show ?thesis using None by (simp add: clear_monitor_def)
next
  case (Some j)
  then have j: "j < length ms" "monitor_entry p i (ms ! j)"
    by (auto simp: find_monitor_def find_index_Some monitor_entry_def)
  have "monitor_entry p i (ms ! k) \<longleftrightarrow> k = j"
    using monitors_uniqueD [OF assms(1,2) j(1)] j(2) by blast
  then show ?thesis using Some assms(2) by (simp add: clear_monitor_def nth_list_update)
qed

lemma invalidate_monitors_nth:
  "k < length ms \<Longrightarrow> invalidate_monitors a ms ! k =
     (if mo_valid (ms ! k) \<and> monitor_covers (ms ! k) a then (ms ! k)\<lparr>mo_valid := False\<rparr> else ms ! k)"
  by (auto simp: invalidate_monitors_def monitor_covers_def)

lemma put_monitor_cases:
  assumes "monitors_unique ms" and "monitor_entry p i m" and "put_monitor m ms = Some ms'"
  obtains k where "k < length ms" "ms' = ms[k := m]" "\<And>j. j < length ms \<Longrightarrow> monitor_entry p i (ms ! j) \<Longrightarrow> j = k"
    "\<not> mo_valid (ms ! k) \<or> monitor_entry p i (ms ! k)"
proof (cases "find_monitor p i ms")
  case None
  then obtain k where k: "find_index (\<lambda>m. \<not> mo_valid m) ms = Some k" "ms' = ms[k := m]"
    using assms(2,3) by (auto simp: put_monitor_def monitor_entry_def split: option.splits)
  have "\<not> monitor_entry p i (ms ! j)" if "j < length ms" for j
    using None that by (auto simp: find_monitor_def find_index_None monitor_entry_def)
  moreover have "k < length ms" "\<not> mo_valid (ms ! k)" using k(1) by (simp_all add: find_index_Some)
  ultimately show ?thesis using that [of k] k(2) by blast
next
  case (Some k)
  then have "k < length ms" "monitor_entry p i (ms ! k)"
    by (auto simp: find_monitor_def find_index_Some monitor_entry_def)
  moreover have "ms' = ms[k := m]" using Some assms(2,3) by (simp add: put_monitor_def monitor_entry_def)
  moreover have "j = k" if "j < length ms" "monitor_entry p i (ms ! j)" for j
    using monitors_uniqueD [OF assms(1) that(1) calculation(1) that(2) calculation(2)] .
  ultimately show ?thesis using that [of k] by blast
qed

lemma clear_monitor_unique:
  assumes "monitors_unique ms"
  shows "monitors_unique (clear_monitor p i ms)"
  by (rule monitors_unique_map [OF assms]) (auto simp: clear_monitor_nth [OF assms] split: if_splits)

lemma invalidate_monitors_unique:
  assumes "monitors_unique ms"
  shows "monitors_unique (invalidate_monitors a ms)"
  by (rule monitors_unique_map [OF assms]) (auto simp: invalidate_monitors_nth split: if_splits)

lemma put_monitor_nth:
  assumes "monitors_unique ms" and "monitor_entry p i m" and "put_monitor m ms = Some ms'"
  obtains k where "k < length ms" "length ms' = length ms"
    "\<forall>j<length ms. \<forall>q n. monitor_entry q n (ms' ! j) \<longleftrightarrow>
       (if q = p \<and> n = i then j = k else monitor_entry q n (ms ! j))"
    "ms' ! k = m" "\<forall>j. j \<noteq> k \<longrightarrow> ms' ! j = ms ! j"
proof -
  obtain k where k: "k < length ms" "ms' = ms[k := m]" "\<And>j. j < length ms \<Longrightarrow> monitor_entry p i (ms ! j) \<Longrightarrow> j = k"
    "\<not> mo_valid (ms ! k) \<or> monitor_entry p i (ms ! k)"
    using put_monitor_cases [OF assms] by metis
  have "monitor_entry q n (ms' ! j) \<longleftrightarrow> (if q = p \<and> n = i then j = k else monitor_entry q n (ms ! j))"
    if "j < length ms" for j q n
  proof (cases "j = k")
    case True
    then show ?thesis using k(1,2,4) assms(2) by (auto simp: monitor_entry_def)
  next
    case False
    then show ?thesis using k(2) k(3) [OF that] by (auto simp del: nth_list_update simp: nth_list_update_neq)
  qed
  then show ?thesis using that [of k] k(1,2) by simp
qed

lemma put_monitor_unique:
  assumes "monitors_unique ms" and "monitor_entry p i m" and "put_monitor m ms = Some ms'"
  shows "monitors_unique ms'"
proof -
  obtain k where k: "length ms' = length ms"
    "\<forall>j<length ms. \<forall>q n. monitor_entry q n (ms' ! j) \<longleftrightarrow> (if q = p \<and> n = i then j = k else monitor_entry q n (ms ! j))"
    using put_monitor_nth [OF assms] by blast
  show ?thesis
    unfolding monitors_unique_def k(1)
  proof (intro allI impI)
    fix a b q n
    assume ab: "a < length ms" "b < length ms" "monitor_entry q n (ms' ! a)" "monitor_entry q n (ms' ! b)"
    show "a = b"
      using ab k(2) [rule_format, OF ab(1), of q n] k(2) [rule_format, OF ab(2), of q n] monitors_uniqueD [OF assms(1) ab(1,2), of q n]
      by (simp split: if_splits)
  qed
qed

interpretation mon: reservation_table monitors_unique reservation clear_monitor invalidate_monitors
  monitor_covers monitor_entry put_monitor
proof (unfold_locales, goal_cases)
  case (1 t p i)
  then show ?case by (rule clear_monitor_unique)
next
  case (2 t p i q j)
  note u = clear_monitor_unique [OF 2, of p i]
  show ?case
  proof (rule reservation_eqI [OF u])
    fix m
    have "(clear_monitor p i t ! k = m \<and> monitor_entry q j m) \<longleftrightarrow> (t ! k = m \<and> monitor_entry q j m \<and> \<not> (q = p \<and> j = i))"
      if "k < length t" for k
      using clear_monitor_nth [OF 2 that, of p i] by (auto simp: monitor_entry_def split: if_splits)
    then show "(\<exists>k<length (clear_monitor p i t). clear_monitor p i t ! k = m \<and> monitor_entry q j m) \<longleftrightarrow>
        (if q = p \<and> j = i then None else reservation t q j) = Some m"
      using reservation_Some [OF 2, of q j m] by auto
  qed
next
  case (3 t a)
  then show ?case by (rule invalidate_monitors_unique)
next
  case (4 t a q j)
  note u = invalidate_monitors_unique [OF 4, of a]
  show ?case
  proof (rule reservation_eqI [OF u])
    fix m
    have "(invalidate_monitors a t ! k = m \<and> monitor_entry q j m) \<longleftrightarrow> (t ! k = m \<and> monitor_entry q j m \<and> \<not> monitor_covers m a)"
      if "k < length t" for k
      using invalidate_monitors_nth [OF that, of a] by (auto simp: monitor_entry_def split: if_splits)
    then show "(\<exists>k<length (invalidate_monitors a t). invalidate_monitors a t ! k = m \<and> monitor_entry q j m) \<longleftrightarrow>
        (case reservation t q j of None \<Rightarrow> None | Some m \<Rightarrow> if monitor_covers m a then None else Some m) = Some m"
      using reservation_Some [OF 4, of q j m] by (auto split: option.splits)
  qed
next
  case (5 t p i m t')
  then show ?case by (rule put_monitor_unique)
next
  case (6 t p i m t' q j)
  note u = put_monitor_unique [OF 6]
  obtain k where k: "k < length t" "length t' = length t"
    "\<forall>j<length t. \<forall>q n. monitor_entry q n (t' ! j) \<longleftrightarrow> (if q = p \<and> n = i then j = k else monitor_entry q n (t ! j))"
    "t' ! k = m" "\<forall>j. j \<noteq> k \<longrightarrow> t' ! j = t ! j"
    using put_monitor_nth [OF 6] by blast
  show ?case
  proof (cases "q = p \<and> j = i")
    case True
    then show ?thesis
      using reservation_Some [OF u, of q j m] k(1,2,4) 6(2) by auto
  next
    case False
    have "(t' ! l = x \<and> monitor_entry q j x) \<longleftrightarrow> (t ! l = x \<and> monitor_entry q j x)" if "l < length t" for l x
    proof (cases "l = k")
      case True
      have "\<not> monitor_entry q j m" using 6(2) False by (auto simp: monitor_entry_def)
      moreover have "\<not> monitor_entry q j (t ! k)" using k(3) [rule_format, OF k(1), of q j] k(4) False calculation by simp
      ultimately show ?thesis using True k(4) by blast
    next
      case False
      then show ?thesis using k(5) by simp
    qed
    then have "(\<exists>l<length t'. t' ! l = x \<and> monitor_entry q j x) \<longleftrightarrow> (\<exists>l<length t. t ! l = x \<and> monitor_entry q j x)" for x
      unfolding k(2) by blast
    then have "reservation t' q j = Some x \<longleftrightarrow> reservation t q j = Some x" for x
      using reservation_Some [OF u, of q j x] reservation_Some [OF 6(1), of q j x] by simp
    then have "reservation t' q j = reservation t q j" by (metis not_Some_eq)
    then show ?thesis using False by auto
  qed
qed

section \<open>Exclusive reads\<close>

definition monitor_for :: "nat \<Rightarrow> address_payload \<Rightarrow> burst_cursor \<Rightarrow> exclusive_monitor" where
  "monitor_for port payload c = \<lparr>mo_valid = True, mo_port = port, mo_id = ax_id payload, mo_payload = payload,
     mo_first = ax_address payload, mo_last = ax_address payload + of_nat (bc_beats c * bc_beat_bytes c)\<rparr>"

lemma monitor_for_entry [simp]: "monitor_entry port (ax_id payload) (monitor_for port payload c)"
  by (simp add: monitor_entry_def monitor_for_def)

lemma establish_monitor_put:
  assumes "burst_cursor_new (data_bytes cfg) (rt_payload route) = Inr c"
  shows "establish_monitor cfg route s =
    (case put_monitor (monitor_for (rt_port route) (rt_payload route) c) (fa_monitors s) of
       None \<Rightarrow> (Inl (protocol_error s (rt_port route) ''AR'' ''exclusive monitor table exhausted'' (Some (rt_payload route))), s)
     | Some ms \<Rightarrow> (Inr (), s\<lparr>fa_monitors := ms\<rparr>))"
  using assms
  by (auto simp: establish_monitor_def exec_defs put_monitor_def monitor_for_def Let_def split: option.splits)

lemma put_monitor_None:
  "put_monitor m ms = None \<longleftrightarrow> list_all mo_valid ms \<and> find_monitor (mo_port m) (mo_id m) ms = None"
  by (auto simp: put_monitor_def find_index_None find_index_Some list_all_length split: option.splits)

section \<open>Exclusive and plain writes\<close>

lemma finish_exclusive_write_exec:
  assumes "fabric_wf cfg s" and "valid_burst cfg (rt_payload route) c"
    and "reservation (fa_monitors s) (rt_port route) (ax_id (rt_payload route)) = Some m"
    and "mo_payload m = rt_payload route" and "rt_forced route = Okay" and "rt_mapping route \<noteq> None"
  obtains strobe :: "u8 list" and r d k where
    "finish_exclusive_write cfg route c s =
      (Inr (route\<lparr>wr_response := (if response_is_success r then ExclusiveOkay else r)\<rparr>),
       s\<lparr>fa_heap := (fa_heap s)[k := d],
         fa_monitors := clear_monitor (rt_port route) (ax_id (rt_payload route))
           (if response_is_success r
            then fold (\<lambda>index ms. if strobe ! index \<noteq> 0
                   then invalidate_monitors (ax_address (rt_payload route) + of_nat index) ms else ms)
                 [0..<bc_beats c * bc_beat_bytes c] (fa_monitors s)
            else fa_monitors s)\<rparr>)"
    "\<not> response_is_success r \<longrightarrow> (fa_heap s)[k := d] = fa_heap s" "r \<noteq> ExclusiveOkay"
proof -
  have ok: "config_ok cfg" and hwf: "heap_wf (fa_heap s)" using assms(1) by (simp_all add: fabric_wf_def)
  obtain data strobe where g: "gather_exclusive cfg route c = Inr (data, strobe)" "length data = 128" "length strobe = 128"
    using gather_exclusive_total [OF ok assms(2)] by metis
  let ?m = "as_mappings (fa_space s) ! the (rt_mapping route)"
  let ?total = "bc_beats c * bc_beat_bytes c"
  have len: "length (take ?total strobe) = length (take ?total data)" by (simp add: g)
  obtain r d where w: "device_write (dev_write_impl (heap_signal (fa_heap s))) (ax_address (rt_payload route) - mp_base ?m)
      (take ?total data) (take ?total strobe) (fa_heap s ! mp_device ?m) = Inr (r, d)"
    using dev.device_write_total [OF len] by blast
  note st = device_write_step(2,3) [OF w hwf]
  obtain i where i: "find_monitor (rt_port route) (ax_id (rt_payload route)) (fa_monitors s) = Some i"
    "mo_payload (fa_monitors s ! i) = rt_payload route"
    using assms(3,4) by (auto simp: reservation_def split: option.splits)
  show ?thesis
    by (rule that [of r strobe "mp_device ?m" d])
      (use assms(5,6) st i in \<open>auto simp: finish_exclusive_write_def exec_defs Let_def g(1) w\<close>)
qed

lemma finish_exclusive_write_fails:
  assumes "rt_forced route \<noteq> Okay \<or> rt_mapping route = None \<or>
    (case reservation (fa_monitors s) (rt_port route) (ax_id (rt_payload route)) of
       None \<Rightarrow> True | Some m \<Rightarrow> mo_payload m \<noteq> rt_payload route)"
  shows "finish_exclusive_write cfg route c s =
    (Inr (route\<lparr>wr_response := (if rt_forced route \<noteq> Okay \<or> rt_mapping route = None then rt_forced route else Okay)\<rparr>),
     s\<lparr>fa_monitors := clear_monitor (rt_port route) (ax_id (rt_payload route)) (fa_monitors s)\<rparr>)"
  using assms
  by (auto simp: finish_exclusive_write_def exec_defs Let_def reservation_def split: option.splits)

section \<open>Uniqueness is an invariant of the fabric\<close>

text \<open>\<open>preserves P m\<close>: \<open>m\<close> keeps \<open>P\<close>, whether it returns or throws.\<close>

definition preserves :: "('s \<Rightarrow> bool) \<Rightarrow> ('s, 'a) exec \<Rightarrow> bool" where
  "preserves P m \<longleftrightarrow> (\<forall>s. P s \<longrightarrow> P (snd (m s)))"

named_theorems preserves_intros

lemma preserves_basic [preserves_intros]:
  "preserves P (return_exec x)" "preserves P (throw_exec e)" "preserves P (lift_result r)"
  by (simp_all add: preserves_def exec_defs)

lemma preserves_modify [preserves_intros]: "(\<And>s. P s \<Longrightarrow> P (h s)) \<Longrightarrow> preserves P (modify_exec h)"
  by (simp add: preserves_def exec_defs)

lemma preserves_read [preserves_intros]: "(\<And>s. preserves P (g s)) \<Longrightarrow> preserves P (read_exec g)"
  by (simp add: preserves_def exec_defs)

lemma preserves_bind [preserves_intros]: "preserves P m \<Longrightarrow> (\<And>x. preserves P (k x)) \<Longrightarrow> preserves P (bind_exec m k)"
  by (simp add: preserves_def exec_defs split: prod.splits sum.splits) (metis snd_conv)

lemma preserves_then [preserves_intros]: "preserves P m \<Longrightarrow> preserves P n \<Longrightarrow> preserves P (then_exec m n)"
  unfolding then_exec_def by (rule preserves_bind)

lemma preserves_if [preserves_intros]:
  "(b \<Longrightarrow> preserves P m) \<Longrightarrow> (\<not> b \<Longrightarrow> preserves P n) \<Longrightarrow> preserves P (if b then m else n)"
  by simp

lemma preserves_option [preserves_intros]:
  "preserves P m \<Longrightarrow> (\<And>x. preserves P (g x)) \<Longrightarrow> preserves P (case y of None \<Rightarrow> m | Some x \<Rightarrow> g x)"
  by (cases y) simp_all

lemma preserves_prod [preserves_intros]: "(\<And>a b. preserves P (g a b)) \<Longrightarrow> preserves P (case y of (a, b) \<Rightarrow> g a b)"
  by (cases y) simp

lemma preserves_foreach [preserves_intros]: "(\<And>x. preserves P (g x)) \<Longrightarrow> preserves P (foreach_exec xs g)"
  by (induction xs) (simp_all add: preserves_basic preserves_then)

lemma preservesD: "preserves P m \<Longrightarrow> P s \<Longrightarrow> P (snd (m s))"
  by (simp add: preserves_def)

abbreviation unique_state :: "fabric \<Rightarrow> bool" where
  "unique_state s \<equiv> monitors_unique (fa_monitors s)"

lemma no_monitor_unique: "monitors_unique (replicate n no_monitor)" "monitors_unique (map (\<lambda>m. no_monitor) ms)"
  by (simp_all add: monitors_unique_def monitor_entry_def no_monitor_def)

lemma establish_unique: "preserves unique_state (establish_monitor cfg route)"
  unfolding preserves_def
proof (intro allI impI)
  fix s
  assume u: "unique_state s"
  show "unique_state (snd (establish_monitor cfg route s))"
  proof (cases "burst_cursor_new (data_bytes cfg) (rt_payload route)")
    case (Inl e)
    then show ?thesis using u by (simp add: establish_monitor_def exec_defs)
  next
    case (Inr c)
    then show ?thesis
      using u put_monitor_unique [OF u monitor_for_entry]
      by (auto simp: establish_monitor_put [OF Inr] split: option.splits)
  qed
qed

lemma finish_unique: "preserves unique_state (finish_exclusive_write cfg route c)"
  unfolding finish_exclusive_write_def Let_def
  by (intro preserves_intros) (simp_all add: mon.clear_inv mon.kill_bytes(1))

lemma write_device_unique: "preserves unique_state (write_device_beat cfg route k c i data strobe)"
  unfolding write_device_beat_def Let_def
  by (intro preserves_intros) (simp_all add: mon.kill_bytes(1))

lemma process_unique: "preserves unique_state (process_write_beat cfg)" "preserves unique_state (process_read_beat cfg)"
  unfolding process_write_beat_def process_write_commit_def store_route_def complete_write_route_def
    process_read_beat_def Let_def
  by (intro preserves_intros finish_unique write_device_unique establish_unique; simp)+

lemma phases_unique:
  "preserves unique_state (check_stability cfg inputs)" "preserves unique_state (retire_responses cfg inputs)"
  "preserves unique_state (accept_ingress cfg inputs)" "preserves unique_state (arbitrate_addresses cfg)"
  unfolding check_stability_def check_port_stability_def retire_responses_def retire_b_def retire_r_def
    accept_ingress_def accept_aw_def accept_w_def accept_ar_def arbitrate_addresses_def arbitrate_aw_def
    arbitrate_ar_def Let_def
  by (intro preserves_intros; simp)+

lemma cycle_unique: "preserves unique_state (fabric_cycle cfg x)"
proof -
  have d: "fa_monitors (fold drive_port ps s) = fa_monitors s" for ps s
  proof (induction ps arbitrary: s)
    case (Cons p ps)
    have "fa_monitors (drive_port p s) = fa_monitors s"
      by (auto simp: drive_port_def ready_bit_def allow_ready_def Let_def split: prod.splits if_splits)
    then show ?case using Cons by simp
  qed simp
  have drv: "fa_monitors (drive cfg b s) = fa_monitors s" for b s by (simp add: drive_def Let_def d)
  show ?thesis
    unfolding fabric_cycle_def commit_def
    by (intro preserves_intros phases_unique process_unique)
      (simp_all add: drv Let_def reset_state_def no_monitor_unique)
qed

lemma run_unique: "preserves unique_state (fabric_run cfg xs)"
  unfolding fabric_run_def by (intro preserves_intros cycle_unique)

section \<open>Properties\<close>

text \<open>C14: along every run of the fabric each port and ID holds at most one reservation, so a lookup of the monitor
  table is unambiguous and the table is a finite map from (port, ID) to reservations.\<close>

theorem reservations_stay_unique:
  "monitors_unique (fa_monitors (snd (fabric_run cfg xs (fabric_new cfg space h reset_devices))))"
  by (rule preservesD [OF run_unique]) (simp add: fabric_new_def no_monitor_unique)

text \<open>C6: an exclusive write answers EXOKAY only when the fabric still holds the matching reservation of its port
  and ID, made by an exclusive read with the identical address payload; otherwise no device changes. Either
  way the reservation of that port and ID is given up and no reservation is created or altered.\<close>

theorem exclusive_write_outcome:
  assumes "fabric_wf cfg s" and "monitors_unique (fa_monitors s)" and "valid_burst cfg (rt_payload route) c"
    and "rt_forced route \<noteq> ExclusiveOkay" and "finish_exclusive_write cfg route c s = (r, s')"
  shows "\<exists>route'. r = Inr route' \<and>
    (wr_response route' = ExclusiveOkay \<longrightarrow> rt_forced route = Okay \<and> rt_mapping route \<noteq> None \<and>
       (\<exists>m. reservation (fa_monitors s) (rt_port route) (ax_id (rt_payload route)) = Some m \<and> mo_payload m = rt_payload route)) \<and>
    (fa_heap s' \<noteq> fa_heap s \<longrightarrow> wr_response route' = ExclusiveOkay) \<and>
    reservation (fa_monitors s') (rt_port route) (ax_id (rt_payload route)) = None \<and>
    (\<forall>q j m. reservation (fa_monitors s') q j = Some m \<longrightarrow> reservation (fa_monitors s) q j = Some m)"
proof -
  let ?p = "rt_port route" and ?i = "ax_id (rt_payload route)"
  let ?res = "reservation (fa_monitors s) ?p ?i"
  show ?thesis
  proof (cases "rt_forced route \<noteq> Okay \<or> rt_mapping route = None \<or>
      (case ?res of None \<Rightarrow> True | Some m \<Rightarrow> mo_payload m \<noteq> rt_payload route)")
    case True
    then show ?thesis
      using assms(4,5) unfolding finish_exclusive_write_fails [OF True]
      by (auto simp: mon.clear_lookup [OF assms(2)] split: if_splits)
  next
    case False
    then obtain m where m: "?res = Some m" "mo_payload m = rt_payload route" "rt_forced route = Okay" "rt_mapping route \<noteq> None"
      by (auto split: option.splits)
    obtain strobe :: "u8 list" and r' d k where e: "finish_exclusive_write cfg route c s =
      (Inr (route\<lparr>wr_response := (if response_is_success r' then ExclusiveOkay else r')\<rparr>),
       s\<lparr>fa_heap := (fa_heap s)[k := d],
         fa_monitors := clear_monitor ?p ?i
           (if response_is_success r'
            then fold (\<lambda>index ms. if strobe ! index \<noteq> 0
                   then invalidate_monitors (ax_address (rt_payload route) + of_nat index) ms else ms)
                 [0..<bc_beats c * bc_beat_bytes c] (fa_monitors s)
            else fa_monitors s)\<rparr>)"
      and h: "\<not> response_is_success r' \<longrightarrow> (fa_heap s)[k := d] = fa_heap s" "r' \<noteq> ExclusiveOkay"
      by (rule finish_exclusive_write_exec [OF assms(1,3) m]) blast
    show ?thesis
      using assms(5) h m unfolding e
      by (auto simp: mon.clear_lookup assms(2) mon.kill_bytes(1) dest: mon.kill_shrink [OF assms(2)]
          split: if_splits)
  qed
qed

text \<open>Port 0 holds a reservation of the word at 0x100 and writes it exclusively.\<close>

definition example_lock :: address_payload where
  "example_lock = example_aw\<lparr>ax_lock := True\<rparr>"

definition example_cursor :: burst_cursor where
  "example_cursor = \<lparr>bc_payload = example_lock, bc_beats = 1, bc_beat_bytes = 4\<rparr>"

definition example_reserved :: fabric where
  "example_reserved = example_fabric\<lparr>fa_monitors := [monitor_for 0 example_lock example_cursor, no_monitor]\<rparr>"

definition example_exclusive_route :: write_route where
  "example_exclusive_route = (default_write_route 4)\<lparr>rt_payload := example_lock, rt_mapping := Some 0, rt_exclusive := True\<rparr>"

lemma example_reserved_facts:
  "fabric_wf example_config example_reserved" "monitors_unique (fa_monitors example_reserved)"
  "valid_burst example_config example_lock example_cursor"
  "reservation (fa_monitors example_reserved) 0 3 = Some (monitor_for 0 example_lock example_cursor)"
proof -
  have "length (fa_monitors example_fabric) = route_depth example_config"
    using example_fabric_wf by (simp add: fabric_wf_def)
  then show "fabric_wf example_config example_reserved"
    using example_fabric_wf by (simp add: fabric_wf_def example_reserved_def example_config_def)
  show "monitors_unique (fa_monitors example_reserved)"
    by (auto simp: monitors_unique_def example_reserved_def monitor_entry_def no_monitor_def nth_Cons split: nat.splits)
  have "burst_cursor_new 4 example_lock = Inr example_cursor" by code_simp
  moreover have "validate_4k_boundary 4 example_cursor = Inr ()" by code_simp
  ultimately show "valid_burst example_config example_lock example_cursor" by (simp add: valid_burst_def)
  show "reservation (fa_monitors example_reserved) 0 3 = Some (monitor_for 0 example_lock example_cursor)" by code_simp
qed

theorem exclusive_write_outcome_witness:
  "reservation (fa_monitors (snd (finish_exclusive_write example_config example_exclusive_route example_cursor example_reserved))) 0 3 = None"
proof -
  have route: "rt_payload example_exclusive_route = example_lock" "rt_forced example_exclusive_route \<noteq> ExclusiveOkay"
    "rt_port example_exclusive_route = 0" "ax_id example_lock = 3"
    by (simp_all add: example_exclusive_route_def default_write_route_def example_lock_def example_aw_def)
  have v: "valid_burst example_config (rt_payload example_exclusive_route) example_cursor"
    using example_reserved_facts(3) by (simp add: route)
  show ?thesis
    using exclusive_write_outcome [OF example_reserved_facts(1,2) v route(2) prod.collapse [symmetric]] by (auto simp: route)
qed

text \<open>C15: a write beat that reaches a device invalidates exactly the reservations it touches: a reservation survives
  unless the device accepted the beat and some strobed byte of it lies in the reserved range.\<close>

theorem write_kills_touched_reservations:
  assumes "fabric_wf cfg s" and "monitors_unique (fa_monitors s)" and "valid_burst cfg payload c" and "i < bc_beats c"
    and "length data = data_bytes cfg" and "length strobe = data_bytes cfg"
    and "bus_word_address (data_bytes cfg) c i = Inr base" and "lane_mask (data_bytes cfg) c i = Inr lanes"
    and "write_device_beat cfg route k c i data strobe s = (Inr (r, route'), s')"
  shows "reservation (fa_monitors s') q j =
    (case reservation (fa_monitors s) q j of None \<Rightarrow> None
     | Some m \<Rightarrow> if response_is_success r \<and>
         (\<exists>lane<data_bytes cfg. lanes ! lane \<noteq> 0 \<and> strobe ! lane \<noteq> 0 \<and> monitor_covers m (base + of_nat lane))
       then None else Some m)"
proof -
  have ok: "config_ok cfg" using assms(1) by (simp add: fabric_wf_def)
  have ll: "length lanes = data_bytes cfg" using valid_burst_beats [OF ok assms(3,4)] assms(8) by (metis sum.inject(2))
  obtain first count where e: "enabled_extent lanes = (first, count)" by fastforce
  note cov = enabled_extent_covers [OF e]
  let ?eff = "map (\<lambda>lane. if lanes ! lane \<noteq> 0 \<and> strobe ! lane \<noteq> 0 then 1 else 0) [0..<data_bytes cfg] :: u8 list"
  let ?ms = "fold (\<lambda>lane ms. if ?eff ! lane \<noteq> 0 then invalidate_monitors (base + of_nat lane) ms else ms)
      [first..<first + count] (fa_monitors s)"
  show ?thesis
  proof (cases "count = 0")
    case True
    then have none: "lanes ! l = 0" if "l < data_bytes cfg" for l using cov(1,2) [of l] that ll by force
    have "s' = s" using assms(9) True by (simp add: write_device_beat_def exec_defs assms(7,8) e Let_def)
    then show ?thesis using none by (auto split: option.splits)
  next
    case False
    have ms: "fa_monitors s' = (if response_is_success r then ?ms else fa_monitors s)"
      using assms(9) False
      by (auto simp: write_device_beat_def exec_defs assms(7,8) e Let_def split: sum.splits prod.splits)
    have "\<exists>l<data_bytes cfg. lanes ! l \<noteq> 0"
    proof (rule ccontr)
      assume "\<not> ?thesis"
      then have "enabled_extent lanes = (0, 0)"
        using enabled_extent_fold [of "length lanes" lanes, OF order_refl] ll
        by (auto simp: enabled_extent_def Let_def split: prod.splits)
      then show False using e False by simp
    qed
    then have bound: "first + count \<le> data_bytes cfg" using cov(3) ll by force
    have eff: "?eff ! x \<noteq> 0 \<longleftrightarrow> lanes ! x \<noteq> 0 \<and> strobe ! x \<noteq> 0" if "x < data_bytes cfg" for x
      using that by simp
    have inside: "x < data_bytes cfg" if "x \<in> set [first..<first + count]" for x using that bound by simp
    have covered: "x \<in> set [first..<first + count]" if "x < data_bytes cfg" "lanes ! x \<noteq> 0" for x
      using that cov(1,2) [of x] ll by simp
    have hit: "(\<exists>x\<in>set [first..<first + count]. ?eff ! x \<noteq> 0 \<and> monitor_covers m (base + of_nat x)) \<longleftrightarrow>
        (\<exists>lane<data_bytes cfg. lanes ! lane \<noteq> 0 \<and> strobe ! lane \<noteq> 0 \<and> monitor_covers m (base + of_nat lane))" for m
      using eff inside covered by blast
    have "reservation ?ms q j = (case reservation (fa_monitors s) q j of None \<Rightarrow> None
      | Some m \<Rightarrow> if \<exists>lane<data_bytes cfg. lanes ! lane \<noteq> 0 \<and> strobe ! lane \<noteq> 0 \<and> monitor_covers m (base + of_nat lane)
          then None else Some m)"
      unfolding mon.kill_bytes(2) [OF assms(2), of "\<lambda>lane. ?eff ! lane \<noteq> 0" "\<lambda>lane. base + of_nat lane"] hit by simp
    then show ?thesis unfolding ms by (cases "response_is_success r") (auto split: option.splits)
  qed
qed

theorem write_kills_touched_reservations_witness:
  "\<exists>r route' s'. write_device_beat example_config example_exclusive_route 0 example_cursor 0 [1, 2, 3, 4] [1, 0, 0, 0] example_reserved =
       (Inr (r, route'), s') \<and> (response_is_success r \<longrightarrow> reservation (fa_monitors s') 0 3 = None)"
proof -
  let ?m = "write_device_beat example_config example_exclusive_route 0 example_cursor 0 [1, 2, 3, 4] [1, 0, 0, 0]"
  have beat: "bus_word_address 4 example_cursor 0 = Inr 0x100" "lane_mask 4 example_cursor 0 = Inr [1, 1, 1, 1]"
    by (code_simp, code_simp)
  have i: "0 < bc_beats example_cursor" by (simp add: example_cursor_def)
  have "\<not> isl (fst (?m example_reserved))" by code_simp
  then obtain r route' s' where m: "?m example_reserved = (Inr (r, route'), s')"
    using exec_returns [of ?m] by (metis surj_pair)
  have "monitor_covers (monitor_for 0 example_lock example_cursor) 0x100" by code_simp
  then have cov: "\<exists>lane<4. [1, 1, 1, 1 :: u8] ! lane \<noteq> 0 \<and> [1, 0, 0, 0 :: u8] ! lane \<noteq> 0 \<and>
      monitor_covers (monitor_for 0 example_lock example_cursor) (0x100 + of_nat lane)"
    by (intro exI [of _ 0]) simp
  have "reservation (fa_monitors s') 0 3 = None" if "response_is_success r"
    using write_kills_touched_reservations [OF example_reserved_facts(1,2,3) i _ _ _ _ m, where base = "0x100" and lanes = "[1, 1, 1, 1]" and q = 0 and j = 3]
      that beat example_reserved_facts(4) cov by auto
  then show ?thesis using m by blast
qed

text \<open>The first beat of an exclusive read takes the reservation. Either it is recorded, replacing an earlier one
  of the same port and ID and leaving all others as they were, with exactly the bytes of the burst as its
  range; or the fabric throws, which happens exactly when every monitor is in use and none belongs to this
  port and ID, and then nothing changes.\<close>

theorem exclusive_read_reserves:
  assumes "monitors_unique (fa_monitors s)" and "burst_cursor_new (data_bytes cfg) (rt_payload route) = Inr c"
    and "establish_monitor cfg route s = (r, s')"
  shows "(isl r \<longleftrightarrow> list_all mo_valid (fa_monitors s) \<and>
      reservation (fa_monitors s) (rt_port route) (ax_id (rt_payload route)) = None) \<and>
    (isl r \<longrightarrow> s' = s) \<and>
    (\<not> isl r \<longrightarrow> monitors_unique (fa_monitors s') \<and> fa_heap s' = fa_heap s \<and>
      (\<forall>q j. reservation (fa_monitors s') q j =
        (if q = rt_port route \<and> j = ax_id (rt_payload route) then Some (monitor_for (rt_port route) (rt_payload route) c)
         else reservation (fa_monitors s) q j)))"
proof (cases "put_monitor (monitor_for (rt_port route) (rt_payload route) c) (fa_monitors s)")
  case None
  then show ?thesis
    using assms(3) put_monitor_None [of "monitor_for (rt_port route) (rt_payload route) c" "fa_monitors s"]
    by (auto simp: establish_monitor_put [OF assms(2)] reservation_def monitor_for_def)
next
  case (Some ms)
  then have "\<not> (list_all mo_valid (fa_monitors s) \<and>
      reservation (fa_monitors s) (rt_port route) (ax_id (rt_payload route)) = None)"
    using put_monitor_None [of "monitor_for (rt_port route) (rt_payload route) c" "fa_monitors s"]
    by (auto simp: reservation_def monitor_for_def split: option.splits)
  then show ?thesis
    using assms(3) mon.put_inv [OF assms(1) monitor_for_entry Some] mon.put_lookup [OF assms(1) monitor_for_entry Some]
    by (auto simp: establish_monitor_put [OF assms(2)] Some)
qed

theorem exclusive_read_reserves_witness:
  "\<exists>s'. establish_monitor example_config (default_read_route\<lparr>rt_payload := example_lock, rt_port := 1\<rparr>) example_reserved = (Inr (), s') \<and>
     reservation (fa_monitors s') 1 3 = Some (monitor_for 1 example_lock example_cursor) \<and>
     reservation (fa_monitors s') 0 3 = Some (monitor_for 0 example_lock example_cursor)"
proof -
  let ?route = "default_read_route\<lparr>rt_payload := example_lock, rt_port := 1\<rparr>"
  let ?m = "establish_monitor example_config ?route"
  have c: "burst_cursor_new (data_bytes example_config) (rt_payload ?route) = Inr example_cursor"
    using example_reserved_facts(3) by (simp add: valid_burst_def)
  have ok: "\<not> isl (fst (?m example_reserved))" by code_simp
  then obtain u where m: "?m example_reserved = (Inr u, snd (?m example_reserved))" by (rule exec_returns)
  have id: "ax_id example_lock = 3" by code_simp
  show ?thesis
    using exclusive_read_reserves [OF example_reserved_facts(2) c m] m example_reserved_facts(4) by (auto simp: id)
qed

end
