(* ===== verification/Elf_Loader.thy ===== *)
theory Elf_Loader
  imports Address_Space
begin

text \<open>
  The image loader of \<^verbatim>\<open>src/elf_loader.cpp\<close>: parsing and validation of ELF32/ELF64 program headers, and
  \<^verbatim>\<open>ImageLoadPlan\<close>, which collects chunks and applies them to the devices behind an address space. An image is
  the list of its bytes; \<^verbatim>\<open>read_file\<close>, which produces that list from a host file, is outside the model. The plan's
  reference to the address space is an argument, and so is the heap of devices where a function only inspects it.
  \<^verbatim>\<open>subspan\<close> is \<open>subspan\<close>; a range that \<^verbatim>\<open>subspan\<close> must not be called with is excluded by the lemmas, not here.
  \<^verbatim>\<open>std::ranges::sort\<close> is \<open>sort_key\<close>; the C++ sort is not stable, so where two segments have the same address the
  message of the exception may name the other one (whether it throws does not depend on the order, see
  \<open>validate_order_iff\<close>).
\<close>

section \<open>Data\<close>

definition PT_LOAD :: u32 where "PT_LOAD = 1"
definition ELF_CLASS_32 :: u8 where "ELF_CLASS_32 = 1"
definition ELF_CLASS_64 :: u8 where "ELF_CLASS_64 = 2"
definition ELF_DATA_LITTLE_ENDIAN :: u8 where "ELF_DATA_LITTLE_ENDIAN = 1"
definition ELF_VERSION_CURRENT :: u8 where "ELF_VERSION_CURRENT = 1"

lemmas elf_constants =
  PT_LOAD_def ELF_CLASS_32_def ELF_CLASS_64_def ELF_DATA_LITTLE_ENDIAN_def ELF_VERSION_CURRENT_def

record elf_segment =
  es_virtual_address :: u64
  es_physical_address :: u64
  es_load_address :: u64
  es_file_size :: u64
  es_memory_size :: u64
  es_flags :: u32

definition default_elf_segment :: elf_segment where
  "default_elf_segment = \<lparr>es_virtual_address = 0, es_physical_address = 0, es_load_address = 0, es_file_size = 0,
     es_memory_size = 0, es_flags = 0\<rparr>"

record elf_load_result =
  er_entry :: u64
  er_is_64_bit :: bool
  er_segments :: "elf_segment list"

record parsed_segment =
  pg_public_segment :: elf_segment
  pg_file_offset :: u64
  pg_alignment :: u64
  pg_program_header_index :: nat

definition default_parsed_segment :: parsed_segment where
  "default_parsed_segment = \<lparr>pg_public_segment = default_elf_segment, pg_file_offset = 0, pg_alignment = 0,
     pg_program_header_index = 0\<rparr>"

record parsed_header =
  ph_entry :: u64
  ph_program_header_offset :: u64
  ph_program_header_size :: u64
  ph_program_header_count :: u16
  ph_is_64_bit :: bool

record chunk =
  ck_segment :: elf_segment
  ck_data :: "u8 list"

section \<open>Checked arithmetic and byte access\<close>

definition hexadecimal :: "u64 \<Rightarrow> string" where
  "hexadecimal value = ''0x'' @ show_hex (unat value)"

definition require_range :: "u64 \<Rightarrow> u64 \<Rightarrow> u64 \<Rightarrow> string \<Rightarrow> unit result" where
  "require_range offset len capacity description =
     throw_if (offset > capacity \<or> len > capacity - offset) (ElfError (''ELF '' @ description @ '' is out of bounds''))"

text \<open>\<^verbatim>\<open>Integer\<close> is the word type of the result, \<^verbatim>\<open>sizeof(Integer)\<close> its length in bytes.\<close>

definition read_little_endian :: "u8 list \<Rightarrow> u64 \<Rightarrow> string \<Rightarrow> 'a::len word result" where
  "read_little_endian img offset description =
     (let size = LENGTH('a) div 8
      in result_bind (require_range offset (of_nat size) (of_nat (length img)) description) (\<lambda>_.
           Inr (ucast (fold (\<lambda>byte value. value OR push_bit (byte * 8) (ucast (img ! unat (offset + of_nat byte))))
                         [0..<size] (0 :: u64)))))"

definition checked_multiply :: "u64 \<Rightarrow> u64 \<Rightarrow> string \<Rightarrow> u64 result" where
  "checked_multiply lhs rhs description =
     (if lhs \<noteq> 0 \<and> rhs > 0xFFFFFFFFFFFFFFFF div lhs
      then Inl (ElfError (''ELF '' @ description @ '' overflows'')) else Inr (lhs * rhs))"

definition checked_add :: "u64 \<Rightarrow> u64 \<Rightarrow> string \<Rightarrow> u64 result" where
  "checked_add lhs rhs description =
     (if rhs > 0xFFFFFFFFFFFFFFFF - lhs
      then Inl (ElfError (''ELF '' @ description @ '' overflows'')) else Inr (lhs + rhs))"

definition subspan :: "u8 list \<Rightarrow> u64 \<Rightarrow> u64 \<Rightarrow> u8 list" where
  "subspan img offset count = take (unat count) (drop (unat offset) img)"

section \<open>Load targets and loading a segment\<close>

definition validate_load_target :: "address_space \<Rightarrow> heap \<Rightarrow> elf_segment \<Rightarrow> nat \<Rightarrow> unit result" where
  "validate_load_target space h segment program_header_index =
     (let who = ''PT_LOAD['' @ show_dec program_header_index @ '']''
      in case as_resolve space (es_load_address segment) (es_memory_size segment) of
           None \<Rightarrow> Inl (ElfError (who @ '' range '' @ hexadecimal (es_load_address segment) @ ''..'' @
             hexadecimal (es_load_address segment + es_memory_size segment) @ '' does not fit one mapped device''))
         | Some k \<Rightarrow>
             (let m = as_mappings space ! k; d = h ! mp_device m
              in if \<not> dev_loadable d
                 then Inl (ElfError (who @ '' targets non-loadable device '' @ [CHR 0x27] @ mp_name m @ [CHR 0x27]))
                 else if \<not> dev_can_load (es_load_address segment - mp_base m) (es_memory_size segment) d
                 then Inl (ElfError (who @ '' exceeds device '' @ [CHR 0x27] @ mp_name m @ [CHR 0x27]))
                 else Inr ()))"

text \<open>The loop that clears the part of a segment beyond its file data, in blocks of at most 4096 zeros.\<close>

lemma zero_fill_decreases: "remaining \<noteq> 0 \<Longrightarrow> unat (remaining - min remaining (4096 :: u64)) < unat remaining"
  by (simp add: unat_sub min_def word_le_nat_alt unat_gt_0)

function zero_fill :: "address_space \<Rightarrow> u64 \<Rightarrow> u64 \<Rightarrow> (heap, unit) exec" where
  "zero_fill space zero_address remaining h =
     (if remaining = 0 then (Inr (), h)
      else
        (let count = min remaining 4096
         in case as_load space zero_address (replicate (unat count) 0) h of
              (r, h') \<Rightarrow>
                if \<not> response_is_success r
                then (Inl (ElfError (''device rejected PT_LOAD BSS at '' @ hexadecimal zero_address)), h')
                else zero_fill space (zero_address + count) (remaining - count) h'))"
  by pat_completeness auto
termination
  by (relation "measure (\<lambda>(_, _, remaining, _). unat remaining)") (simp_all add: zero_fill_decreases)

declare zero_fill.simps [simp del]

definition apply_segment :: "u8 list \<Rightarrow> parsed_segment \<Rightarrow> address_space \<Rightarrow> (heap, unit) exec" where
  "apply_segment img segment space =
     (let info = pg_public_segment segment
      in then_exec
           (if es_file_size info \<noteq> 0
            then (\<lambda>h. case as_load space (es_load_address info)
                              (subspan img (pg_file_offset segment) (es_file_size info)) h of
                        (r, h') \<Rightarrow>
                          if \<not> response_is_success r
                          then (Inl (ElfError (''device rejected PT_LOAD data at '' @ hexadecimal (es_load_address info))), h')
                          else (Inr (), h'))
            else return_exec ())
           (zero_fill space (es_load_address info + es_file_size info) (es_memory_size info - es_file_size info)))"

section \<open>Parsing\<close>

text \<open>The conditional expressions that read a field of the width of the ELF class.\<close>

definition read_class :: "bool \<Rightarrow> u8 list \<Rightarrow> u64 \<Rightarrow> u64 \<Rightarrow> string \<Rightarrow> u64 result" where
  "read_class is_64_bit img offset64 offset32 description =
     (if is_64_bit then read_little_endian img offset64 description
      else result_bind (read_little_endian img offset32 description) (\<lambda>v :: u32. Inr (ucast v)))"

definition parse_identification :: "u8 list \<Rightarrow> bool result" where
  "parse_identification img =
     result_bind (require_range 0 16 (of_nat (length img)) ''identification'') (\<lambda>_.
     result_bind (throw_if (img ! 0 \<noteq> 0x7f \<or> img ! 1 \<noteq> 0x45 \<or> img ! 2 \<noteq> 0x4c \<or> img ! 3 \<noteq> 0x46)
       (ElfError ''input is not an ELF image'')) (\<lambda>_.
     let elf_class = img ! 4
     in result_bind (throw_if (elf_class \<noteq> ELF_CLASS_32 \<and> elf_class \<noteq> ELF_CLASS_64)
          (ElfError ''unsupported ELF class (expected ELF32 or ELF64)'')) (\<lambda>_.
        result_bind (throw_if (img ! 5 \<noteq> ELF_DATA_LITTLE_ENDIAN)
          (ElfError ''only little-endian ELF images are supported'')) (\<lambda>_.
        result_bind (throw_if (img ! 6 \<noteq> ELF_VERSION_CURRENT)
          (ElfError ''unsupported ELF identification version'')) (\<lambda>_.
        Inr (elf_class = ELF_CLASS_64))))))"

definition parse_header :: "u8 list \<Rightarrow> parsed_header result" where
  "parse_header img =
     result_bind (parse_identification img) (\<lambda>is_64_bit.
     let header_size = (if is_64_bit then 64 else 52) :: u64;
         program_header_size = (if is_64_bit then 56 else 32) :: u64
     in result_bind (require_range 0 header_size (of_nat (length img)) ''header'') (\<lambda>_.
        result_bind (read_little_endian img 20 ''version'') (\<lambda>version :: u32.
        result_bind (throw_if (version \<noteq> ucast ELF_VERSION_CURRENT) (ElfError ''unsupported ELF header version'')) (\<lambda>_.
        result_bind (read_class is_64_bit img 24 24 ''entry point'') (\<lambda>entry.
        result_bind (read_class is_64_bit img 32 28 ''program-header offset'') (\<lambda>program_header_offset.
        result_bind (read_little_endian img (if is_64_bit then 52 else 40) ''header size'') (\<lambda>declared_header_size :: u16.
        result_bind (read_little_endian img (if is_64_bit then 54 else 42) ''program-header entry size'')
          (\<lambda>declared_program_header_size :: u16.
        result_bind (read_little_endian img (if is_64_bit then 56 else 44) ''program-header count'')
          (\<lambda>program_header_count :: u16.
        result_bind (throw_if (ucast declared_header_size < header_size)
          (ElfError ''ELF header size is smaller than its class requires'')) (\<lambda>_.
        result_bind (throw_if (program_header_count = 0xffff)
          (ElfError ''extended ELF program-header counts are not supported'')) (\<lambda>_.
        result_bind (throw_if (program_header_count \<noteq> 0 \<and> ucast declared_program_header_size < program_header_size)
          (ElfError ''ELF program-header entry is smaller than its class requires'')) (\<lambda>_.
        result_bind (checked_multiply (ucast program_header_count) (ucast declared_program_header_size)
          ''program-header table size'') (\<lambda>table_size.
        result_bind (require_range program_header_offset table_size (of_nat (length img)) ''program-header table'') (\<lambda>_.
        Inr \<lparr>ph_entry = entry, ph_program_header_offset = program_header_offset,
             ph_program_header_size = ucast declared_program_header_size,
             ph_program_header_count = program_header_count, ph_is_64_bit = is_64_bit\<rparr>))))))))))))))"

text \<open>The fields of a \<^verbatim>\<open>PT_LOAD\<close> entry, in the order in which each class stores them.\<close>

definition parse_fields_64 :: "u8 list \<Rightarrow> u64 \<Rightarrow> nat \<Rightarrow> parsed_segment result" where
  "parse_fields_64 img offset index =
     result_bind (read_little_endian img (offset + 4) ''segment flags'') (\<lambda>flags.
     result_bind (read_little_endian img (offset + 8) ''segment file offset'') (\<lambda>file_offset.
     result_bind (read_little_endian img (offset + 16) ''segment virtual address'') (\<lambda>virtual_address.
     result_bind (read_little_endian img (offset + 24) ''segment physical address'') (\<lambda>physical_address.
     result_bind (read_little_endian img (offset + 32) ''segment file size'') (\<lambda>file_size.
     result_bind (read_little_endian img (offset + 40) ''segment memory size'') (\<lambda>memory_size.
     result_bind (read_little_endian img (offset + 48) ''segment alignment'') (\<lambda>alignment.
     Inr \<lparr>pg_public_segment = \<lparr>es_virtual_address = virtual_address, es_physical_address = physical_address,
            es_load_address = 0, es_file_size = file_size, es_memory_size = memory_size, es_flags = flags\<rparr>,
          pg_file_offset = file_offset, pg_alignment = alignment, pg_program_header_index = index\<rparr>)))))))"

definition read_word32 :: "u8 list \<Rightarrow> u64 \<Rightarrow> string \<Rightarrow> u64 result" where
  "read_word32 img offset description =
     result_bind (read_little_endian img offset description) (\<lambda>v :: u32. Inr (ucast v))"

definition parse_fields_32 :: "u8 list \<Rightarrow> u64 \<Rightarrow> nat \<Rightarrow> parsed_segment result" where
  "parse_fields_32 img offset index =
     result_bind (read_word32 img (offset + 4) ''segment file offset'') (\<lambda>file_offset.
     result_bind (read_word32 img (offset + 8) ''segment virtual address'') (\<lambda>virtual_address.
     result_bind (read_word32 img (offset + 12) ''segment physical address'') (\<lambda>physical_address.
     result_bind (read_word32 img (offset + 16) ''segment file size'') (\<lambda>file_size.
     result_bind (read_word32 img (offset + 20) ''segment memory size'') (\<lambda>memory_size.
     result_bind (read_little_endian img (offset + 24) ''segment flags'') (\<lambda>flags.
     result_bind (read_word32 img (offset + 28) ''segment alignment'') (\<lambda>alignment.
     Inr \<lparr>pg_public_segment = \<lparr>es_virtual_address = virtual_address, es_physical_address = physical_address,
            es_load_address = 0, es_file_size = file_size, es_memory_size = memory_size, es_flags = flags\<rparr>,
          pg_file_offset = file_offset, pg_alignment = alignment, pg_program_header_index = index\<rparr>)))))))"

text \<open>The checks of a \<^verbatim>\<open>PT_LOAD\<close> entry that follow the reading of its fields.\<close>

definition validate_segment ::
  "u8 list \<Rightarrow> address_space \<Rightarrow> heap \<Rightarrow> nat \<Rightarrow> parsed_segment \<Rightarrow> parsed_segment option result" where
  "validate_segment img space h index parsed =
     (let info = pg_public_segment parsed; alignment = pg_alignment parsed;
          who = ''PT_LOAD['' @ show_dec index @ '']''
      in result_bind (throw_if (es_file_size info > es_memory_size info)
           (ElfError (who @ '' has p_filesz greater than p_memsz''))) (\<lambda>_.
         result_bind (require_range (pg_file_offset parsed) (es_file_size info) (of_nat (length img))
           ''loadable segment data'') (\<lambda>_.
         result_bind (throw_if (alignment > 1 \<and> alignment AND (alignment - 1) \<noteq> 0)
           (ElfError (who @ '' alignment is not a power of two''))) (\<lambda>_.
         result_bind (throw_if (alignment > 1 \<and>
             es_virtual_address info mod alignment \<noteq> pg_file_offset parsed mod alignment)
           (ElfError (who @ '' virtual address and file offset are incongruent''))) (\<lambda>_.
         let load_address = (if es_physical_address info \<noteq> 0 then es_physical_address info else es_virtual_address info);
             segment = info\<lparr>es_load_address := load_address\<rparr>
         in result_bind (checked_add load_address (es_memory_size info) ''loadable segment address range'') (\<lambda>_.
            if es_memory_size info = 0 then Inr None
            else result_bind (validate_load_target space h segment index) (\<lambda>_.
                   Inr (Some (parsed\<lparr>pg_public_segment := segment\<rparr>)))))))))"

definition parse_program_header ::
  "u8 list \<Rightarrow> parsed_header \<Rightarrow> nat \<Rightarrow> address_space \<Rightarrow> heap \<Rightarrow> parsed_segment option result" where
  "parse_program_header img header index space h =
     result_bind (checked_multiply (of_nat index) (ph_program_header_size header) ''program-header offset'') (\<lambda>relative.
     result_bind (checked_add (ph_program_header_offset header) relative ''program-header offset'') (\<lambda>offset.
     result_bind (read_little_endian img offset ''segment type'') (\<lambda>type :: u32.
     if type \<noteq> PT_LOAD then Inr None
     else result_bind (if ph_is_64_bit header then parse_fields_64 img offset index
                       else parse_fields_32 img offset index)
            (validate_segment img space h index))))"

text \<open>One pass of the loop of \<^verbatim>\<open>parse_load_segments\<close>: the segments collected so far and the next index.\<close>

definition parse_load_segments :: "u8 list \<Rightarrow> parsed_header \<Rightarrow> address_space \<Rightarrow> heap \<Rightarrow> parsed_segment list result" where
  "parse_load_segments img header space h =
     result_fold (\<lambda>index segments.
       result_bind (parse_program_header img header index space h) (\<lambda>segment.
         Inr (case segment of None \<Rightarrow> segments | Some s \<Rightarrow> segments @ [s])))
       [0..<unat (ph_program_header_count header)] []"

text \<open>The overlap check along an order of the segments.\<close>

definition validate_order :: "parsed_segment list \<Rightarrow> nat list \<Rightarrow> unit result" where
  "validate_order segments address_order =
     result_all (\<lambda>index.
         (let previous = pg_public_segment (segments ! (address_order ! (index - 1)));
              current = segments ! (address_order ! index)
          in throw_if (es_load_address previous + es_memory_size previous > es_load_address (pg_public_segment current))
               (ElfError (''PT_LOAD['' @ show_dec (pg_program_header_index current) @ ''] overlaps another loadable segment''))))
       [1..<length address_order]"

definition validate_no_overlap :: "parsed_segment list \<Rightarrow> unit result" where
  "validate_no_overlap segments =
     validate_order segments
       (sort_key (\<lambda>index. es_load_address (pg_public_segment (segments ! index))) [0..<length segments])"

section \<open>ImageLoadPlan\<close>

text \<open>The plan is the list of its chunks. \<^verbatim>\<open>add_elf\<close> and \<^verbatim>\<open>add_raw\<close> append to it as their last action, so a throw leaves
  it unchanged.\<close>

type_synonym load_plan = "chunk list"

definition add_elf :: "u8 list \<Rightarrow> address_space \<Rightarrow> heap \<Rightarrow> load_plan \<Rightarrow> (elf_load_result \<times> load_plan) result" where
  "add_elf img space h chunks =
     result_bind (parse_header img) (\<lambda>header.
     result_bind (parse_load_segments img header space h) (\<lambda>segments.
     result_bind (validate_no_overlap segments) (\<lambda>_.
       let additions = map (\<lambda>segment. \<lparr>ck_segment = pg_public_segment segment,
             ck_data = subspan img (pg_file_offset segment) (es_file_size (pg_public_segment segment))\<rparr>) segments
       in Inr (\<lparr>er_entry = ph_entry header, er_is_64_bit = ph_is_64_bit header,
                er_segments = map pg_public_segment segments\<rparr>, chunks @ additions))))"

definition add_raw :: "u8 list \<Rightarrow> u64 \<Rightarrow> address_space \<Rightarrow> heap \<Rightarrow> load_plan \<Rightarrow> load_plan result" where
  "add_raw img address space h chunks =
     (if img = [] then Inr chunks
      else
        (let segment = default_elf_segment\<lparr>es_load_address := address, es_memory_size := of_nat (length img),
               es_file_size := of_nat (length img)\<rparr>
         in result_bind (checked_add address (of_nat (length img)) ''raw image range'') (\<lambda>_.
            result_bind (validate_load_target space h segment 0) (\<lambda>_.
            Inr (chunks @ [\<lparr>ck_segment = segment, ck_data = img\<rparr>])))))"

text \<open>The check of chunk \<open>i\<close> against the earlier chunks, and the two passes of \<^verbatim>\<open>apply\<close>. A chunk that has passed
  \<^verbatim>\<open>validate_load_target\<close> resolves, so the pointers \<^verbatim>\<open>ma\<close> and \<^verbatim>\<open>mb\<close> are not null.\<close>

definition chunk_mapping :: "address_space \<Rightarrow> elf_segment \<Rightarrow> mapping" where
  "chunk_mapping space a = as_mappings space ! the (as_resolve space (es_load_address a) (es_memory_size a))"

definition check_chunk_pair :: "address_space \<Rightarrow> elf_segment \<Rightarrow> elf_segment \<Rightarrow> unit result" where
  "check_chunk_pair space a b =
     (let ma = chunk_mapping space a; mb = chunk_mapping space b;
          ao = es_load_address a - mp_base ma; bo = es_load_address b - mp_base mb
      in throw_if (mp_device ma = mp_device mb \<and> ao < bo + es_memory_size b \<and> bo < ao + es_memory_size a)
           (ElfError (''image ranges overlap (including BSS or device aliases) at '' @ hexadecimal (es_load_address a))))"

definition validate_plan :: "address_space \<Rightarrow> heap \<Rightarrow> load_plan \<Rightarrow> unit result" where
  "validate_plan space h chunks =
     result_all (\<lambda>i.
         result_bind (validate_load_target space h (ck_segment (chunks ! i)) i) (\<lambda>_.
           result_all (\<lambda>j. check_chunk_pair space (ck_segment (chunks ! i)) (ck_segment (chunks ! j))) [0..<i]))
       [0..<length chunks]"

definition apply_plan :: "address_space \<Rightarrow> load_plan \<Rightarrow> (heap, unit) exec" where
  "apply_plan space chunks =
     then_exec (read_exec (\<lambda>h. lift_result (validate_plan space h chunks)))
       (foreach_exec chunks (\<lambda>chunk.
          apply_segment (ck_data chunk) (default_parsed_segment\<lparr>pg_public_segment := ck_segment chunk\<rparr>) space))"

definition load_elf :: "u8 list \<Rightarrow> address_space \<Rightarrow> (heap, elf_load_result) exec" where
  "load_elf img space =
     bind_exec (read_exec (\<lambda>h. lift_result (add_elf img space h []))) (\<lambda>(result, plan).
       then_exec (apply_plan space plan) (return_exec result))"

definition load_raw_image :: "u8 list \<Rightarrow> address_space \<Rightarrow> u64 \<Rightarrow> (heap, unit) exec" where
  "load_raw_image img space address =
     bind_exec (read_exec (\<lambda>h. lift_result (add_raw img address space h []))) (apply_plan space)"

end
