(* ===== verification/Image_Load.thy ===== *)
theory Image_Load
  imports Elf_Loader
begin

text \<open>
  What loading an image does. The devices that can be loaded satisfy the contract \<open>loadable_device\<close>: a range they
  say they can load is accepted in pieces, and every piece is stored as given. On top of it, applying a plan is
  shown to be all or nothing: either the validation throws and no device has changed, or every chunk is stored,
  with zeros beyond its file data, and nothing else changes.
\<close>

section \<open>The contract of loadable devices\<close>

locale loadable_device =
  fixes load :: "u64 \<Rightarrow> u8 list \<Rightarrow> 'd \<Rightarrow> response \<times> 'd"
    and can_load :: "u64 \<Rightarrow> u64 \<Rightarrow> 'd \<Rightarrow> bool"
    and loadable :: "'d \<Rightarrow> bool"
    and bytes :: "'d \<Rightarrow> u8 list"
    and poke :: "nat \<Rightarrow> u8 list \<Rightarrow> 'd \<Rightarrow> 'd"
    and wf :: "'d \<Rightarrow> bool"
  assumes can_load_iff: "wf d \<Longrightarrow> loadable d \<Longrightarrow> can_load offset sz d \<longleftrightarrow> unat offset + unat sz \<le> length (bytes d)"
    and load_poke: "wf d \<Longrightarrow> loadable d \<Longrightarrow> unat offset + length data \<le> length (bytes d) \<Longrightarrow>
      load offset data d = (Okay, poke (unat offset) data d)"
    and bytes_poke: "loadable d \<Longrightarrow> start + length data \<le> length (bytes d) \<Longrightarrow>
      bytes (poke start data d) = copy_into (bytes d) start data"
    and loadable_poke: "loadable (poke start data d) = loadable d"
    and wf_poke: "wf d \<Longrightarrow> loadable d \<Longrightarrow> start + length data \<le> length (bytes d) \<Longrightarrow> wf (poke start data d)"
    and poke_nil: "poke start [] d = d"
    and poke_append: "loadable d \<Longrightarrow> start + length xs + length ys \<le> length (bytes d) \<Longrightarrow>
      poke (start + length xs) ys (poke start xs d) = poke start (xs @ ys) d"
begin

lemma length_bytes_poke:
  "loadable d \<Longrightarrow> start + length data \<le> length (bytes d) \<Longrightarrow> length (bytes (poke start data d)) = length (bytes d)"
  by (simp add: bytes_poke)

lemma bytes_poke_nth:
  "loadable d \<Longrightarrow> start + length data \<le> length (bytes d) \<Longrightarrow> x < length (bytes d) \<Longrightarrow>
   bytes (poke start data d) ! x =
     (if start \<le> x \<and> x < start + length data then data ! (x - start) else bytes d ! x)"
  by (simp add: bytes_poke copy_into_nth)

text \<open>A range that can be loaded as a whole is accepted in two pieces, with the same effect.\<close>

lemma load_pieces:
  assumes "wf d" and "can_load offset sz d" and "loadable d"
    and "length xs + length ys \<le> unat sz" and "unat offset' = unat offset + length xs"
  shows "\<exists>d'. load offset xs d = (Okay, d') \<and> load offset' ys d' = (Okay, poke (unat offset) (xs @ ys) d)"
proof -
  have fit: "unat offset + length xs + length ys \<le> length (bytes d)" using assms can_load_iff [OF assms(1,3)] by simp
  then have fits: "unat offset + length xs \<le> length (bytes d)" by simp
  have "unat offset' + length ys \<le> length (bytes (poke (unat offset) xs d))"
    using fit assms(5) length_bytes_poke [OF assms(3) fits] by simp
  then have "load offset' ys (poke (unat offset) xs d) = (Okay, poke (unat offset') ys (poke (unat offset) xs d))"
    using wf_poke [OF assms(1,3) fits] assms(3) by (intro load_poke) (simp_all add: loadable_poke)
  then show ?thesis using load_poke [OF assms(1,3) fits] poke_append [OF assms(3) fit] assms(5) by simp
qed

end

fun storage :: "device \<Rightarrow> u8 list" where
  "storage (DRom d) = rom_bytes d"
| "storage (DRam d) = ram_bytes d"
| "storage d = []"

fun poke_device :: "nat \<Rightarrow> u8 list \<Rightarrow> device \<Rightarrow> device" where
  "poke_device start data (DRom d) = DRom (d\<lparr>rom_bytes := copy_into (rom_bytes d) start data\<rparr>)"
| "poke_device start data (DRam d) = DRam (d\<lparr>ram_bytes := copy_into (ram_bytes d) start data\<rparr>)"
| "poke_device start data d = d"

lemma copy_into_nil [simp]: "copy_into mem start [] = mem"
  by (simp add: copy_into_def)

lemma copy_into_append:
  assumes "start + length xs + length ys \<le> length mem"
  shows "copy_into (copy_into mem start xs) (start + length xs) ys = copy_into mem start (xs @ ys)"
proof -
  have "start \<le> length mem" using assms by simp
  then show ?thesis by (simp add: copy_into_def add.commute add.left_commute)
qed

interpretation ld: loadable_device dev_load dev_can_load dev_loadable storage poke_device dev_wf
proof (unfold_locales, goal_cases)
  case (1 d offset sz)
  then show ?case
    by (cases d) (auto simp: rom_can_load_def ram_can_load_def range_in_bounds_def rom_size_def ram_wf_def)
next
  case (2 d offset data)
  then show ?case
    by (cases d) (auto simp: wrap_write_def rom_load_def ram_load_def in_bounds_def rom_size_def ram_wf_def)
next
  case (3 d start data)
  then show ?case by (cases d) auto
next
  case (4 start data d)
  then show ?case by (cases d) auto
next
  case (5 d start data)
  then show ?case by (cases d) (auto simp: rom_wf_def rom_size_def ram_wf_def)
next
  case (6 start d)
  then show ?case by (cases d) auto
next
  case (7 d start xs ys)
  then show ?case by (cases d) (auto simp: copy_into_append)
qed

section \<open>Load targets\<close>

text \<open>\<open>n\<close> bytes at address \<open>a\<close> lie in window \<open>k\<close> and in the storage of the device behind it.\<close>

definition load_target :: "address_space \<Rightarrow> heap \<Rightarrow> u64 \<Rightarrow> nat \<Rightarrow> nat \<Rightarrow> bool" where
  "load_target sp h a n k \<longleftrightarrow>
     window_of sp (unat a) k \<and> unat a + n \<le> mp_to (as_mappings sp ! k) \<and>
     dev_loadable (h ! mp_device (as_mappings sp ! k)) \<and>
     unat a - mp_from (as_mappings sp ! k) + n \<le> length (storage (h ! mp_device (as_mappings sp ! k)))"

lemma window_offset: "window_of sp (unat a) k \<Longrightarrow> unat (a - mp_base (as_mappings sp ! k)) = unat a - mp_from (as_mappings sp ! k)"
  by (simp add: window_of_def mp_from_def unat_sub word_le_nat_alt)

lemma devices_okD: "devices_ok sp h \<Longrightarrow> window_of sp a k \<Longrightarrow> mp_device (as_mappings sp ! k) < length h"
  by (simp add: devices_ok_def list_all_length window_of_def)

lemma heap_wfD: "heap_wf h \<Longrightarrow> i < length h \<Longrightarrow> dev_wf (h ! i)"
  by (simp add: heap_wf_def list_all_length)

lemma validate_load_target_iff:
  assumes "as_wf sp" and "heap_wf h" and "devices_ok sp h"
  shows "validate_load_target sp h seg i = Inr () \<longleftrightarrow>
    0 < unat (es_memory_size seg) \<and> (\<exists>k. load_target sp h (es_load_address seg) (unat (es_memory_size seg)) k)"
proof (cases "as_resolve sp (es_load_address seg) (es_memory_size seg)")
  case None
  then show ?thesis
    using as_resolve_iff [OF assms(1), of "es_load_address seg" "es_memory_size seg"]
    by (auto simp: validate_load_target_def load_target_def Let_def)
next
  case (Some k)
  note w = Some [unfolded as_resolve_iff [OF assms(1)]]
  let ?m = "as_mappings sp ! k"
  have wf: "dev_wf (h ! mp_device ?m)" using heap_wfD [OF assms(2)] devices_okD [OF assms(3)] w by blast
  have u: "j = k" if "load_target sp h (es_load_address seg) (unat (es_memory_size seg)) j" for j
    using that w window_of_unique [OF assms(1)] by (auto simp: load_target_def)
  have "validate_load_target sp h seg i = Inr () \<longleftrightarrow> load_target sp h (es_load_address seg) (unat (es_memory_size seg)) k"
    using Some w ld.can_load_iff [OF wf]
    by (auto simp: validate_load_target_def load_target_def Let_def window_offset)
  then show ?thesis using u w by blast
qed

lemma validate_load_target_error: "validate_load_target sp h seg i = Inl e \<Longrightarrow> \<exists>m. e = ElfError m"
  by (auto simp: validate_load_target_def Let_def split: option.splits if_splits)

definition poke_heap :: "nat \<Rightarrow> nat \<Rightarrow> u8 list \<Rightarrow> heap \<Rightarrow> heap" where
  "poke_heap dev start data h = h[dev := poke_device start data (h ! dev)]"

lemma poke_heap_facts [simp]:
  "length (poke_heap dev start data h) = length h"
  "poke_heap dev start [] h = h"
  by (simp_all add: poke_heap_def ld.poke_nil)

lemma poke_heap_nth: "i < length h \<Longrightarrow> poke_heap dev start data h ! i = (if i = dev then poke_device start data (h ! i) else h ! i)"
  by (auto simp: poke_heap_def)

lemma load_target_fits:
  assumes "load_target sp h a n k" and "length data \<le> n"
  shows "unat a - mp_from (as_mappings sp ! k) + length data \<le> length (storage (h ! mp_device (as_mappings sp ! k)))"
  using assms by (simp add: load_target_def)

lemma load_target_poke:
  assumes "devices_ok sp h" and "load_target sp h a n k" and "load_target sp h b m j" and "length data \<le> m"
  shows "load_target sp (poke_heap (mp_device (as_mappings sp ! j)) (unat b - mp_from (as_mappings sp ! j)) data h) a n k"
  using assms load_target_fits [OF assms(3,4)] devices_okD [OF assms(1)]
  by (auto simp: load_target_def poke_heap_nth ld.loadable_poke ld.length_bytes_poke)

lemma poke_heap_wf:
  assumes "heap_wf h" and "devices_ok sp h" and "load_target sp h b m j" and "length data \<le> m"
  shows "heap_wf (poke_heap (mp_device (as_mappings sp ! j)) (unat b - mp_from (as_mappings sp ! j)) data h)"
    and "devices_ok sp (poke_heap (mp_device (as_mappings sp ! j)) (unat b - mp_from (as_mappings sp ! j)) data h)"
  using assms load_target_fits [OF assms(3,4)]
  by (auto simp: heap_wf_def devices_ok_def list_all_length poke_heap_nth ld.wf_poke load_target_def)

lemma poke_heap_append:
  assumes "devices_ok sp h" and "load_target sp h a n k" and "length xs + length ys \<le> n"
  defines "dev \<equiv> mp_device (as_mappings sp ! k)" and "off \<equiv> unat a - mp_from (as_mappings sp ! k)"
  shows "poke_heap dev (off + length xs) ys (poke_heap dev off xs h) = poke_heap dev off (xs @ ys) h"
proof -
  have "dev < length h" using devices_okD [OF assms(1)] assms(2) by (auto simp: load_target_def dev_def)
  moreover have "off + length xs + length ys \<le> length (storage (h ! dev))" "dev_loadable (h ! dev)"
    using assms(2,3) by (auto simp: load_target_def dev_def off_def)
  ultimately show ?thesis by (simp add: poke_heap_def ld.poke_append)
qed

lemma as_load_target:
  assumes "as_wf sp" and "heap_wf h" and "devices_ok sp h" and "load_target sp h a n k"
    and "off + length data \<le> n"
  shows "as_load sp (a + of_nat off) data h =
    (Okay, poke_heap (mp_device (as_mappings sp ! k)) (unat a - mp_from (as_mappings sp ! k) + off) data h)"
proof (cases "data = []")
  case True
  then show ?thesis by (simp add: as_load_def)
next
  case False
  let ?m = "as_mappings sp ! k"
  note t = assms(4) [unfolded load_target_def]
  have k: "k < length (as_mappings sp)" using t by (simp add: window_of_def)
  have lt: "unat a + n < 2 ^ 64" using t as_wf_nth(2) [OF assms(1) k] by simp
  then have ao: "unat (a + of_nat off) = unat a + off" using assms(5) by (subst unat_plus_exact) (simp_all add: unat_of_nat_exact)
  have len: "unat (of_nat (length data) :: u64) = length data" using lt assms(5) by (simp add: unat_of_nat_exact)
  have pos: "0 < length data" using False by simp
  have "unat a + n \<le> mp_to ?m" using t by simp
  then have "unat a + off < mp_to ?m" using assms(5) pos by linarith
  then have w: "window_of sp (unat (a + of_nat off)) k" using t by (simp add: ao window_of_def)
  have r: "as_resolve sp (a + of_nat off) (of_nat (length data)) = Some k"
    unfolding as_resolve_iff [OF assms(1)] using w t assms(5) pos by (simp add: ao len)
  let ?d = "h ! mp_device ?m"
  have wf: "dev_wf ?d" using heap_wfD [OF assms(2)] devices_okD [OF assms(3)] t by blast
  have o: "unat (a + of_nat off - mp_base ?m) = unat a - mp_from ?m + off"
    using window_offset [OF w] t by (simp add: ao window_of_def)
  have fit: "unat (a + of_nat off - mp_base ?m) + length data \<le> length (storage ?d)" using t assms(5) by (simp add: o)
  have "dev_can_load (a + of_nat off - mp_base ?m) (of_nat (length data)) ?d"
    using ld.can_load_iff [OF wf] t fit by (simp add: len)
  then show ?thesis
    using False r t ld.load_poke [OF wf _ fit] by (simp add: as_load_def Let_def poke_heap_def o)
qed

section \<open>Applying a segment\<close>

lemma zero_fill_pokes:
  assumes "as_wf sp" and "heap_wf h" and "devices_ok sp h" and "load_target sp h a n k"
    and "off + unat remaining \<le> n"
  shows "zero_fill sp (a + of_nat off) remaining h =
    (Inr (), poke_heap (mp_device (as_mappings sp ! k)) (unat a - mp_from (as_mappings sp ! k) + off) (replicate (unat remaining) 0) h)"
  using assms
proof (induction "unat remaining" arbitrary: off remaining h rule: less_induct)
  case less
  let ?dev = "mp_device (as_mappings sp ! k)" and ?o = "unat a - mp_from (as_mappings sp ! k)"
  show ?case
  proof (cases "remaining = 0")
    case True
    then show ?thesis by (subst zero_fill.simps) simp
  next
    case False
    let ?c = "min remaining 4096"
    have c: "unat ?c \<le> unat remaining" by (simp add: min_def word_le_nat_alt)
    then have rest: "unat (remaining - ?c) = unat remaining - unat ?c" by (simp add: unat_sub word_le_nat_alt)
    let ?h = "poke_heap ?dev (?o + off) (replicate (unat ?c) 0) h"
    have ld: "as_load sp (a + of_nat off) (replicate (unat ?c) 0) h = (Okay, ?h)"
      using less.prems c by (intro as_load_target) auto
    have t: "load_target sp h (a + of_nat off) (unat remaining) k" and ao: "unat (a + of_nat off) - mp_from (as_mappings sp ! k) = ?o + off"
    proof -
      have "k < length (as_mappings sp)" using less.prems(4) by (simp add: load_target_def window_of_def)
      then have "unat a + n < 2 ^ 64" using as_wf_nth(2) [OF assms(1)] less.prems(4) by (fastforce simp: load_target_def)
      then have u: "unat (a + of_nat off) = unat a + off" using less.prems(5)
        by (subst unat_plus_exact) (simp_all add: unat_of_nat_exact)
      have "0 < unat remaining" using False by (simp add: unat_gt_0)
      then show "load_target sp h (a + of_nat off) (unat remaining) k" "unat (a + of_nat off) - mp_from (as_mappings sp ! k) = ?o + off"
        using less.prems(4,5) by (auto simp: load_target_def window_of_def u)
    qed
    have keep: "heap_wf ?h" "devices_ok sp ?h" "load_target sp ?h a n k"
      using poke_heap_wf [OF less.prems(2,3) t, of "replicate (unat ?c) 0"] load_target_poke [OF less.prems(3,4) t, of "replicate (unat ?c) 0"] c
      by (simp_all add: ao)
    have "zero_fill sp (a + of_nat (off + unat ?c)) (remaining - ?c) ?h =
        (Inr (), poke_heap ?dev (?o + (off + unat ?c)) (replicate (unat (remaining - ?c)) 0) ?h)"
      using less.prems(5) c by (intro less.hyps [OF zero_fill_decreases [OF False] less.prems(1) keep]) (simp add: rest)
    moreover have "poke_heap ?dev (?o + (off + unat ?c)) (replicate (unat (remaining - ?c)) 0) ?h =
        poke_heap ?dev (?o + off) (replicate (unat remaining) 0) h"
      using poke_heap_append [OF less.prems(3) t, of "replicate (unat ?c) 0" "replicate (unat (remaining - ?c)) 0"] c
      by (simp add: ao rest add.assoc flip: replicate_add)
    ultimately show ?thesis
      using False by (subst zero_fill.simps) (simp add: ld Let_def response_is_success_def add.assoc)
  qed
qed

text \<open>The bytes a chunk stands for, and where they go.\<close>

definition segment_bytes :: "chunk \<Rightarrow> u8 list" where
  "segment_bytes c = ck_data c @ replicate (unat (es_memory_size (ck_segment c)) - unat (es_file_size (ck_segment c))) 0"

definition chunk_wf :: "chunk \<Rightarrow> bool" where
  "chunk_wf c \<longleftrightarrow> length (ck_data c) = unat (es_file_size (ck_segment c)) \<and>
     unat (es_file_size (ck_segment c)) \<le> unat (es_memory_size (ck_segment c))"

definition chunk_dev :: "address_space \<Rightarrow> chunk \<Rightarrow> nat" where
  "chunk_dev sp c = mp_device (chunk_mapping sp (ck_segment c))"

definition chunk_off :: "address_space \<Rightarrow> chunk \<Rightarrow> nat" where
  "chunk_off sp c = unat (es_load_address (ck_segment c)) - mp_from (chunk_mapping sp (ck_segment c))"

definition place :: "address_space \<Rightarrow> chunk \<Rightarrow> heap \<Rightarrow> heap" where
  "place sp c h = poke_heap (chunk_dev sp c) (chunk_off sp c) (segment_bytes c) h"

definition chunk_ok :: "address_space \<Rightarrow> heap \<Rightarrow> chunk \<Rightarrow> bool" where
  "chunk_ok sp h c \<longleftrightarrow> chunk_wf c \<and> 0 < unat (es_memory_size (ck_segment c)) \<and>
     (\<exists>k. load_target sp h (es_load_address (ck_segment c)) (unat (es_memory_size (ck_segment c))) k)"

lemma segment_bytes_length: "chunk_wf c \<Longrightarrow> length (segment_bytes c) = unat (es_memory_size (ck_segment c))"
  by (simp add: segment_bytes_def chunk_wf_def)

text \<open>An accepted chunk resolves to the window it was validated for.\<close>

lemma chunk_okE:
  assumes "as_wf sp" and "chunk_ok sp h c"
  obtains k where "load_target sp h (es_load_address (ck_segment c)) (unat (es_memory_size (ck_segment c))) k"
    "chunk_mapping sp (ck_segment c) = as_mappings sp ! k"
proof -
  obtain k where k: "load_target sp h (es_load_address (ck_segment c)) (unat (es_memory_size (ck_segment c))) k"
    using assms(2) by (auto simp: chunk_ok_def)
  then have "as_resolve sp (es_load_address (ck_segment c)) (es_memory_size (ck_segment c)) = Some k"
    using assms(2) by (simp add: as_resolve_iff [OF assms(1)] load_target_def chunk_ok_def)
  then show ?thesis using k that by (simp add: chunk_mapping_def)
qed

lemma chunk_ok_fits:
  assumes "as_wf sp" and "devices_ok sp h" and "chunk_ok sp h c"
  shows "chunk_dev sp c < length h" and "dev_loadable (h ! chunk_dev sp c)"
    and "chunk_off sp c + unat (es_memory_size (ck_segment c)) \<le> length (storage (h ! chunk_dev sp c))"
    and "chunk_off sp c + length (segment_bytes c) \<le> length (storage (h ! chunk_dev sp c))"
proof -
  obtain k where t: "load_target sp h (es_load_address (ck_segment c)) (unat (es_memory_size (ck_segment c))) k"
    and m: "chunk_mapping sp (ck_segment c) = as_mappings sp ! k"
    by (rule chunk_okE [OF assms(1,3)])
  show "chunk_dev sp c < length h" using devices_okD [OF assms(2)] t by (auto simp: chunk_dev_def m load_target_def)
  show "dev_loadable (h ! chunk_dev sp c)" using t by (simp add: chunk_dev_def m load_target_def)
  show a: "chunk_off sp c + unat (es_memory_size (ck_segment c)) \<le> length (storage (h ! chunk_dev sp c))"
    using t by (simp add: chunk_dev_def chunk_off_def m load_target_def)
  have "chunk_wf c" using assms(3) by (simp add: chunk_ok_def)
  then show "chunk_off sp c + length (segment_bytes c) \<le> length (storage (h ! chunk_dev sp c))"
    using a by (simp add: segment_bytes_length)
qed

lemma place_keeps:
  assumes "as_wf sp" and "heap_wf h" and "devices_ok sp h" and "chunk_ok sp h c"
  shows "heap_wf (place sp c h)" "devices_ok sp (place sp c h)" "chunk_ok sp h c' \<Longrightarrow> chunk_ok sp (place sp c h) c'"
proof -
  obtain k where t: "load_target sp h (es_load_address (ck_segment c)) (unat (es_memory_size (ck_segment c))) k"
    and m: "chunk_mapping sp (ck_segment c) = as_mappings sp ! k"
    by (rule chunk_okE [OF assms(1,4)])
  have len: "length (segment_bytes c) \<le> unat (es_memory_size (ck_segment c))"
    using assms(4) by (simp add: chunk_ok_def segment_bytes_length)
  show "heap_wf (place sp c h)" "devices_ok sp (place sp c h)"
    using poke_heap_wf [OF assms(2,3) t len] by (simp_all add: place_def chunk_dev_def chunk_off_def m)
  show "chunk_ok sp (place sp c h) c'" if "chunk_ok sp h c'"
    using that load_target_poke [OF assms(3) _ t len] by (auto simp: chunk_ok_def place_def chunk_dev_def chunk_off_def m)
qed

lemma apply_segment_places:
  assumes "as_wf sp" and "heap_wf h" and "devices_ok sp h" and "chunk_ok sp h c"
  shows "apply_segment (ck_data c) (default_parsed_segment\<lparr>pg_public_segment := ck_segment c\<rparr>) sp h = (Inr (), place sp c h)"
proof -
  let ?s = "ck_segment c"
  let ?a = "es_load_address ?s" and ?f = "unat (es_file_size ?s)" and ?n = "unat (es_memory_size ?s)"
  obtain k where t: "load_target sp h ?a ?n k" and m: "chunk_mapping sp ?s = as_mappings sp ! k"
    by (rule chunk_okE [OF assms(1,4)])
  have wf: "length (ck_data c) = ?f" "?f \<le> ?n" using assms(4) by (simp_all add: chunk_ok_def chunk_wf_def)
  let ?h = "poke_heap (chunk_dev sp c) (chunk_off sp c) (ck_data c) h"
  have data: "subspan (ck_data c) 0 (es_file_size ?s) = ck_data c" using wf by (simp add: subspan_def)
  have first: "as_load sp ?a (ck_data c) h = (Okay, ?h)"
    using as_load_target [OF assms(1-3) t, of 0 "ck_data c"] wf by (simp add: chunk_dev_def chunk_off_def m)
  have keep: "heap_wf ?h" "devices_ok sp ?h" "load_target sp ?h ?a ?n k"
    using poke_heap_wf [OF assms(2,3) t] load_target_poke [OF assms(3) t t] wf by (simp_all add: chunk_dev_def chunk_off_def m)
  have bss: "unat (es_memory_size ?s - es_file_size ?s) = ?n - ?f" using wf by (simp add: unat_sub word_le_nat_alt)
  have "zero_fill sp (?a + of_nat ?f) (es_memory_size ?s - es_file_size ?s) ?h =
      (Inr (), poke_heap (chunk_dev sp c) (chunk_off sp c + ?f) (replicate (?n - ?f) 0) ?h)"
    using zero_fill_pokes [OF assms(1) keep, of ?f "es_memory_size ?s - es_file_size ?s"] wf
    by (simp add: bss chunk_dev_def chunk_off_def m)
  moreover have "poke_heap (chunk_dev sp c) (chunk_off sp c + ?f) (replicate (?n - ?f) 0) ?h = place sp c h"
    using poke_heap_append [OF assms(3) t, of "ck_data c" "replicate (?n - ?f) 0"] wf
    by (simp add: place_def segment_bytes_def chunk_dev_def chunk_off_def m)
  moreover have "?h = h" if "es_file_size ?s = 0" using wf(1) that by simp
  ultimately show ?thesis
    using first by (auto simp: apply_segment_def Let_def default_parsed_segment_def exec_defs data response_is_success_def)
qed

section \<open>Applying a plan\<close>

lemma foreach_places:
  assumes "as_wf sp" and "heap_wf h" and "devices_ok sp h" and "\<forall>c\<in>set chunks. chunk_ok sp h c"
  shows "foreach_exec chunks (\<lambda>chunk.
      apply_segment (ck_data chunk) (default_parsed_segment\<lparr>pg_public_segment := ck_segment chunk\<rparr>) sp) h =
    (Inr (), fold (place sp) chunks h)"
  using assms(2-4)
proof (induction chunks arbitrary: h)
  case Nil
  then show ?case by (simp add: exec_defs)
next
  case (Cons c chunks)
  note k = place_keeps [OF assms(1) Cons.prems(1,2)]
  have "chunk_ok sp h c" using Cons.prems(3) by simp
  then show ?case
    using Cons.IH [OF k(1,2)] k(3) Cons.prems(3) apply_segment_places [OF assms(1) Cons.prems(1,2)]
    by (simp add: exec_defs)
qed

text \<open>Chunks are disjoint when no two of them share a byte of a device, whatever the windows they were addressed through.\<close>

definition chunks_disjoint :: "address_space \<Rightarrow> chunk \<Rightarrow> chunk \<Rightarrow> bool" where
  "chunks_disjoint sp c c' \<longleftrightarrow> chunk_dev sp c \<noteq> chunk_dev sp c' \<or>
     chunk_off sp c + unat (es_memory_size (ck_segment c)) \<le> chunk_off sp c' \<or>
     chunk_off sp c' + unat (es_memory_size (ck_segment c')) \<le> chunk_off sp c"

lemma chunk_off_word:
  assumes "as_wf sp" and "chunk_ok sp h c"
  shows "unat (es_load_address (ck_segment c) - mp_base (chunk_mapping sp (ck_segment c))) = chunk_off sp c"
    and "unat (es_load_address (ck_segment c) - mp_base (chunk_mapping sp (ck_segment c)) + es_memory_size (ck_segment c)) =
      chunk_off sp c + unat (es_memory_size (ck_segment c))"
proof -
  obtain k where t: "load_target sp h (es_load_address (ck_segment c)) (unat (es_memory_size (ck_segment c))) k"
    and m: "chunk_mapping sp (ck_segment c) = as_mappings sp ! k"
    by (rule chunk_okE [OF assms])
  then have w: "window_of sp (unat (es_load_address (ck_segment c))) k" by (simp add: load_target_def)
  show o: "unat (es_load_address (ck_segment c) - mp_base (chunk_mapping sp (ck_segment c))) = chunk_off sp c"
    using window_offset [OF w] by (simp add: chunk_off_def m)
  have "mp_to (as_mappings sp ! k) < 2 ^ 64" using w as_wf_nth(2) [OF assms(1)] by (simp add: window_of_def)
  then have "chunk_off sp c + unat (es_memory_size (ck_segment c)) < 2 ^ 64"
    using t by (auto simp: load_target_def chunk_off_def m)
  then show "unat (es_load_address (ck_segment c) - mp_base (chunk_mapping sp (ck_segment c)) + es_memory_size (ck_segment c)) =
      chunk_off sp c + unat (es_memory_size (ck_segment c))"
    by (subst unat_plus_exact) (simp_all add: o)
qed

lemma check_chunk_pair_iff:
  assumes "as_wf sp" and "chunk_ok sp h c" and "chunk_ok sp h c'"
  shows "check_chunk_pair sp (ck_segment c) (ck_segment c') = Inr () \<longleftrightarrow> chunks_disjoint sp c c'"
  using chunk_off_word [OF assms(1,2)] chunk_off_word [OF assms(1,3)]
  by (auto simp: check_chunk_pair_def chunks_disjoint_def chunk_dev_def Let_def word_less_nat_alt not_less)

lemma validate_plan_iff:
  assumes "as_wf sp" and "heap_wf h" and "devices_ok sp h" and "list_all chunk_wf chunks"
  shows "validate_plan sp h chunks = Inr () \<longleftrightarrow>
    (\<forall>c\<in>set chunks. chunk_ok sp h c) \<and> (\<forall>i<length chunks. \<forall>j<i. chunks_disjoint sp (chunks ! i) (chunks ! j))"
proof -
  have ok: "validate_load_target sp h (ck_segment (chunks ! i)) i = Inr () \<longleftrightarrow> chunk_ok sp h (chunks ! i)" if "i < length chunks" for i
    using validate_load_target_iff [OF assms(1-3)] assms(4) that by (auto simp: chunk_ok_def list_all_length)
  have "validate_plan sp h chunks = Inr () \<longleftrightarrow> (\<forall>i<length chunks. chunk_ok sp h (chunks ! i) \<and>
      (\<forall>j<i. check_chunk_pair sp (ck_segment (chunks ! i)) (ck_segment (chunks ! j)) = Inr ()))"
    unfolding validate_plan_def result_all_Inr_iff result_bind_Inr_iff set_upt using ok by auto
  also have "\<dots> \<longleftrightarrow> (\<forall>i<length chunks. chunk_ok sp h (chunks ! i)) \<and>
      (\<forall>i<length chunks. \<forall>j<i. chunks_disjoint sp (chunks ! i) (chunks ! j))"
  proof (cases "\<forall>i<length chunks. chunk_ok sp h (chunks ! i)")
    case True
    then have "check_chunk_pair sp (ck_segment (chunks ! i)) (ck_segment (chunks ! j)) = Inr () \<longleftrightarrow>
        chunks_disjoint sp (chunks ! i) (chunks ! j)" if "i < length chunks" "j < i" for i j
      using that by (intro check_chunk_pair_iff [OF assms(1), of h]) auto
    then show ?thesis using True by simp
  qed auto
  finally show ?thesis by (simp add: all_set_conv_all_nth)
qed

lemma validate_plan_error: "validate_plan sp h chunks = Inl e \<Longrightarrow> \<exists>m. e = ElfError m"
  unfolding validate_plan_def
  by (drule result_all_Inl) (auto simp: result_bind_Inl_iff check_chunk_pair_def Let_def
      dest!: result_all_Inl validate_load_target_error)

text \<open>Applying a plan is its validation followed by stores that cannot fail.\<close>

lemma apply_plan_eq:
  assumes "as_wf sp" and "heap_wf h" and "devices_ok sp h" and "list_all chunk_wf chunks"
  shows "apply_plan sp chunks h =
    (case validate_plan sp h chunks of Inl e \<Rightarrow> (Inl e, h) | Inr _ \<Rightarrow> (Inr (), fold (place sp) chunks h))"
  using foreach_places [OF assms(1-3), of chunks] validate_plan_iff [OF assms]
  by (auto simp: apply_plan_def exec_defs split: sum.splits)

section \<open>What is stored\<close>

definition covers :: "address_space \<Rightarrow> chunk \<Rightarrow> nat \<Rightarrow> nat \<Rightarrow> bool" where
  "covers sp c d x \<longleftrightarrow> chunk_dev sp c = d \<and> chunk_off sp c \<le> x \<and> x < chunk_off sp c + unat (es_memory_size (ck_segment c))"

lemma place_nth:
  assumes "as_wf sp" and "devices_ok sp h" and "chunk_ok sp h c" and "d < length h"
  shows "length (storage (place sp c h ! d)) = length (storage (h ! d))"
    and "dev_loadable (place sp c h ! d) = dev_loadable (h ! d)"
    and "\<not> dev_loadable (h ! d) \<Longrightarrow> place sp c h ! d = h ! d"
    and "x < length (storage (h ! d)) \<Longrightarrow> storage (place sp c h ! d) ! x =
      (if covers sp c d x then segment_bytes c ! (x - chunk_off sp c) else storage (h ! d) ! x)"
proof -
  note f = chunk_ok_fits [OF assms(1-3)]
  have len: "length (segment_bytes c) = unat (es_memory_size (ck_segment c))"
    using assms(3) by (simp add: chunk_ok_def segment_bytes_length)
  show "length (storage (place sp c h ! d)) = length (storage (h ! d))"
    and "dev_loadable (place sp c h ! d) = dev_loadable (h ! d)"
    and "\<not> dev_loadable (h ! d) \<Longrightarrow> place sp c h ! d = h ! d"
    and "x < length (storage (h ! d)) \<Longrightarrow> storage (place sp c h ! d) ! x =
      (if covers sp c d x then segment_bytes c ! (x - chunk_off sp c) else storage (h ! d) ! x)"
    using f assms(4) by (auto simp: place_def poke_heap_nth ld.length_bytes_poke ld.loadable_poke ld.bytes_poke_nth covers_def len)
qed

lemma fold_place_frame:
  assumes "as_wf sp" and "heap_wf h" and "devices_ok sp h" and "\<forall>c\<in>set chunks. chunk_ok sp h c" and "d < length h"
  defines "h' \<equiv> fold (place sp) chunks h"
  shows "length (storage (h' ! d)) = length (storage (h ! d)) \<and> dev_loadable (h' ! d) = dev_loadable (h ! d) \<and>
    length h' = length h \<and> heap_wf h' \<and> devices_ok sp h' \<and> (\<forall>c. chunk_ok sp h c \<longrightarrow> chunk_ok sp h' c) \<and>
    (\<not> dev_loadable (h ! d) \<longrightarrow> h' ! d = h ! d) \<and>
    (x < length (storage (h ! d)) \<longrightarrow> (\<forall>c\<in>set chunks. \<not> covers sp c d x) \<longrightarrow> storage (h' ! d) ! x = storage (h ! d) ! x)"
  using assms(2-5) unfolding h'_def
proof (induction chunks arbitrary: h)
  case Nil
  then show ?case by simp
next
  case (Cons c chunks)
  have c: "chunk_ok sp h c" using Cons.prems(3) by simp
  note k = place_keeps [OF assms(1) Cons.prems(1,2) c]
  note n = place_nth [OF assms(1) Cons.prems(2) c Cons.prems(4)]
  have len: "length (place sp c h) = length h" by (simp add: place_def)
  have ih: "\<forall>c'\<in>set chunks. chunk_ok sp (place sp c h) c'" "d < length (place sp c h)"
    using Cons.prems(3,4) k(3) len by simp_all
  note r = Cons.IH [OF k(1,2) ih]
  show ?case using r n k(3) len by (simp add: n(1,2))
qed

lemma poke_device_kind: "same_kind d (poke_device start data d)"
  by (cases d) (simp_all add: same_kind_def)

lemma fold_place_step:
  assumes "as_wf sp" and "heap_wf h" and "devices_ok sp h" and "\<forall>c\<in>set chunks. chunk_ok sp h c"
  shows "heap_step h (fold (place sp) chunks h)"
  using assms(2-4)
proof (induction chunks arbitrary: h)
  case (Cons c chunks)
  have c: "chunk_ok sp h c" using Cons.prems(3) by simp
  note k = place_keeps [OF assms(1) Cons.prems(1,2) c]
  have "heap_step h (place sp c h)"
    using k(1) poke_device_kind by (auto simp: heap_step_def place_def poke_heap_nth)
  moreover have "heap_step (place sp c h) (fold (place sp) chunks (place sp c h))"
    using Cons.prems(3) k(3) by (intro Cons.IH [OF k(1,2)]) simp
  ultimately show ?case by (auto intro: heap_step_trans)
qed simp

lemma fold_place_stored:
  assumes "as_wf sp" and "heap_wf h" and "devices_ok sp h" and "\<forall>c\<in>set chunks. chunk_ok sp h c"
    and "\<forall>i<length chunks. \<forall>j<i. chunks_disjoint sp (chunks ! i) (chunks ! j)"
    and "c \<in> set chunks" and "i < unat (es_memory_size (ck_segment c))"
  shows "storage (fold (place sp) chunks h ! chunk_dev sp c) ! (chunk_off sp c + i) = segment_bytes c ! i"
proof -
  obtain n where n: "n < length chunks" "chunks ! n = c" using assms(6) by (auto simp: in_set_conv_nth)
  let ?xs = "take n chunks" and ?ys = "drop (Suc n) chunks" and ?d = "chunk_dev sp c" and ?x = "chunk_off sp c + i"
  have sp: "chunks = ?xs @ c # ?ys" using n id_take_nth_drop by blast
  have c: "chunk_ok sp h c" using assms(4,6) by blast
  have d: "?d < length h" and x: "?x < length (storage (h ! ?d))"
    using chunk_ok_fits(1,3) [OF assms(1,3) c] assms(7) by simp_all
  let ?h1 = "fold (place sp) ?xs h"
  have "\<forall>c\<in>set ?xs. chunk_ok sp h c" using assms(4) by (meson in_set_takeD)
  note p = fold_place_frame [OF assms(1-3) this d]
  have c1: "chunk_ok sp ?h1 c" and k1: "heap_wf ?h1" "devices_ok sp ?h1" and d1: "?d < length ?h1" using p c d by auto
  let ?h2 = "place sp c ?h1"
  note k2 = place_keeps [OF assms(1) k1 c1]
  have s2: "storage (?h2 ! ?d) ! ?x = segment_bytes c ! i"
    using place_nth(4) [OF assms(1) k1(2) c1 d1, of ?x] p x assms(7) by (simp add: covers_def)
  have ok2: "\<forall>c'\<in>set ?ys. chunk_ok sp ?h2 c'" using p k2(3) assms(4) by (meson in_set_dropD)
  have "\<not> covers sp c' ?d ?x" if ys: "c' \<in> set ?ys" for c'
  proof -
    obtain m where "m < length ?ys" "?ys ! m = c'" using ys unfolding in_set_conv_nth by blast
    then have "chunks_disjoint sp c' c" using assms(5) n by force
    then show ?thesis using assms(7) by (auto simp: covers_def chunks_disjoint_def)
  qed
  moreover have "?d < length ?h2" "?x < length (storage (?h2 ! ?d))"
    using d1 x p place_nth(1) [OF assms(1) k1(2) c1 d1] by (simp_all add: place_def)
  ultimately have "storage (fold (place sp) ?ys ?h2 ! ?d) ! ?x = storage (?h2 ! ?d) ! ?x"
    using fold_place_frame [OF assms(1) k2(1,2) ok2, of ?d ?x] by blast
  moreover have "fold (place sp) chunks h = fold (place sp) ?ys ?h2" by (subst sp) simp
  ultimately show ?thesis using s2 by simp
qed

end
