(* ===== verification/Elf_Images.thy ===== *)
theory Elf_Images
  imports Image_Load
begin

text \<open>
  Properties of the image loader as a whole: the checks of the parser in terms of natural numbers, the exactness of
  the overlap check, what \<^verbatim>\<open>load_elf\<close> and \<^verbatim>\<open>load_raw_image\<close> store, and the round trip of the header format.
\<close>

section \<open>The loader throws only \<^verbatim>\<open>ElfError\<close>\<close>

definition elf_only :: "'a result \<Rightarrow> bool" where
  "elf_only r \<longleftrightarrow> (\<forall>e. r = Inl e \<longrightarrow> (\<exists>m. e = ElfError m))"

named_theorems elf_only_intros \<open>introduction rules for \<open>elf_only\<close>\<close>

lemma elf_only_basic [elf_only_intros]:
  "elf_only (Inr x)" "elf_only (Inl (ElfError m))" "elf_only (throw_if b (ElfError m))"
  "elf_only (require_range offset len capacity description)" "elf_only (checked_add l r description)"
  "elf_only (checked_multiply l r description)" "elf_only (validate_load_target space h segment i)"
  using validate_load_target_error
  by (auto simp: elf_only_def require_range_def checked_add_def checked_multiply_def split: if_splits)

lemma elf_only_bind [elf_only_intros]:
  "elf_only r \<Longrightarrow> (\<And>x. r = Inr x \<Longrightarrow> elf_only (f x)) \<Longrightarrow> elf_only (result_bind r f)"
  by (auto simp: elf_only_def result_bind_Inl_iff)

lemma elf_only_if [elf_only_intros]: "elf_only r \<Longrightarrow> elf_only r' \<Longrightarrow> elf_only (if b then r else r')"
  by simp

lemma elf_only_read [elf_only_intros]: "elf_only (read_little_endian img offset description)"
  unfolding read_little_endian_def Let_def by (intro elf_only_intros)

lemma elf_only_read_class [elf_only_intros]: "elf_only (read_class b img o64 o32 description)"
  unfolding read_class_def by (intro elf_only_intros)

lemma elf_only_read_word32 [elf_only_intros]: "elf_only (read_word32 img offset description)"
  unfolding read_word32_def by (intro elf_only_intros)

lemma elf_only_parse_header: "elf_only (parse_header img)"
  unfolding parse_header_def parse_identification_def Let_def by (intro elf_only_intros)

lemma elf_only_parse_program_header: "elf_only (parse_program_header img header i space h)"
  unfolding parse_program_header_def parse_fields_64_def parse_fields_32_def validate_segment_def Let_def
  by (intro elf_only_intros)

lemma elf_only_fold [elf_only_intros]:
  "(\<And>x a. elf_only (f x a)) \<Longrightarrow> elf_only (result_fold f xs a)"
  by (induction xs arbitrary: a) (auto intro: elf_only_intros)

lemma elf_only_all [elf_only_intros]: "(\<And>x. elf_only (f x)) \<Longrightarrow> elf_only (result_all f xs)"
  by (induction xs) (auto intro: elf_only_intros)

lemma elf_only_add_elf: "elf_only (add_elf img space h chunks)"
  unfolding add_elf_def parse_load_segments_def validate_no_overlap_def validate_order_def Let_def
  by (intro elf_only_intros elf_only_parse_header elf_only_parse_program_header)

lemma elf_only_add_raw: "elf_only (add_raw img address space h chunks)"
  unfolding add_raw_def Let_def by (intro elf_only_intros)

section \<open>Validated segments\<close>

lemma require_range_iff:
  assumes "cap < 2 ^ 64"
  shows "require_range offset len (of_nat cap) description = Inr u \<longleftrightarrow> unat offset + unat len \<le> cap"
proof -
  have c: "unat (of_nat cap :: u64) = cap" using assms by (simp add: unat_of_nat_exact)
  have "len > of_nat cap - offset \<longleftrightarrow> cap - unat offset < unat len" if "unat offset \<le> cap"
    using that by (simp add: word_less_nat_alt unat_sub word_le_nat_alt c)
  then show ?thesis by (auto simp: require_range_def word_less_nat_alt c not_less)
qed

lemma max_u64: "unat (0xFFFFFFFFFFFFFFFF - l :: u64) = 2 ^ 64 - 1 - unat l"
proof -
  have m: "unat (0xFFFFFFFFFFFFFFFF :: u64) = 2 ^ 64 - 1" by simp
  have "l \<le> (0xFFFFFFFFFFFFFFFF :: u64)" unfolding word_le_nat_alt m using unat_u64_less [of l] by linarith
  from unat_sub [OF this] show ?thesis unfolding m .
qed

lemma checked_add_iff: "checked_add l r description = Inr v \<longleftrightarrow> unat l + unat r < 2 ^ 64 \<and> v = l + r"
proof -
  have "r > 0xFFFFFFFFFFFFFFFF - l \<longleftrightarrow> \<not> unat l + unat r < 2 ^ 64"
    unfolding word_less_nat_alt max_u64 using unat_u64_less [of l] by linarith
  then show ?thesis by (auto simp: checked_add_def)
qed

text \<open>What \<^verbatim>\<open>parse_program_header\<close> has established about a segment it returns.\<close>

definition segment_valid :: "u8 list \<Rightarrow> address_space \<Rightarrow> heap \<Rightarrow> parsed_segment \<Rightarrow> bool" where
  "segment_valid img sp h s \<longleftrightarrow>
     (let info = pg_public_segment s
      in unat (es_file_size info) \<le> unat (es_memory_size info) \<and>
         unat (pg_file_offset s) + unat (es_file_size info) \<le> length img \<and>
         0 < unat (es_memory_size info) \<and> unat (es_load_address info) + unat (es_memory_size info) < 2 ^ 64 \<and>
         es_load_address info = (if es_physical_address info \<noteq> 0 then es_physical_address info else es_virtual_address info) \<and>
         (\<exists>k. load_target sp h (es_load_address info) (unat (es_memory_size info)) k))"

lemma validate_segment_valid:
  assumes "as_wf sp" and "heap_wf h" and "devices_ok sp h" and "length img < 2 ^ 64"
    and "validate_segment img sp h i p = Inr (Some s)"
  shows "segment_valid img sp h s \<and> pg_program_header_index s = pg_program_header_index p"
proof -
  have "\<not> es_file_size (pg_public_segment p) > es_memory_size (pg_public_segment p)"
    and "require_range (pg_file_offset p) (es_file_size (pg_public_segment p)) (of_nat (length img)) ''loadable segment data'' = Inr ()"
    and ca: "\<exists>v. checked_add (es_load_address (pg_public_segment s)) (es_memory_size (pg_public_segment p)) ''loadable segment address range'' = Inr v"
    and vt: "validate_load_target sp h (pg_public_segment s) i = Inr ()"
    and s: "s = p\<lparr>pg_public_segment := (pg_public_segment p)\<lparr>es_load_address :=
        (if es_physical_address (pg_public_segment p) \<noteq> 0 then es_physical_address (pg_public_segment p)
         else es_virtual_address (pg_public_segment p))\<rparr>\<rparr>"
    using assms(5) unfolding validate_segment_def Let_def by (auto split: if_splits)
  then show ?thesis
    using vt [unfolded validate_load_target_iff [OF assms(1-3)]] ca [unfolded checked_add_iff]
    by (auto simp: segment_valid_def Let_def require_range_iff [OF assms(4)] word_less_nat_alt not_less)
qed

lemma parse_fields_index:
  "parse_fields_64 img offset i = Inr p \<Longrightarrow> pg_program_header_index p = i"
  "parse_fields_32 img offset i = Inr p \<Longrightarrow> pg_program_header_index p = i"
  by (auto simp: parse_fields_64_def parse_fields_32_def)

lemma parse_program_header_valid:
  assumes "as_wf sp" and "heap_wf h" and "devices_ok sp h" and "length img < 2 ^ 64"
    and "parse_program_header img header i sp h = Inr (Some s)"
  shows "segment_valid img sp h s \<and> pg_program_header_index s = i"
proof -
  obtain p where "validate_segment img sp h i p = Inr (Some s)" "pg_program_header_index p = i"
    using assms(5) parse_fields_index by (auto simp: parse_program_header_def split: if_splits)
  then show ?thesis using validate_segment_valid [OF assms(1-4)] by blast
qed

lemma parse_load_segments_valid:
  assumes "as_wf sp" and "heap_wf h" and "devices_ok sp h" and "length img < 2 ^ 64"
    and "parse_load_segments img header sp h = Inr segments"
  shows "\<forall>s\<in>set segments. segment_valid img sp h s"
  using assms(5) unfolding parse_load_segments_def
  by (rule result_fold_Inr) (auto dest!: parse_program_header_valid [OF assms(1-4)] split: option.splits)

section \<open>The overlap check\<close>

definition segment_from :: "parsed_segment \<Rightarrow> nat" where
  "segment_from s = unat (es_load_address (pg_public_segment s))"

definition segment_to :: "parsed_segment \<Rightarrow> nat" where
  "segment_to s = segment_from s + unat (es_memory_size (pg_public_segment s))"

definition segment_proper :: "parsed_segment \<Rightarrow> bool" where
  "segment_proper s \<longleftrightarrow> segment_from s < segment_to s \<and> segment_to s < 2 ^ 64"

text \<open>Comparing neighbours of a sorted order is comparing all pairs, for any order the sort may produce.\<close>

lemma adjacent_disjoint:
  assumes "\<forall>i. Suc i < n \<longrightarrow> (e i :: nat) \<le> b (Suc i)" and "\<forall>i<n. b i < e i" and "i < j" and "j < n"
  shows "e i \<le> b j"
  using assms(3,4)
proof (induction j)
  case (Suc j)
  then show ?case
  proof (cases "i = j")
    case False
    then have "e i \<le> b j" using Suc by simp
    also have "\<dots> \<le> e j" using assms(2) Suc.prems by (simp add: less_imp_le)
    also have "\<dots> \<le> b (Suc j)" using assms(1) Suc.prems by simp
    finally show ?thesis .
  qed (use assms(1) Suc.prems in simp)
qed simp

lemma validate_order_iff:
  assumes "\<forall>s\<in>set segments. segment_proper s" and "distinct order" and "set order = {0..<length segments}"
    and "sorted (map (\<lambda>i. segment_from (segments ! i)) order)"
  shows "validate_order segments order = Inr () \<longleftrightarrow>
    (\<forall>i<length segments. \<forall>j<length segments. i \<noteq> j \<longrightarrow>
       segment_to (segments ! i) \<le> segment_from (segments ! j) \<or> segment_to (segments ! j) \<le> segment_from (segments ! i))"
proof -
  let ?s = "\<lambda>i. segments ! (order ! i)" and ?n = "length segments"
  note dist = assms(2) and set = assms(3)
  have len: "length order = ?n" using distinct_card [OF dist] set by simp
  have lt: "order ! i < ?n" if "i < ?n" for i using that set len nth_mem by fastforce
  have proper: "segment_proper (?s i)" if "i < ?n" for i using assms(1) lt [OF that] by simp
  have wide: "unat (es_load_address (pg_public_segment (?s i)) + es_memory_size (pg_public_segment (?s i))) = segment_to (?s i)"
    if "i < ?n" for i
    using proper [OF that] by (subst unat_plus_exact) (simp_all add: segment_proper_def segment_to_def segment_from_def)
  have "validate_order segments order = Inr () \<longleftrightarrow> (\<forall>i\<in>{1..<?n}. segment_to (?s (i - 1)) \<le> segment_from (?s i))"
    unfolding validate_order_def result_all_Inr_iff set_upt len
  proof (rule ball_cong [OF refl])
    fix i
    assume "i \<in> {1..<?n}"
    then have "i - 1 < ?n" by auto
    from wide [OF this] show "(let previous = pg_public_segment (segments ! (order ! (i - 1))); current = segments ! (order ! i)
        in throw_if (es_load_address previous + es_memory_size previous > es_load_address (pg_public_segment current))
             (ElfError (''PT_LOAD['' @ show_dec (pg_program_header_index current) @ ''] overlaps another loadable segment''))) = Inr () \<longleftrightarrow>
      segment_to (?s (i - 1)) \<le> segment_from (?s i)"
      by (simp add: Let_def word_less_nat_alt not_less segment_from_def)
  qed
  also have "\<dots> \<longleftrightarrow> (\<forall>i. Suc i < ?n \<longrightarrow> segment_to (?s i) \<le> segment_from (?s (Suc i)))"
    by (metis One_nat_def Suc_pred atLeastLessThan_iff diff_Suc_1 less_eq_Suc_le zero_less_Suc)
  also have "\<dots> \<longleftrightarrow> (\<forall>i j. i < j \<longrightarrow> j < ?n \<longrightarrow> segment_to (?s i) \<le> segment_from (?s j))"
    using adjacent_disjoint [of ?n "\<lambda>i. segment_to (?s i)" "\<lambda>i. segment_from (?s i)"] proper by (auto simp: segment_proper_def)
  also have "\<dots> \<longleftrightarrow> (\<forall>i<?n. \<forall>j<?n. i \<noteq> j \<longrightarrow> segment_to (?s i) \<le> segment_from (?s j) \<or> segment_to (?s j) \<le> segment_from (?s i))"
  proof (intro iffI allI impI)
    fix i j
    assume h: "\<forall>i<?n. \<forall>j<?n. i \<noteq> j \<longrightarrow> segment_to (?s i) \<le> segment_from (?s j) \<or> segment_to (?s j) \<le> segment_from (?s i)"
      and ij: "i < j" "j < ?n"
    have "segment_from (?s i) \<le> segment_from (?s j)"
      using assms(4) ij len by (auto simp: sorted_iff_nth_mono)
    moreover have "segment_from (?s j) < segment_to (?s j)" using proper [OF ij(2)] by (simp add: segment_proper_def)
    ultimately show "segment_to (?s i) \<le> segment_from (?s j)" using h [rule_format, of i j] ij by linarith
  qed (metis nat_neq_iff)
  also have "\<dots> \<longleftrightarrow> (\<forall>i<?n. \<forall>j<?n. i \<noteq> j \<longrightarrow>
       segment_to (segments ! i) \<le> segment_from (segments ! j) \<or> segment_to (segments ! j) \<le> segment_from (segments ! i))"
  proof (intro iffI allI impI)
    fix i j
    assume h: "\<forall>i<?n. \<forall>j<?n. i \<noteq> j \<longrightarrow> segment_to (?s i) \<le> segment_from (?s j) \<or> segment_to (?s j) \<le> segment_from (?s i)"
      and ij: "i < ?n" "j < ?n" "i \<noteq> j"
    obtain a b where "a < ?n" "order ! a = i" "b < ?n" "order ! b = j"
      using ij set len by (metis atLeastLessThan_iff in_set_conv_nth le0)
    then show "segment_to (segments ! i) \<le> segment_from (segments ! j) \<or> segment_to (segments ! j) \<le> segment_from (segments ! i)"
      using h ij(3) by blast
  qed (metis dist len lt nth_eq_iff_index_eq)
  finally show ?thesis .
qed

lemma intervals_disjoint_iff:
  assumes "a < b" and "c < (d :: nat)"
  shows "{a..<b} \<inter> {c..<d} = {} \<longleftrightarrow> b \<le> c \<or> d \<le> a"
proof
  assume e: "{a..<b} \<inter> {c..<d} = {}"
  have "max a c \<in> {a..<b} \<inter> {c..<d}" if "\<not> (b \<le> c \<or> d \<le> a)" using assms that by auto
  then show "b \<le> c \<or> d \<le> a" using e by blast
qed auto

text \<open>C22: the overlap check is exact. For segments that are not empty and end below \<open>2\<^sup>6\<^sup>4\<close>, which every parsed segment
  is, sorting by load address and comparing only neighbours accepts exactly the lists in which no two segments
  share an address.\<close>

theorem validate_no_overlap_exact:
  assumes "\<forall>s\<in>set segments. segment_proper s"
  shows "validate_no_overlap segments = Inr () \<longleftrightarrow>
    (\<forall>i<length segments. \<forall>j<length segments. i \<noteq> j \<longrightarrow>
       {segment_from (segments ! i)..<segment_to (segments ! i)} \<inter> {segment_from (segments ! j)..<segment_to (segments ! j)} = {})"
proof -
  let ?key = "\<lambda>i. es_load_address (pg_public_segment (segments ! i))"
  let ?o = "sort_key ?key [0..<length segments]"
  have "sorted (map ?key ?o)" by simp
  then have "sorted (map (\<lambda>i. segment_from (segments ! i)) ?o)"
    by (simp add: sorted_wrt_map segment_from_def word_le_nat_alt)
  then have "validate_no_overlap segments = Inr () \<longleftrightarrow> (\<forall>i<length segments. \<forall>j<length segments. i \<noteq> j \<longrightarrow>
       segment_to (segments ! i) \<le> segment_from (segments ! j) \<or> segment_to (segments ! j) \<le> segment_from (segments ! i))"
    unfolding validate_no_overlap_def by (intro validate_order_iff [OF assms]) simp_all
  moreover have "{segment_from s..<segment_to s} \<inter> {segment_from t..<segment_to t} = {} \<longleftrightarrow>
      segment_to s \<le> segment_from t \<or> segment_to t \<le> segment_from s" if "s \<in> set segments" "t \<in> set segments" for s t
    using assms that by (intro intervals_disjoint_iff) (auto simp: segment_proper_def)
  ultimately show ?thesis by simp
qed

section \<open>Loading an ELF image\<close>

text \<open>The byte of a device behind a bus address.\<close>

definition bus_cell :: "address_space \<Rightarrow> nat \<Rightarrow> (nat \<times> nat) option" where
  "bus_cell sp a = map_option (\<lambda>m. (mp_device m, a - mp_from m)) (find (\<lambda>m. mp_from m \<le> a \<and> a < mp_to m) (as_mappings sp))"

definition bus_byte :: "address_space \<Rightarrow> heap \<Rightarrow> nat \<Rightarrow> u8 option" where
  "bus_byte sp h a = (case bus_cell sp a of None \<Rightarrow> None
     | Some (d, x) \<Rightarrow> if x < length (storage (h ! d)) then Some (storage (h ! d) ! x) else None)"

lemma bus_cell_window:
  assumes "as_wf sp" and "window_of sp a k"
  shows "bus_cell sp a = Some (mp_device (as_mappings sp ! k), a - mp_from (as_mappings sp ! k))"
proof -
  have "find (\<lambda>m. mp_from m \<le> a \<and> a < mp_to m) (as_mappings sp) = Some (as_mappings sp ! k)"
  proof -
    have "\<not> (mp_from (as_mappings sp ! j) \<le> a \<and> a < mp_to (as_mappings sp ! j))" if "j < k" for j
      using as_wf_order [OF assms(1) that] assms(2) by (auto simp: window_of_def)
    then show ?thesis
      unfolding find_Some_iff using assms(2) by (intro exI [of _ k]) (simp add: window_of_def)
  qed
  then show ?thesis by (simp add: bus_cell_def)
qed

lemma chunk_cell:
  assumes "as_wf sp" and "chunk_ok sp h c" and "i < unat (es_memory_size (ck_segment c))"
  shows "bus_cell sp (unat (es_load_address (ck_segment c)) + i) = Some (chunk_dev sp c, chunk_off sp c + i)"
proof -
  obtain k where t: "load_target sp h (es_load_address (ck_segment c)) (unat (es_memory_size (ck_segment c))) k"
    and m: "chunk_mapping sp (ck_segment c) = as_mappings sp ! k"
    by (rule chunk_okE [OF assms(1,2)])
  have "window_of sp (unat (es_load_address (ck_segment c)) + i) k"
    using t assms(3) by (auto simp: load_target_def window_of_def)
  then show ?thesis
    using t by (simp add: bus_cell_window [OF assms(1)] chunk_dev_def chunk_off_def m load_target_def window_of_def)
qed

definition segment_chunk :: "u8 list \<Rightarrow> parsed_segment \<Rightarrow> chunk" where
  "segment_chunk img s = \<lparr>ck_segment = pg_public_segment s,
     ck_data = subspan img (pg_file_offset s) (es_file_size (pg_public_segment s))\<rparr>"

lemma segment_chunk_ok: "segment_valid img sp h s \<Longrightarrow> chunk_ok sp h (segment_chunk img s)"
  by (auto simp: segment_valid_def chunk_ok_def chunk_wf_def segment_chunk_def subspan_def Let_def)

lemma segment_chunk_bytes:
  assumes "segment_valid img sp h s" and "i < unat (es_memory_size (pg_public_segment s))"
  shows "segment_bytes (segment_chunk img s) ! i =
    (if i < unat (es_file_size (pg_public_segment s)) then img ! (unat (pg_file_offset s) + i) else 0)"
  using assms by (auto simp: segment_bytes_def segment_chunk_def subspan_def nth_append segment_valid_def Let_def)

lemma load_elf_eq:
  assumes "as_wf sp" and "heap_wf h" and "devices_ok sp h" and "length img < 2 ^ 64"
  shows "load_elf img sp h = (case add_elf img sp h [] of Inl e \<Rightarrow> (Inl e, h)
    | Inr (res, plan) \<Rightarrow> (case validate_plan sp h plan of Inl e \<Rightarrow> (Inl e, h) | Inr _ \<Rightarrow> (Inr res, fold (place sp) plan h)))"
proof (cases "add_elf img sp h []")
  case (Inr r)
  obtain res plan where r: "r = (res, plan)" by fastforce
  then obtain header segments where "parse_load_segments img header sp h = Inr segments" "plan = map (segment_chunk img) segments"
    using Inr by (auto simp: add_elf_def Let_def segment_chunk_def)
  then have "list_all chunk_wf plan"
    using parse_load_segments_valid [OF assms, of header segments] segment_chunk_ok by (auto simp: list_all_iff chunk_ok_def)
  then show ?thesis
    using apply_plan_eq [OF assms(1-3)] Inr r by (auto simp: load_elf_def exec_defs split: sum.splits)
qed (simp add: load_elf_def exec_defs)

lemma segments_stored:
  assumes "as_wf sp" and "heap_wf h" and "devices_ok sp h" and "\<forall>s\<in>set segs. segment_valid img sp h s"
    and "validate_plan sp h (map (segment_chunk img) segs) = Inr ()"
    and "s \<in> set segs" and "i < unat (es_memory_size (pg_public_segment s))"
  shows "bus_byte sp (fold (place sp) (map (segment_chunk img) segs) h) (segment_from s + i) =
    Some (if i < unat (es_file_size (pg_public_segment s)) then img ! (unat (pg_file_offset s) + i) else 0)"
proof -
  let ?plan = "map (segment_chunk img) segs" and ?c = "segment_chunk img s"
  let ?h = "fold (place sp) ?plan h"
  have ok: "\<forall>c\<in>set ?plan. chunk_ok sp h c" using assms(4) segment_chunk_ok by auto
  then have wf: "list_all chunk_wf ?plan" by (simp add: list_all_iff chunk_ok_def)
  have c: "?c \<in> set ?plan" "chunk_ok sp h ?c" and i: "i < unat (es_memory_size (ck_segment ?c))"
    using assms(6,7) ok by (auto simp: segment_chunk_def)
  note fit = chunk_ok_fits(1,3) [OF assms(1,3) c(2)]
  have "storage (?h ! chunk_dev sp ?c) ! (chunk_off sp ?c + i) = segment_bytes ?c ! i"
    using assms(5) [unfolded validate_plan_iff [OF assms(1-3) wf]]
    by (intro fold_place_stored [OF assms(1-3) ok _ c(1) i]) blast
  then show ?thesis
    using chunk_cell [OF assms(1) c(2) i] fold_place_frame [OF assms(1-3) ok fit(1)] fit(2) i segment_chunk_bytes assms(4,6,7)
    by (auto simp: bus_byte_def segment_from_def segment_chunk_def)
qed

lemma segment_chunk_covers:
  assumes "as_wf sp" and "segment_valid img sp h s" and "covers sp (segment_chunk img s) d x"
  shows "Some (d, x) \<in> bus_cell sp ` {segment_from s..<segment_to s}"
proof -
  let ?c = "segment_chunk img s"
  obtain i where i: "x = chunk_off sp ?c + i" "i < unat (es_memory_size (ck_segment ?c))" "d = chunk_dev sp ?c"
    using assms(3) by (auto simp: covers_def le_iff_add)
  have "bus_cell sp (segment_from s + i) = Some (d, x)"
    using chunk_cell [OF assms(1) segment_chunk_ok [OF assms(2)] i(2)] i by (simp add: segment_chunk_def segment_from_def)
  moreover have "segment_from s + i \<in> {segment_from s..<segment_to s}"
    using i(2) by (simp add: segment_to_def segment_chunk_def)
  ultimately show ?thesis by (metis image_eqI)
qed

text \<open>C19: loading an ELF image is all or nothing, and stores what the image says. Either \<^verbatim>\<open>load_elf\<close> throws \<^verbatim>\<open>ElfError\<close>
  and no device has changed, or it returns the entry point and the segments of the image, every byte of
  every segment is found at its bus address (file data first, then zeros up to the memory size), and every
  byte of every device that is not the target of a segment, through whatever window, is unchanged, as are
  all devices without storage.\<close>

theorem load_elf_all_or_nothing:
  assumes "as_wf sp" and "heap_wf h" and "devices_ok sp h" and "length img < 2 ^ 64"
  shows "case load_elf img sp h of
      (Inl e, h') \<Rightarrow> h' = h \<and> (\<exists>m. e = ElfError m)
    | (Inr res, h') \<Rightarrow> heap_step h h' \<and>
        (\<exists>header segs. parse_header img = Inr header \<and> parse_load_segments img header sp h = Inr segs \<and>
          res = \<lparr>er_entry = ph_entry header, er_is_64_bit = ph_is_64_bit header, er_segments = map pg_public_segment segs\<rparr> \<and>
          (\<forall>s\<in>set segs. \<forall>i<unat (es_memory_size (pg_public_segment s)). bus_byte sp h' (segment_from s + i) =
             Some (if i < unat (es_file_size (pg_public_segment s)) then img ! (unat (pg_file_offset s) + i) else 0)) \<and>
          (\<forall>d<length h. (\<not> dev_loadable (h ! d) \<longrightarrow> h' ! d = h ! d) \<and> length (storage (h' ! d)) = length (storage (h ! d)) \<and>
             (\<forall>x<length (storage (h ! d)). (\<forall>s\<in>set segs. Some (d, x) \<notin> bus_cell sp ` {segment_from s..<segment_to s}) \<longrightarrow>
                storage (h' ! d) ! x = storage (h ! d) ! x)))"
proof (cases "fst (load_elf img sp h)")
  case (Inl e)
  then have "snd (load_elf img sp h) = h \<and> (\<exists>m. e = ElfError m)"
    unfolding load_elf_eq [OF assms] using elf_only_add_elf [of img sp h "[]"] validate_plan_error
    by (auto simp: elf_only_def split: sum.splits prod.splits)
  then show ?thesis using Inl by (auto split: prod.splits sum.splits)
next
  case (Inr res)
  then obtain plan where a: "add_elf img sp h [] = Inr (res, plan)" and v: "validate_plan sp h plan = Inr ()"
    and h': "load_elf img sp h = (Inr res, fold (place sp) plan h)"
    unfolding load_elf_eq [OF assms] by (auto split: sum.splits prod.splits)
  then obtain header segs where hd: "parse_header img = Inr header" and pl: "parse_load_segments img header sp h = Inr segs"
    and res: "res = \<lparr>er_entry = ph_entry header, er_is_64_bit = ph_is_64_bit header, er_segments = map pg_public_segment segs\<rparr>"
    and plan: "plan = map (segment_chunk img) segs"
    by (auto simp: add_elf_def Let_def segment_chunk_def)
  have valid: "\<forall>s\<in>set segs. segment_valid img sp h s" by (rule parse_load_segments_valid [OF assms pl])
  then have ok: "\<forall>c\<in>set plan. chunk_ok sp h c" using segment_chunk_ok plan by auto
  have stored: "\<forall>s\<in>set segs. \<forall>i<unat (es_memory_size (pg_public_segment s)). bus_byte sp (fold (place sp) plan h) (segment_from s + i) =
      Some (if i < unat (es_file_size (pg_public_segment s)) then img ! (unat (pg_file_offset s) + i) else 0)"
    using segments_stored [OF assms(1-3) valid] v unfolding plan by blast
  have "\<not> covers sp c d x" if "\<forall>s\<in>set segs. Some (d, x) \<notin> bus_cell sp ` {segment_from s..<segment_to s}" "c \<in> set plan" for c d x
    using that valid segment_chunk_covers [OF assms(1)] unfolding plan by fastforce
  then show ?thesis
    unfolding h' using hd pl res stored fold_place_frame [OF assms(1-3) ok] fold_place_step [OF assms(1-3) ok] by auto
qed

section \<open>Plans over several images\<close>

text \<open>The plans a client of \<^verbatim>\<open>ImageLoadPlan\<close> can build before it calls \<^verbatim>\<open>apply\<close>.\<close>

inductive plan_built :: "address_space \<Rightarrow> heap \<Rightarrow> load_plan \<Rightarrow> bool" for sp h where
  plan_empty: "plan_built sp h []"
| plan_elf: "plan_built sp h plan \<Longrightarrow> length img < 2 ^ 64 \<Longrightarrow> add_elf img sp h plan = Inr (res, plan') \<Longrightarrow> plan_built sp h plan'"
| plan_raw: "plan_built sp h plan \<Longrightarrow> length img < 2 ^ 64 \<Longrightarrow> add_raw img address sp h plan = Inr plan' \<Longrightarrow> plan_built sp h plan'"

lemma plan_built_ok:
  assumes "plan_built sp h plan" and "as_wf sp" and "heap_wf h" and "devices_ok sp h"
  shows "\<forall>c\<in>set plan. chunk_ok sp h c"
  using assms(1)
proof (induction rule: plan_built.induct)
  case plan_empty
  then show ?case by simp
next
  case (plan_elf plan img res plan')
  then obtain header segs where "parse_load_segments img header sp h = Inr segs" "plan' = plan @ map (segment_chunk img) segs"
    by (auto simp: add_elf_def Let_def segment_chunk_def)
  then show ?case
    using plan_elf.IH parse_load_segments_valid [OF assms(2-4) plan_elf.hyps(2)] segment_chunk_ok by auto
next
  case (plan_raw plan img address plan')
  let ?s = "default_elf_segment\<lparr>es_load_address := address, es_memory_size := of_nat (length img), es_file_size := of_nat (length img)\<rparr>"
  have "plan' = plan \<or> (plan' = plan @ [\<lparr>ck_segment = ?s, ck_data = img\<rparr>] \<and> validate_load_target sp h ?s 0 = Inr ())"
    using plan_raw.hyps(3) by (auto simp: add_raw_def Let_def split: if_splits)
  moreover have "unat (of_nat (length img) :: u64) = length img" using plan_raw.hyps(2) by (simp add: unat_of_nat_exact)
  ultimately show ?case
    using plan_raw.IH by (auto simp: validate_load_target_iff [OF assms(2-4)] chunk_ok_def chunk_wf_def) blast
qed

lemma image_plan_stores:
  assumes "as_wf sp" and "heap_wf h" and "devices_ok sp h" and "plan_built sp h plan"
  shows "case apply_plan sp plan h of
      (Inl e, h') \<Rightarrow> h' = h \<and> (\<exists>m. e = ElfError m) \<and> (\<exists>i<length plan. \<exists>j<i. \<not> chunks_disjoint sp (plan ! i) (plan ! j))
    | (Inr _, h') \<Rightarrow> (\<forall>i<length plan. \<forall>j<i. chunks_disjoint sp (plan ! i) (plan ! j)) \<and>
        (\<forall>c\<in>set plan. \<forall>i<unat (es_memory_size (ck_segment c)).
           bus_byte sp h' (unat (es_load_address (ck_segment c)) + i) = Some (if i < length (ck_data c) then ck_data c ! i else 0)) \<and>
        (\<forall>d<length h. \<forall>x<length (storage (h ! d)). (\<forall>c\<in>set plan. \<not> covers sp c d x) \<longrightarrow> storage (h' ! d) ! x = storage (h ! d) ! x)"
proof -
  have ok: "\<forall>c\<in>set plan. chunk_ok sp h c" by (rule plan_built_ok [OF assms(4,1-3)])
  then have wf: "list_all chunk_wf plan" by (simp add: list_all_iff chunk_ok_def)
  note v = validate_plan_iff [OF assms(1-3) wf] and e = apply_plan_eq [OF assms(1-3) wf]
  show ?thesis
  proof (cases "validate_plan sp h plan")
    case (Inl x)
    then have "\<exists>i<length plan. \<exists>j<i. \<not> chunks_disjoint sp (plan ! i) (plan ! j)" using v ok by auto
    then show ?thesis using Inl e validate_plan_error [OF Inl] by simp
  next
    case (Inr u)
    then have dis: "\<forall>i<length plan. \<forall>j<i. chunks_disjoint sp (plan ! i) (plan ! j)" using v by simp
    let ?h = "fold (place sp) plan h"
    have "bus_byte sp ?h (unat (es_load_address (ck_segment c)) + i) = Some (if i < length (ck_data c) then ck_data c ! i else 0)"
      if c: "c \<in> set plan" and i: "i < unat (es_memory_size (ck_segment c))" for c i
    proof -
      have co: "chunk_ok sp h c" using ok c by blast
      note fit = chunk_ok_fits(1,3) [OF assms(1,3) co]
      have "segment_bytes c ! i = (if i < length (ck_data c) then ck_data c ! i else 0)"
        using co i by (auto simp: segment_bytes_def nth_append chunk_ok_def chunk_wf_def)
      then show ?thesis
        using fold_place_stored [OF assms(1-3) ok dis c i] chunk_cell [OF assms(1) co i] fold_place_frame [OF assms(1-3) ok fit(1)] fit(2) i
        by (simp add: bus_byte_def)
    qed
    then show ?thesis using Inr e dis fold_place_frame [OF assms(1-3) ok] by simp
  qed
qed

text \<open>C20: a plan over any number of ELF and raw images is applied entirely or not at all. If two chunks share a byte of
  a device, even through different windows, \<^verbatim>\<open>apply\<close> throws \<^verbatim>\<open>ElfError\<close> before any device changes; otherwise it
  succeeds, every chunk's bytes, followed by zeros up to its memory size, are found at its bus addresses, and
  every other stored byte keeps its value. No load of the second pass can be rejected.\<close>

theorem image_plan_all_or_nothing:
  assumes "as_wf sp" and "heap_wf h" and "devices_ok sp h" and "plan_built sp h plan"
  shows "case apply_plan sp plan h of
      (Inl e, h') \<Rightarrow> h' = h \<and> (\<exists>m. e = ElfError m) \<and> (\<exists>i<length plan. \<exists>j<i. \<not> chunks_disjoint sp (plan ! i) (plan ! j))
    | (Inr _, h') \<Rightarrow> (\<forall>i<length plan. \<forall>j<i. chunks_disjoint sp (plan ! i) (plan ! j)) \<and>
        (\<forall>c\<in>set plan. \<forall>i<unat (es_memory_size (ck_segment c)).
           bus_byte sp h' (unat (es_load_address (ck_segment c)) + i) = Some (if i < length (ck_data c) then ck_data c ! i else 0)) \<and>
        (\<forall>d<length h. \<forall>x<length (storage (h ! d)). (\<forall>c\<in>set plan. \<not> covers sp c d x) \<longrightarrow> storage (h' ! d) ! x = storage (h ! d) ! x)"
  by (rule image_plan_stores [OF assms])

section \<open>Round trip of the header\<close>

text \<open>The reference encoding: \<open>n\<close> bytes, least significant first.\<close>

definition le_bytes :: "nat \<Rightarrow> nat \<Rightarrow> u8 list" where
  "le_bytes n v = map (\<lambda>i. of_nat (v div 256 ^ i)) [0..<n]"

lemma le_bytes_length [simp]: "length (le_bytes n v) = n"
  by (simp add: le_bytes_def)

lemma le_bytes_0 [simp]: "le_bytes 0 v = []"
  by (simp add: le_bytes_def)

lemma le_bytes_Suc: "le_bytes (Suc n) v = of_nat v # le_bytes n (v div 256)"
proof -
  have u: "[0..<Suc n] = 0 # map Suc [0..<n]" by (simp add: map_Suc_upt upt_conv_Cons del: upt_Suc)
  have d: "v div 256 ^ Suc i = v div 256 div 256 ^ i" for i by (simp only: power_Suc div_mult2_eq)
  show ?thesis unfolding le_bytes_def u by (simp only: list.map map_map o_def d power_0 div_by_1)
qed

lemma le_bytes_numeral: "le_bytes (numeral k) v = of_nat v # le_bytes (pred_numeral k) (v div 256)" "le_bytes (Suc 0) v = [of_nat v]"
  by (simp_all only: numeral_eq_Suc [of k] le_bytes_Suc le_bytes_0)

lemma le_fold:
  assumes "m \<le> 8"
  shows "unat (fold (\<lambda>i value. value OR push_bit (i * 8) (ucast (of_nat (v div 256 ^ i) :: u8))) [0..<m] (0 :: u64)) = v mod 256 ^ m"
  using assms
proof (induction m)
  case (Suc m)
  let ?x = "fold (\<lambda>i value. value OR push_bit (i * 8) (ucast (of_nat (v div 256 ^ i) :: u8))) [0..<m] (0 :: u64)"
  let ?b = "ucast (of_nat (v div 256 ^ m) :: u8) :: u64"
  have x: "unat ?x = v mod 256 ^ m" using Suc by simp
  have p: "(256 :: nat) ^ m = 2 ^ (m * 8)" using power_mult [of "2 :: nat" 8 m] by (simp add: mult.commute)
  have b: "unat ?b = v div 256 ^ m mod 256"
    by (simp add: unat_ucast_up unat_of_nat take_bit_eq_mod)
  have "unat (?x OR push_bit (m * 8) ?b) = unat ?x + 2 ^ (m * 8) * unat ?b"
  proof (rule unat_or_push_bit [where m = 8])
    show "unat ?x < 2 ^ (m * 8)" unfolding x p by simp
    show "unat ?b < 2 ^ 8" unfolding b by simp
  qed (use Suc.prems in simp)
  also have "\<dots> = 256 ^ m * (v div 256 ^ m mod 256) + v mod 256 ^ m"
    unfolding x b by (simp only: p add.commute)
  also have "\<dots> = v mod 256 ^ Suc m" using mod_mult2_eq [of v "256 ^ m" 256] by (simp add: mult.commute)
  finally show ?case by simp
qed simp

text \<open>Reading a field that holds the encoding of \<open>w\<close> returns \<open>w\<close>.\<close>

lemma read_little_endian_at:
  fixes w :: "'a::len word"
  assumes "8 dvd LENGTH('a)" and "LENGTH('a) \<le> 64" and "length img < 2 ^ 64"
    and "take (LENGTH('a) div 8) (drop (unat offset) img) = le_bytes (LENGTH('a) div 8) (unat w)"
  shows "read_little_endian img offset description = Inr w"
proof -
  obtain n where n: "LENGTH('a) = 8 * n" "n \<le> 8" using assms(1,2) by (auto elim: dvdE)
  have len: "unat offset + n \<le> length img"
    using arg_cong [OF assms(4), of length] n by (cases n) (auto simp: min_def split: if_splits)
  have s: "unat (of_nat n :: u64) = n" using n(2) by (simp add: unat_of_nat_exact)
  have at: "img ! unat (offset + of_nat i) = of_nat (unat w div 256 ^ i)" if "i < n" for i
  proof -
    have "unat (of_nat i :: u64) = i" using n(2) that by (simp add: unat_of_nat_exact)
    then have "unat (offset + of_nat i) = unat offset + i"
      using len assms(3) that by (subst unat_plus_exact) simp_all
    moreover have "take n (drop (unat offset) img) ! i = le_bytes n (unat w) ! i" using assms(4) n by simp
    ultimately show ?thesis using that len by (simp add: le_bytes_def)
  qed
  have "fold (\<lambda>byte value. value OR push_bit (byte * 8) (ucast (img ! unat (offset + of_nat byte)))) [0..<n] (0 :: u64) =
      fold (\<lambda>i value. value OR push_bit (i * 8) (ucast (of_nat (unat w div 256 ^ i) :: u8))) [0..<n] 0" (is "_ = ?v")
    using at by (intro fold_cong) auto
  moreover have "unat ?v = unat w"
  proof -
    have "unat w < 256 ^ n" using unat_less_pow [of w] n(1) by (simp add: power_mult)
    then show ?thesis using le_fold [OF n(2), of "unat w"] by simp
  qed
  moreover have "ucast x = w" if "unat x = unat w" for x :: u64
    using that by (simp add: word_unat_eq_iff unsigned_ucast_eq take_bit_nat_eq_self_iff unat_less_pow)
  moreover have "require_range offset (of_nat n) (of_nat (length img)) description = Inr ()"
    using len by (simp add: require_range_iff [OF assms(3)] s)
  ultimately show ?thesis using n(1) by (simp add: read_little_endian_def)
qed

lemma checked_multiply_iff: "checked_multiply l r description = Inr v \<longleftrightarrow> unat l * unat r < 2 ^ 64 \<and> v = l * r"
proof -
  have "r > 0xFFFFFFFFFFFFFFFF div l \<longleftrightarrow> \<not> unat l * unat r < 2 ^ 64" if "l \<noteq> 0"
  proof -
    have "0 < unat l" using that by (simp add: unat_gt_0)
    then have "unat r \<le> (2 ^ 64 - 1) div unat l \<longleftrightarrow> unat r * unat l \<le> 2 ^ 64 - 1"
      by (rule less_eq_div_iff_mult_less_eq)
    moreover have "unat (0xFFFFFFFFFFFFFFFF div l :: u64) = (2 ^ 64 - 1) div unat l" by (simp add: unat_div)
    moreover have "unat l * unat r < 2 ^ 64 \<longleftrightarrow> unat r * unat l \<le> 2 ^ 64 - 1" by (auto simp: mult.commute)
    ultimately show ?thesis unfolding word_less_nat_alt by (simp only: not_le [symmetric])
  qed
  then show ?thesis by (cases "l = 0") (auto simp: checked_multiply_def)
qed

text \<open>A header as a linker writes it. The fields the loader does not look at (identification padding, type and
  machine, section-table offset, flags, section-table description) are arbitrary bytes.\<close>

definition elf_header_bytes ::
  "parsed_header \<Rightarrow> u8 list \<Rightarrow> u8 list \<Rightarrow> u8 list \<Rightarrow> u8 list \<Rightarrow> u8 list \<Rightarrow> u8 list" where
  "elf_header_bytes h pad kind sections flags tail =
     (let w = (if ph_is_64_bit h then 8 else 4)
      in [0x7f, 0x45, 0x4c, 0x46, if ph_is_64_bit h then 2 else 1, 1, 1] @ pad @ kind @ le_bytes 4 1 @
         le_bytes w (unat (ph_entry h)) @ le_bytes w (unat (ph_program_header_offset h)) @ sections @ flags @
         le_bytes 2 (if ph_is_64_bit h then 64 else 52) @ le_bytes 2 (unat (ph_program_header_size h)) @
         le_bytes 2 (unat (ph_program_header_count h)) @ tail)"

definition header_encodable :: "parsed_header \<Rightarrow> nat \<Rightarrow> bool" where
  "header_encodable h limit \<longleftrightarrow>
     (ph_is_64_bit h \<or> unat (ph_entry h) < 2 ^ 32 \<and> unat (ph_program_header_offset h) < 2 ^ 32) \<and>
     unat (ph_program_header_size h) < 2 ^ 16 \<and> unat (ph_program_header_count h) < 0xffff \<and>
     (ph_program_header_count h = 0 \<or> unat (ph_program_header_size h) \<ge> (if ph_is_64_bit h then 56 else 32)) \<and>
     unat (ph_program_header_offset h) + unat (ph_program_header_count h) * unat (ph_program_header_size h) \<le> limit \<and>
     limit < 2 ^ 64"

lemma ucast_down_up:
  "unat (x :: u64) < 2 ^ LENGTH('a) \<Longrightarrow> unat (ucast x :: 'a::len word) = unat x"
  "unat (x :: u64) < 2 ^ LENGTH('a) \<Longrightarrow> LENGTH('a) \<le> 64 \<Longrightarrow> ucast (ucast x :: 'a::len word) = x"
  by (simp_all add: word_unat_eq_iff unsigned_ucast_eq unat_ucast_up take_bit_nat_eq_self unat_take_bit_word)

lemma parse_identification_bytes:
  assumes "img = [0x7f, 0x45, 0x4c, 0x46, if b then 2 else 1, 1, 1] @ rest" and "16 \<le> length img" and "length img < 2 ^ 64"
  shows "parse_identification img = Inr b"
proof -
  have n: "img ! 0 = 0x7f" "img ! 1 = 0x45" "img ! 2 = 0x4c" "img ! 3 = 0x46" "img ! 4 = (if b then 2 else 1)" "img ! 5 = 1" "img ! 6 = 1"
    by (simp_all add: assms(1))
  have "require_range 0 16 (of_nat (length img)) ''identification'' = Inr ()"
    using assms(2) by (simp add: require_range_iff [OF assms(3)])
  then show ?thesis by (simp add: parse_identification_def Let_def elf_constants n del: One_nat_def)
qed

lemma header_table_size:
  assumes "header_encodable h limit"
  defines "c \<equiv> ph_program_header_count h" and "s \<equiv> ph_program_header_size h"
  shows "checked_multiply (ucast c) s d = Inr (ucast c * s)" and "unat (ucast c * s :: u64) = unat c * unat s"
proof -
  have c: "unat (ucast c :: u64) = unat c" by (simp add: unat_ucast_up)
  have "unat c < 2 ^ 16" "unat s < 2 ^ 16" using unat_less_pow [of c] assms by (simp_all add: header_encodable_def)
  then have "unat c * unat s < 2 ^ 16 * 2 ^ 16" by (intro mult_strict_mono') simp_all
  then have l: "unat (ucast c :: u64) * unat s < 2 ^ 64" by (simp add: c)
  then show "checked_multiply (ucast c) s d = Inr (ucast c * s)" by (simp add: checked_multiply_iff)
  show "unat (ucast c * s :: u64) = unat c * unat s" using l unat_mult_lem [of "ucast c :: u64" s] by (simp add: c)
qed

lemma header_reads:
  assumes "length pad = 9" and "length kind = 4" and "length sections = (if ph_is_64_bit h then 8 else 4)"
    and "length flags = 4" and "img = elf_header_bytes h pad kind sections flags tail @ rest" and "header_encodable h (length img)"
  shows "read_little_endian img 20 d = Inr (1 :: u32)"
    and "ph_is_64_bit h \<Longrightarrow> read_little_endian img 24 d = Inr (ph_entry h)"
    and "ph_is_64_bit h \<Longrightarrow> read_little_endian img 32 d = Inr (ph_program_header_offset h)"
    and "ph_is_64_bit h \<Longrightarrow> read_little_endian img 52 d = Inr (64 :: u16)"
    and "ph_is_64_bit h \<Longrightarrow> read_little_endian img 54 d = Inr (ucast (ph_program_header_size h) :: u16)"
    and "ph_is_64_bit h \<Longrightarrow> read_little_endian img 56 d = Inr (ph_program_header_count h)"
    and "\<not> ph_is_64_bit h \<Longrightarrow> read_little_endian img 24 d = Inr (ucast (ph_entry h) :: u32)"
    and "\<not> ph_is_64_bit h \<Longrightarrow> read_little_endian img 28 d = Inr (ucast (ph_program_header_offset h) :: u32)"
    and "\<not> ph_is_64_bit h \<Longrightarrow> read_little_endian img 40 d = Inr (52 :: u16)"
    and "\<not> ph_is_64_bit h \<Longrightarrow> read_little_endian img 42 d = Inr (ucast (ph_program_header_size h) :: u16)"
    and "\<not> ph_is_64_bit h \<Longrightarrow> read_little_endian img 44 d = Inr (ph_program_header_count h)"
proof -
  define ident where "ident = [0x7f, 0x45, 0x4c, 0x46, if ph_is_64_bit h then 2 else 1, 1, 1] @ pad"
  have img: "img = ident @ kind @ le_bytes 4 1 @ le_bytes (if ph_is_64_bit h then 8 else 4) (unat (ph_entry h)) @
      le_bytes (if ph_is_64_bit h then 8 else 4) (unat (ph_program_header_offset h)) @ sections @ flags @
      le_bytes 2 (if ph_is_64_bit h then 64 else 52) @ le_bytes 2 (unat (ph_program_header_size h)) @
      le_bytes 2 (unat (ph_program_header_count h)) @ tail @ rest"
    by (simp add: assms(5) elf_header_bytes_def Let_def ident_def)
  have il: "length ident = 16" by (simp add: ident_def assms)
  have lt: "length img < 2 ^ 64" and small: "unat (ph_program_header_size h) < 2 ^ 16"
    "\<not> ph_is_64_bit h \<Longrightarrow> unat (ph_entry h) < 2 ^ 32" "\<not> ph_is_64_bit h \<Longrightarrow> unat (ph_program_header_offset h) < 2 ^ 32"
    using assms(6) by (auto simp: header_encodable_def)
  note rd = read_little_endian_at [OF _ _ lt] and sh = img il assms(1-4) ucast_down_up
  show "read_little_endian img 20 d = Inr (1 :: u32)" by (rule rd) (simp_all add: sh)
  { assume b: "ph_is_64_bit h"
    show "read_little_endian img 24 d = Inr (ph_entry h)" by (rule rd) (simp_all add: sh b)
    show "read_little_endian img 32 d = Inr (ph_program_header_offset h)" by (rule rd) (simp_all add: sh b)
    show "read_little_endian img 52 d = Inr (64 :: u16)" by (rule rd) (simp_all add: sh b)
    show "read_little_endian img 54 d = Inr (ucast (ph_program_header_size h) :: u16)" by (rule rd) (use small in \<open>simp_all add: sh b\<close>)
    show "read_little_endian img 56 d = Inr (ph_program_header_count h)" by (rule rd) (simp_all add: sh b) }
  { assume b: "\<not> ph_is_64_bit h"
    show "read_little_endian img 24 d = Inr (ucast (ph_entry h) :: u32)" by (rule rd) (use small b in \<open>simp_all add: sh\<close>)
    show "read_little_endian img 28 d = Inr (ucast (ph_program_header_offset h) :: u32)" by (rule rd) (use small b in \<open>simp_all add: sh\<close>)
    show "read_little_endian img 40 d = Inr (52 :: u16)" by (rule rd) (simp_all add: sh b)
    show "read_little_endian img 42 d = Inr (ucast (ph_program_header_size h) :: u16)" by (rule rd) (use small in \<open>simp_all add: sh b\<close>)
    show "read_little_endian img 44 d = Inr (ph_program_header_count h)" by (rule rd) (simp_all add: sh b) }
qed

text \<open>C21: the header parser inverts the header format. For both ELF classes, every header whose fields fit their
  encoding and whose program-header table lies inside the image is read back exactly from its bytes, whatever the
  fields the loader ignores and the bytes that follow.\<close>

theorem parse_header_roundtrip:
  assumes "length pad = 9" and "length kind = 4" and "length sections = (if ph_is_64_bit h then 8 else 4)"
    and "length flags = 4" and "length tail = 6"
    and "img = elf_header_bytes h pad kind sections flags tail @ rest" and "header_encodable h (length img)"
  shows "parse_header img = Inr h"
proof -
  let ?b = "ph_is_64_bit h" and ?o = "ph_program_header_offset h" and ?s = "ph_program_header_size h" and ?c = "ph_program_header_count h"
  have enc: "unat ?s < 2 ^ 16" "?c \<noteq> 0xffff" "?c = 0 \<or> unat ?s \<ge> (if ?b then 56 else 32)"
    "unat ?o + unat ?c * unat ?s \<le> length img" "\<not> ?b \<Longrightarrow> unat (ph_entry h) < 2 ^ 32 \<and> unat ?o < 2 ^ 32" and lt: "length img < 2 ^ 64"
    using assms(7) by (auto simp: header_encodable_def)
  have ll: "length img \<ge> (if ?b then 64 else 52)"
    using assms(1-5) by (simp add: assms(6) elf_header_bytes_def Let_def)
  have "16 \<le> length img" using ll by (simp split: if_splits)
  then have idn: "parse_identification img = Inr ?b"
    by (rule parse_identification_bytes [rotated]) (use lt in \<open>simp_all add: assms(6) elf_header_bytes_def Let_def\<close>)
  note facts = parse_header_def idn Let_def read_class_def header_reads [OF assms(1-4,6,7)] header_table_size [OF assms(7)]
    require_range_iff [OF lt] ucast_down_up elf_constants word_less_nat_alt
  show ?thesis
  proof (cases ?b)
    case True
    then show ?thesis using enc ll by (auto simp: facts)
  next
    case False
    then show ?thesis using enc ll by (auto simp: facts)
  qed
qed

section \<open>Examples\<close>

text \<open>A 32-bit image with one segment: two data bytes and two bytes of zeros, loaded into the RAM of \<open>example_space\<close>.\<close>

definition example_elf_header :: parsed_header where
  "example_elf_header = \<lparr>ph_entry = 0x102, ph_program_header_offset = 52, ph_program_header_size = 32,
     ph_program_header_count = 1, ph_is_64_bit = False\<rparr>"

definition example_elf :: "u8 list" where
  "example_elf =
     [0x7f, 0x45, 0x4c, 0x46, 1, 1, 1, 0, 0, 0, 0, 0, 0, 0, 0, 0, 0, 0, 0, 0, 1, 0, 0, 0, 2, 1, 0, 0, 52, 0, 0, 0, 0, 0, 0, 0, 0, 0, 0, 0,
      52, 0, 32, 0, 1, 0, 0, 0, 0, 0, 0, 0,
      1, 0, 0, 0, 84, 0, 0, 0, 2, 1, 0, 0, 2, 1, 0, 0, 2, 0, 0, 0, 4, 0, 0, 0, 5, 0, 0, 0, 1, 0, 0, 0, 0xaa, 0xbb]"

lemma example_elf_encoded:
  "example_elf = elf_header_bytes example_elf_header [0, 0, 0, 0, 0, 0, 0, 0, 0] [0, 0, 0, 0] [0, 0, 0, 0] [0, 0, 0, 0] [0, 0, 0, 0, 0, 0] @
     [1, 0, 0, 0, 84, 0, 0, 0, 2, 1, 0, 0, 2, 1, 0, 0, 2, 0, 0, 0, 4, 0, 0, 0, 5, 0, 0, 0, 1, 0, 0, 0, 0xaa, 0xbb]"
  by (simp add: example_elf_def elf_header_bytes_def example_elf_header_def le_bytes_numeral)

definition example_load_heap :: heap where
  "example_load_heap = [DRam \<lparr>ram_size = 8, ram_bytes = replicate 8 0xff, ram_mapped = False\<rparr>, DExit exit_new]"

lemma example_load_wf: "heap_wf example_load_heap" "devices_ok example_space example_load_heap"
  by (simp_all add: heap_wf_def devices_ok_def example_load_heap_def ram_wf_def example_space_def)

lemma example_elf_length: "length example_elf = 86"
  by (simp add: example_elf_def)

theorem parse_header_roundtrip_witness: "parse_header example_elf = Inr example_elf_header"
  by (rule parse_header_roundtrip [where pad = "[0, 0, 0, 0, 0, 0, 0, 0, 0]" and kind = "[0, 0, 0, 0]" and sections = "[0, 0, 0, 0]"
        and flags = "[0, 0, 0, 0]" and tail = "[0, 0, 0, 0, 0, 0]", OF _ _ _ _ _ example_elf_encoded])
    (simp_all add: example_elf_length header_encodable_def example_elf_header_def)

theorem load_elf_all_or_nothing_witness:
  "\<exists>res h'. load_elf example_elf example_space example_load_heap = (Inr res, h') \<and> heap_step example_load_heap h'"
proof -
  have "\<not> isl (fst (load_elf example_elf example_space example_load_heap))" by code_simp
  then obtain res where r: "load_elf example_elf example_space example_load_heap =
      (Inr res, snd (load_elf example_elf example_space example_load_heap))"
    by (rule exec_returns)
  have "length example_elf < 2 ^ 64" by (simp add: example_elf_length)
  from load_elf_all_or_nothing [OF example_space_wf example_load_wf this] r show ?thesis by (auto split: prod.splits)
qed

definition example_segment :: "u64 \<Rightarrow> u64 \<Rightarrow> parsed_segment" where
  "example_segment a n = default_parsed_segment\<lparr>pg_public_segment := default_elf_segment\<lparr>es_load_address := a, es_memory_size := n\<rparr>\<rparr>"

theorem validate_no_overlap_exact_witness:
  "isl (validate_no_overlap [example_segment 0x104 8, example_segment 0x100 8, example_segment 0x200 1])"
proof -
  let ?ss = "[example_segment 0x104 8, example_segment 0x100 8, example_segment 0x200 1]"
  have e: "segment_from (example_segment a n) = unat a" "segment_to (example_segment a n) = unat a + unat n" for a n
    by (simp_all add: segment_from_def segment_to_def example_segment_def)
  have "\<forall>s\<in>set ?ss. segment_proper s" by (simp add: segment_proper_def e)
  from validate_no_overlap_exact [OF this] have "validate_no_overlap ?ss = Inr () \<longrightarrow>
      {segment_from (?ss ! 0)..<segment_to (?ss ! 0)} \<inter> {segment_from (?ss ! 1)..<segment_to (?ss ! 1)} = {}" by fastforce
  moreover have "{segment_from (?ss ! 0)..<segment_to (?ss ! 0)} \<inter> {segment_from (?ss ! 1)..<segment_to (?ss ! 1)} \<noteq> {}"
    by (simp add: e)
  ultimately show ?thesis by (cases "validate_no_overlap ?ss") auto
qed

definition example_plan :: load_plan where
  "example_plan = projr (add_raw [1, 2] 0x103 example_space example_load_heap (projr (add_raw [9, 8, 7, 6] 0x100 example_space example_load_heap [])))"

lemma example_plan_built: "plan_built example_space example_load_heap example_plan"
proof -
  let ?p = "projr (add_raw [9, 8, 7, 6] 0x100 example_space example_load_heap [])"
  have "\<not> isl (add_raw [9, 8, 7, 6] 0x100 example_space example_load_heap [])" by code_simp
  then have a: "add_raw [9, 8, 7, 6] 0x100 example_space example_load_heap [] = Inr ?p" by simp
  have p: "plan_built example_space example_load_heap ?p" by (rule plan_raw [OF plan_empty _ a]) simp
  have "\<not> isl (add_raw [1, 2] 0x103 example_space example_load_heap ?p)" by code_simp
  then have b: "add_raw [1, 2] 0x103 example_space example_load_heap ?p = Inr example_plan" by (simp add: example_plan_def)
  show ?thesis by (rule plan_raw [OF p _ b]) simp
qed

theorem image_plan_all_or_nothing_witness:
  "\<exists>e. apply_plan example_space example_plan example_load_heap = (Inl e, example_load_heap) \<and> (\<exists>m. e = ElfError m)"
proof -
  have "isl (fst (apply_plan example_space example_plan example_load_heap))" by code_simp
  then obtain e where "apply_plan example_space example_plan example_load_heap =
      (Inl e, snd (apply_plan example_space example_plan example_load_heap))"
    by (metis prod.collapse sum.collapse(1))
  then show ?thesis
    using image_plan_all_or_nothing [OF example_space_wf example_load_wf example_plan_built] by (auto split: prod.splits)
qed

end
