(* ===== verification/Platform_Spec.thy ===== *)
theory Platform_Spec
  imports Address_Space "HOL-Library.Char_ord" "HOL-Library.List_Lexorder"
begin

text \<open>
  The description of a platform (\<^verbatim>\<open>src/platform.hpp\<close>, \<^verbatim>\<open>src/platform.cpp\<close>): option schemas and their
  validation (\<^verbatim>\<open>DeviceRegistry\<close>, \<^verbatim>\<open>DeviceConfig\<close>), the editable specification (\<^verbatim>\<open>PlatformSpec\<close>), the built-in device
  types and the preset. \<^verbatim>\<open>std::map\<close> with string keys is an association list kept in key order, as iteration sees it.
  \<^verbatim>\<open>HostServices\<close>, which opens files and switches terminals, is a parameter: what an input file delivers, whether an
  output file can be opened, whether memory can be mapped lazily.
\<close>

section \<open>Ordered string maps\<close>

type_synonym 'v string_map = "(string \<times> 'v) list"

fun smap_emplace :: "string \<Rightarrow> 'v \<Rightarrow> 'v string_map \<Rightarrow> 'v string_map \<times> bool" where
  "smap_emplace k v [] = ([(k, v)], True)"
| "smap_emplace k v ((k', v') # m) =
     (if k = k' then ((k', v') # m, False)
      else if k < k' then ((k, v) # (k', v') # m, True)
      else (case smap_emplace k v m of (m', inserted) \<Rightarrow> ((k', v') # m', inserted)))"

text \<open>\<^verbatim>\<open>m[k] = v\<close>\<close>

fun smap_assign :: "string \<Rightarrow> 'v \<Rightarrow> 'v string_map \<Rightarrow> 'v string_map" where
  "smap_assign k v [] = [(k, v)]"
| "smap_assign k v ((k', v') # m) =
     (if k = k' then (k, v) # m
      else if k < k' then (k, v) # (k', v') # m
      else (k', v') # smap_assign k v m)"

definition smap_wf :: "'v string_map \<Rightarrow> bool" where
  "smap_wf m \<longleftrightarrow> sorted_wrt (<) (map fst m)"

section \<open>Names and numbers\<close>

definition endpoint :: "string \<Rightarrow> (string \<times> string) result" where
  "endpoint txt =
     (let front = takeWhile (\<lambda>c. c \<noteq> CHR ''.'') txt; back = drop (length front) txt
      in if front = [] \<or> back = [] \<or> tl back = []
         then Inl (InvalidArgument (''expected instance.port: '' @ txt))
         else Inr (front, tl back))"

definition name_chars :: string where
  "name_chars = ''abcdefghijklmnopqrstuvwxyzABCDEFGHIJKLMNOPQRSTUVWXYZ0123456789_-''"

definition validate_name :: "string \<Rightarrow> unit result" where
  "validate_name name =
     throw_if (name = [] \<or> list_ex (\<lambda>c. c \<notin> set name_chars) name) (InvalidArgument (''invalid name: '' @ name))"

definition parse_unsigned :: "string \<Rightarrow> u64 result" where
  "parse_unsigned txt =
     (let hex = (take 2 txt = ''0x'' \<or> take 2 txt = ''0X'');
          digits = (if hex then drop 2 txt else txt)
      in case from_chars (if hex then 16 else 10) 64 digits of
           None \<Rightarrow> Inl (InvalidArgument (''invalid unsigned integer: '' @ txt))
         | Some n \<Rightarrow> Inr (of_nat n))"

section \<open>Options and configurations\<close>

datatype option_kind = StringOption | UnsignedOption | BooleanOption

record device_option =
  op_name :: string
  op_kind :: option_kind
  op_default_value :: string
  op_help :: string
  op_minimum :: u64
  op_maximum :: u64

type_synonym properties = "string string_map"
type_synonym device_config = properties

definition config_text :: "device_config \<Rightarrow> string \<Rightarrow> string result" where
  "config_text c name =
     (case map_of c name of
        None \<Rightarrow> Inl (InvalidArgument (''unknown device option: '' @ name))
      | Some v \<Rightarrow> Inr v)"

definition config_number :: "device_config \<Rightarrow> string \<Rightarrow> u64 result" where
  "config_number c name = result_bind (config_text c name) parse_unsigned"

definition config_boolean :: "device_config \<Rightarrow> string \<Rightarrow> bool result" where
  "config_boolean c name = result_bind (config_text c name) (\<lambda>v. Inr (v = ''true''))"

text \<open>The host: the events an opened input file will deliver (with whether it has a descriptor to poll), whether an
  output file can be opened, whether a mapping of that many bytes succeeds.\<close>

record host_services =
  ho_open_input :: "string \<Rightarrow> (bool \<times> file_event list) result"
  ho_open_output :: "string \<Rightarrow> unit result"
  ho_mmap :: "nat \<Rightarrow> bool"

type_synonym device_factory = "device_config \<Rightarrow> host_services \<Rightarrow> device option result"

record device_type =
  dt_options :: "device_option list"
  dt_create :: "device_factory option"
  dt_image_option :: string

type_synonym device_registry = "device_type string_map"

definition check_option :: "device_option \<Rightarrow> string list \<Rightarrow> string list result" where
  "check_option opt names =
     result_bind (validate_name (op_name opt)) (\<lambda>_.
     result_bind (throw_if (op_name opt \<in> set names) (InvalidArgument (''duplicate device option: '' @ op_name opt))) (\<lambda>_.
     result_bind (throw_if (op_minimum opt > op_maximum opt) (InvalidArgument (''invalid option bounds: '' @ op_name opt))) (\<lambda>_.
     Inr (op_name opt # names))))"

definition registry_add :: "string \<Rightarrow> device_type \<Rightarrow> device_registry \<Rightarrow> device_registry result" where
  "registry_add name type reg =
     result_bind (validate_name name) (\<lambda>_.
     result_bind (throw_if (dt_create type = None) (InvalidArgument (''missing device factory: '' @ name))) (\<lambda>_.
     result_bind (result_fold check_option (dt_options type) []) (\<lambda>_.
     result_bind
       (throw_if (dt_image_option type \<noteq> [] \<and>
            (case find (\<lambda>opt. op_name opt = dt_image_option type) (dt_options type) of
               None \<Rightarrow> True | Some opt \<Rightarrow> op_kind opt \<noteq> StringOption))
          (InvalidArgument ''image option must be a string property'')) (\<lambda>_.
     case smap_emplace name type reg of
       (reg', inserted) \<Rightarrow>
         if \<not> inserted then Inl (InvalidArgument (''duplicate device type: '' @ name)) else Inr reg'))))"

definition registry_type :: "device_registry \<Rightarrow> string \<Rightarrow> device_type result" where
  "registry_type reg name =
     (case map_of reg name of
        None \<Rightarrow> Inl (InvalidArgument (''unknown device type: '' @ name))
      | Some t \<Rightarrow> Inr t)"

definition check_value :: "device_option \<Rightarrow> string \<Rightarrow> unit result" where
  "check_value opt v =
     (if op_kind opt = UnsignedOption
      then result_bind (parse_unsigned v) (\<lambda>number.
             throw_if (number < op_minimum opt \<or> number > op_maximum opt)
               (InvalidArgument (''option out of range: '' @ op_name opt)))
      else throw_if (op_kind opt = BooleanOption \<and> v \<noteq> ''true'' \<and> v \<noteq> ''false'')
             (InvalidArgument (''option expects true or false: '' @ op_name opt)))"

definition option_value :: "properties \<Rightarrow> device_option \<Rightarrow> string" where
  "option_value props opt = (case map_of props (op_name opt) of None \<Rightarrow> op_default_value opt | Some v \<Rightarrow> v)"

definition configure :: "device_registry \<Rightarrow> string \<Rightarrow> properties \<Rightarrow> device_config result" where
  "configure reg name props =
     result_bind (registry_type reg name) (\<lambda>type.
       let schema = dt_options type
       in result_bind
            (result_all (\<lambda>(key, _). throw_if (\<not> list_ex (\<lambda>opt. op_name opt = key) schema)
               (InvalidArgument (''unknown option for '' @ name @ '': '' @ key))) props) (\<lambda>_.
          result_fold (\<lambda>opt config.
              result_bind (check_value opt (option_value props opt)) (\<lambda>_.
                Inr (fst (smap_emplace (op_name opt) (option_value props opt) config))))
            schema []))"

text \<open>\<^verbatim>\<open>print_help\<close>: the text written to the stream.\<close>

definition newline :: string where
  "newline = [CHR 0x0A]"

definition registry_help :: "device_registry \<Rightarrow> string" where
  "registry_help reg =
     newline @ ''Device properties (--set INSTANCE.PROPERTY=VALUE):'' @ newline @
     concat (map (\<lambda>(name, type). ''  '' @ name @ newline @
       concat (map (\<lambda>opt. ''    '' @ op_name opt @ '' (default '' @ [CHR 0x27] @ op_default_value opt @ [CHR 0x27] @ ''): '' @
          op_help opt @ newline) (dt_options type))) reg)"

section \<open>Specifications\<close>

record device_spec =
  ds_id :: string
  ds_type :: string
  ds_properties :: properties

record mapping_spec =
  ms_device :: string
  ms_base :: u64
  ms_size :: u64

record connection_spec =
  cs_source :: string
  cs_destination :: string

record platform_spec =
  sp_devices :: "device_spec list"
  sp_mappings :: "mapping_spec list"
  sp_connections :: "connection_spec list"

text \<open>\<^verbatim>\<open>PlatformSpec::device\<close> returns a reference: the index of the first device of that name.\<close>

definition spec_device :: "string \<Rightarrow> platform_spec \<Rightarrow> nat result" where
  "spec_device ident spec =
     (case find (\<lambda>i. ds_id (sp_devices spec ! i) = ident) [0..<length (sp_devices spec)] of
        None \<Rightarrow> Inl (InvalidArgument (''unknown device instance: '' @ ident))
      | Some i \<Rightarrow> Inr i)"

text \<open>The predicate of \<^verbatim>\<open>std::erase_if\<close> on the connections may throw, for a malformed endpoint; the specification
  is then left partly edited in C++ and is not part of the outcome here.\<close>

definition connection_touches :: "string \<Rightarrow> connection_spec \<Rightarrow> bool result" where
  "connection_touches ident c =
     result_bind (endpoint (cs_source c)) (\<lambda>(src, _).
       if src = ident then Inr True
       else result_bind (endpoint (cs_destination c)) (\<lambda>(dst, _). Inr (dst = ident)))"

definition spec_remove :: "string \<Rightarrow> platform_spec \<Rightarrow> platform_spec result" where
  "spec_remove ident spec =
     result_bind (spec_device ident spec) (\<lambda>_.
     result_bind (result_map (connection_touches ident) (sp_connections spec)) (\<lambda>touched.
       Inr \<lparr>sp_devices = filter (\<lambda>d. ds_id d \<noteq> ident) (sp_devices spec),
            sp_mappings = filter (\<lambda>m. ms_device m \<noteq> ident) (sp_mappings spec),
            sp_connections = map fst (filter (\<lambda>(c, t). \<not> t) (zip (sp_connections spec) touched))\<rparr>))"

definition spec_map :: "string \<Rightarrow> u64 \<Rightarrow> u64 \<Rightarrow> platform_spec \<Rightarrow> platform_spec result" where
  "spec_map ident base sz spec =
     result_bind (spec_device ident spec) (\<lambda>_.
       Inr (spec\<lparr>sp_mappings := filter (\<lambda>m. ms_device m \<noteq> ident) (sp_mappings spec) @
                  [\<lparr>ms_device = ident, ms_base = base, ms_size = sz\<rparr>]\<rparr>))"

definition spec_set :: "string \<Rightarrow> platform_spec \<Rightarrow> platform_spec result" where
  "spec_set assignment spec =
     (let front = takeWhile (\<lambda>c. c \<noteq> CHR ''='') assignment
      in if length front = length assignment then Inl (InvalidArgument ''expected instance.option=value'')
         else result_bind (endpoint front) (\<lambda>(ident, key).
              result_bind (spec_device ident spec) (\<lambda>i.
                let d = sp_devices spec ! i
                in Inr (spec\<lparr>sp_devices := (sp_devices spec)
                     [i := d\<lparr>ds_properties := smap_assign key (drop (length front + 1) assignment) (ds_properties d)\<rparr>]\<rparr>))))"

section \<open>Built-in devices and the preset\<close>

definition default_option :: device_option where
  "default_option = \<lparr>op_name = [], op_kind = StringOption, op_default_value = [], op_help = [],
     op_minimum = 0, op_maximum = 0xFFFFFFFFFFFFFFFF\<rparr>"

definition memory_options :: "device_option list" where
  "memory_options =
     [default_option\<lparr>op_name := ''size'', op_kind := UnsignedOption, op_default_value := ''65536'',
        op_help := ''Memory capacity in bytes'', op_minimum := 1\<rparr>,
      default_option\<lparr>op_name := ''image'', op_help := ''Raw image loaded at the device''
        @ [CHR 0x27] @ ''s sole mapping''\<rparr>]"

definition uart_options :: "device_option list" where
  "uart_options =
     [default_option\<lparr>op_name := ''input'', op_default_value := ''-'', op_help := ''Input file, or - for stdin''\<rparr>,
      default_option\<lparr>op_name := ''output'', op_default_value := ''-'', op_help := ''Output file, or - for stdout''\<rparr>,
      default_option\<lparr>op_name := ''character-cycles'', op_kind := UnsignedOption, op_default_value := ''16'',
        op_help := ''Simulated cycles per RX timeout character'', op_minimum := 1,
        op_maximum := 0xFFFFFFFFFFFFFFFF div 4\<rparr>,
      default_option\<lparr>op_name := ''input-poll-cycles'', op_kind := UnsignedOption, op_default_value := ''1024'',
        op_help := ''Cycles between empty host input polls (1 for immediate polling)'', op_minimum := 1\<rparr>]"

definition create_rom :: device_factory where
  "create_rom c host =
     result_bind (config_number c ''size'') (\<lambda>sz. result_bind (rom_new (unat sz)) (\<lambda>d. Inr (Some (DRom d))))"

definition create_ram :: device_factory where
  "create_ram c host =
     result_bind (config_number c ''size'') (\<lambda>sz.
       result_bind (ram_new (ho_mmap host (unat sz)) (unat sz)) (\<lambda>d. Inr (Some (DRam d))))"

definition create_uart :: device_factory where
  "create_uart c host =
     result_bind (config_text c ''input'') (\<lambda>ipath.
     result_bind (ho_open_input host ipath) (\<lambda>(fileno_ok, events).
     result_bind (config_text c ''output'') (\<lambda>opath.
     result_bind (ho_open_output host opath) (\<lambda>_.
     let uart = uart_new (FileBackend (file_backend_new True fileno_ok events True))
     in result_bind (config_number c ''character-cycles'') (\<lambda>cc.
        result_bind (uart_set_character_cycles cc uart) (\<lambda>uart1.
        result_bind (config_number c ''input-poll-cycles'') (\<lambda>pc.
        result_bind (uart_set_input_poll_cycles pc uart1) (\<lambda>uart2.
        Inr (Some (DUart uart2))))))))))"

definition create_exit :: device_factory where
  "create_exit c host = Inr (Some (DExit exit_new))"

definition rom_type :: device_type where
  "rom_type = \<lparr>dt_options = memory_options, dt_create = Some create_rom, dt_image_option = ''image''\<rparr>"

definition ram_type :: device_type where
  "ram_type = \<lparr>dt_options = memory_options, dt_create = Some create_ram, dt_image_option = ''image''\<rparr>"

definition uart_type :: device_type where
  "uart_type = \<lparr>dt_options = uart_options, dt_create = Some create_uart, dt_image_option = []\<rparr>"

definition exit_type :: device_type where
  "exit_type = \<lparr>dt_options = [], dt_create = Some create_exit, dt_image_option = []\<rparr>"

definition register_builtin_devices :: "device_registry \<Rightarrow> device_registry result" where
  "register_builtin_devices reg =
     result_bind (registry_add ''rom'' rom_type reg) (\<lambda>reg.
     result_bind (registry_add ''ram'' ram_type reg) (\<lambda>reg.
     result_bind (registry_add ''uart'' uart_type reg) (\<lambda>reg.
     registry_add ''exit'' exit_type reg)))"

record default_map =
  dm_rom_base :: u64
  dm_rom_size :: u64
  dm_ram_base :: u64
  dm_ram_size :: u64
  dm_uart_base :: u64
  dm_uart_size :: u64
  dm_exit_base :: u64
  dm_exit_size :: u64

definition preset_map :: default_map where
  "preset_map = \<lparr>dm_rom_base = 0, dm_rom_size = 0x10000, dm_ram_base = 0x80000000, dm_ram_size = 0x08000000,
     dm_uart_base = 0x10000000, dm_uart_size = 0x100, dm_exit_base = 0x10001000, dm_exit_size = 4\<rparr>"

definition default_platform :: "default_map \<Rightarrow> platform_spec" where
  "default_platform m =
     \<lparr>sp_devices =
        [\<lparr>ds_id = ''rom'', ds_type = ''rom'', ds_properties = [(''size'', show_dec (unat (dm_rom_size m)))]\<rparr>,
         \<lparr>ds_id = ''ram'', ds_type = ''ram'', ds_properties = [(''size'', show_dec (unat (dm_ram_size m)))]\<rparr>,
         \<lparr>ds_id = ''uart'', ds_type = ''uart'', ds_properties = []\<rparr>,
         \<lparr>ds_id = ''exit'', ds_type = ''exit'', ds_properties = []\<rparr>],
      sp_mappings =
        [\<lparr>ms_device = ''rom'', ms_base = dm_rom_base m, ms_size = dm_rom_size m\<rparr>,
         \<lparr>ms_device = ''ram'', ms_base = dm_ram_base m, ms_size = dm_ram_size m\<rparr>,
         \<lparr>ms_device = ''uart'', ms_base = dm_uart_base m, ms_size = dm_uart_size m\<rparr>,
         \<lparr>ms_device = ''exit'', ms_base = dm_exit_base m, ms_size = dm_exit_size m\<rparr>],
      sp_connections = []\<rparr>"

section \<open>The Fuxi platform\<close>

definition create_clint :: device_factory where
  "create_clint c host =
     result_bind (config_number c ''divider'') (\<lambda>n. result_bind (clint_new n) (\<lambda>d. Inr (Some (DClint d))))"

definition create_plic :: device_factory where
  "create_plic c host =
     result_bind (config_number c ''sources'') (\<lambda>s.
     result_bind (config_number c ''contexts'') (\<lambda>t.
     result_bind (plic_new (unat (ucast s :: u32)) (unat (ucast t :: u32))) (\<lambda>d. Inr (Some (DPlic d)))))"

definition clint_type :: device_type where
  "clint_type = \<lparr>dt_options =
      [default_option\<lparr>op_name := ''divider'', op_kind := UnsignedOption, op_default_value := ''1'',
         op_help := ''CPU cycles per mtime tick'', op_minimum := 1\<rparr>],
     dt_create = Some create_clint, dt_image_option = []\<rparr>"

definition plic_type :: device_type where
  "plic_type = \<lparr>dt_options =
      [default_option\<lparr>op_name := ''sources'', op_kind := UnsignedOption, op_default_value := ''31'',
         op_help := ''External interrupt sources'', op_minimum := 1, op_maximum := 1023\<rparr>,
       default_option\<lparr>op_name := ''contexts'', op_kind := UnsignedOption, op_default_value := ''2'',
         op_help := ''Interrupt target contexts'', op_minimum := 1, op_maximum := 64\<rparr>],
     dt_create = Some create_plic, dt_image_option = []\<rparr>"

definition fuxi_register_devices :: "device_registry \<Rightarrow> device_registry result" where
  "fuxi_register_devices reg =
     result_bind (registry_add ''riscv-clint'' clint_type reg) (registry_add ''riscv-plic'' plic_type)"

text \<open>The addresses and the interrupt number come from a header the build generates.\<close>

record fuxi_config =
  fx_clint_base :: u64
  fx_clint_size :: u64
  fx_plic_base :: u64
  fx_plic_size :: u64
  fx_uart_irq :: nat

definition fuxi_defaults :: "fuxi_config \<Rightarrow> default_map \<Rightarrow> platform_spec result" where
  "fuxi_defaults fx m =
     (let spec = default_platform m;
          spec1 = spec\<lparr>sp_devices := sp_devices spec @
            [\<lparr>ds_id = ''clint'', ds_type = ''riscv-clint'', ds_properties = []\<rparr>,
             \<lparr>ds_id = ''plic'', ds_type = ''riscv-plic'', ds_properties = []\<rparr>]\<rparr>
      in result_bind (spec_map ''clint'' (fx_clint_base fx) (fx_clint_size fx) spec1) (\<lambda>spec2.
         result_bind (spec_map ''plic'' (fx_plic_base fx) (fx_plic_size fx) spec2) (\<lambda>spec3.
         Inr (spec3\<lparr>sp_connections := sp_connections spec3 @
           [\<lparr>cs_source = ''uart.irq'', cs_destination = ''plic.source'' @ show_dec (fx_uart_irq fx)\<rparr>]\<rparr>))))"

end
