(* ===== verification/Platform_Build.thy ===== *)
theory Platform_Build
  imports Platform_Spec
begin

text \<open>
  \<^verbatim>\<open>class Platform\<close> (\<^verbatim>\<open>src/platform.cpp\<close>): construction from a registry and a specification, sideband connections in
  topological order, and the cycle hooks. The devices are a heap in the order of the specification; a \<^verbatim>\<open>Device *\<close> is
  an index, and the maps keyed by it in \<^verbatim>\<open>connect\<close>, which are only looked up, are functions of the index. A
  constructor that throws leaves no platform, so construction is a \<open>result\<close>.
\<close>

record raw_image =
  ri_path :: string
  ri_address :: u64

record platform =
  pf_devices :: "nat string_map"
  pf_heap :: heap
  pf_order :: "nat list"
  pf_space :: address_space
  pf_images :: "raw_image list"
  pf_was_reset :: bool

definition empty_platform :: platform where
  "empty_platform = \<lparr>pf_devices = [], pf_heap = [], pf_order = [], pf_space = as_new, pf_images = [], pf_was_reset = False\<rparr>"

definition platform_device :: "platform \<Rightarrow> string \<Rightarrow> nat result" where
  "platform_device p name =
     (case map_of (pf_devices p) name of
        None \<Rightarrow> Inl (InvalidArgument (''unknown device instance: '' @ name))
      | Some i \<Rightarrow> Inr i)"

definition platform_output :: "platform \<Rightarrow> string \<Rightarrow> nat \<Rightarrow> signal_ref result" where
  "platform_output p name width =
     result_bind (endpoint name) (\<lambda>(ident, port).
     result_bind (platform_device p ident) (\<lambda>i.
       case dev_output port (pf_heap p ! i) of
         None \<Rightarrow> Inl (InvalidArgument (''unknown output: '' @ name))
       | Some s \<Rightarrow>
           if sig_width s \<noteq> width \<or> width = 0 \<or> width > 64
           then Inl (InvalidArgument (''signal width mismatch: '' @ name)) else Inr (i, port)))"

section \<open>Cycle hooks\<close>

definition settle_device :: "nat \<Rightarrow> heap \<Rightarrow> heap" where
  "settle_device i h = h[i := dev_settle (heap_signal h) (h ! i)]"

definition platform_settle :: "platform \<Rightarrow> platform" where
  "platform_settle p = p\<lparr>pf_heap := fold settle_device (pf_order p) (pf_heap p)\<rparr>"

definition platform_reset :: "platform \<Rightarrow> platform" where
  "platform_reset p =
     platform_settle (p\<lparr>pf_heap := fold (\<lambda>i h. h[i := dev_reset (h ! i)]) (pf_order p) (pf_heap p)\<rparr>)"

definition begin_cycle :: "bool \<Rightarrow> platform \<Rightarrow> platform" where
  "begin_cycle reset_active p =
     (if reset_active \<and> \<not> pf_was_reset p then platform_reset p else p)\<lparr>pf_was_reset := reset_active\<rparr>"

definition end_cycle :: "bool \<Rightarrow> platform \<Rightarrow> platform" where
  "end_cycle reset_active p =
     (if \<not> reset_active
      then platform_settle (p\<lparr>pf_heap := fold (\<lambda>i h. h[i := dev_tick (h ! i)]) (pf_order p) (pf_heap p)\<rparr>)
      else p)"

section \<open>Connections\<close>

record wiring =
  wi_platform :: platform
  wi_successors :: "nat \<Rightarrow> nat list"
  wi_indegree :: "nat \<Rightarrow> u32"

definition connect_one :: "connection_spec \<Rightarrow> wiring \<Rightarrow> wiring result" where
  "connect_one c w =
     (let p = wi_platform w
      in result_bind (endpoint (cs_source c)) (\<lambda>(src_id, src_port).
         result_bind (endpoint (cs_destination c)) (\<lambda>(dst_id, dst_port).
         result_bind (platform_device p src_id) (\<lambda>src.
         result_bind (platform_device p dst_id) (\<lambda>dst.
           case dev_input dst_port (pf_heap p ! dst) of
             None \<Rightarrow> Inl (InvalidArgument (''unknown input: '' @ cs_destination c))
           | Some input \<Rightarrow>
               if in_source input \<noteq> None
               then Inl (InvalidArgument (''input has multiple drivers: '' @ cs_destination c))
               else result_bind (platform_output p (cs_source c) (in_width input)) (\<lambda>source.
                      Inr (w\<lparr>wi_platform := p\<lparr>pf_heap :=
                               (pf_heap p)[dst := dev_set_input dst_port source (pf_heap p ! dst)]\<rparr>,
                             wi_successors := (wi_successors w)(src := wi_successors w src @ [dst]),
                             wi_indegree := (wi_indegree w)(dst := wi_indegree w dst + 1)\<rparr>)))))))"

text \<open>One edge of the worklist loop: \<^verbatim>\<open>if (--indegree[next] == 0) order_.push_back(next)\<close>.\<close>

definition visit_successor :: "nat \<Rightarrow> nat list \<times> (nat \<Rightarrow> u32) \<Rightarrow> nat list \<times> (nat \<Rightarrow> u32)" where
  "visit_successor successor st =
     (case st of (order, indegree) \<Rightarrow>
        let v = indegree successor - 1
        in (if v = 0 then order @ [successor] else order, indegree(successor := v)))"

text \<open>The loop over the growing vector \<^verbatim>\<open>order_\<close>. The fuel bounds the iterations; \<open>None\<close> would be a loop that runs longer
  than there are devices, which \<open>topological_loop_total\<close> excludes.\<close>

fun topological_loop :: "nat \<Rightarrow> (nat \<Rightarrow> nat list) \<Rightarrow> nat \<Rightarrow> nat list \<times> (nat \<Rightarrow> u32) \<Rightarrow> nat list option" where
  "topological_loop fuel successors i (order, indegree) =
     (if i \<ge> length order then Some order
      else case fuel of
             0 \<Rightarrow> None
           | Suc fuel' \<Rightarrow>
               topological_loop fuel' successors (Suc i)
                 (fold visit_successor (successors (order ! i)) (order, indegree)))"

declare topological_loop.simps [simp del]

definition platform_connect :: "platform_spec \<Rightarrow> platform \<Rightarrow> platform result" where
  "platform_connect spec p =
     result_bind (result_map (\<lambda>d. platform_device p (ds_id d)) (sp_devices spec)) (\<lambda>ids.
     result_bind (result_fold connect_one (sp_connections spec)
         \<lparr>wi_platform = p, wi_successors = (\<lambda>_. []), wi_indegree = (\<lambda>_. 0)\<rparr>) (\<lambda>w.
       case topological_loop (length ids) (wi_successors w) 0
              (pf_order p @ filter (\<lambda>i. wi_indegree w i = 0) ids, wi_indegree w) of
         None \<Rightarrow> Inl (LogicError ''topological order'')
       | Some order \<Rightarrow>
           if length order \<noteq> length (pf_devices (wi_platform w))
           then Inl (InvalidArgument ''sideband connection cycle'')
           else Inr ((wi_platform w)\<lparr>pf_order := order\<rparr>)))"

section \<open>Construction\<close>

definition add_config ::
  "device_registry \<Rightarrow> device_spec \<Rightarrow> device_config string_map \<Rightarrow> device_config string_map result" where
  "add_config reg d configs =
     result_bind (validate_name (ds_id d)) (\<lambda>_.
     result_bind (configure reg (ds_type d) (ds_properties d)) (\<lambda>c.
       case smap_emplace (ds_id d) c configs of
         (configs', inserted) \<Rightarrow>
           if \<not> inserted then Inl (InvalidArgument (''duplicate device instance: '' @ ds_id d)) else Inr configs'))"

text \<open>\<^verbatim>\<open>configs.at\<close> and a call through an empty \<^verbatim>\<open>std::function\<close> throw; neither happens for a registered type.\<close>

definition create_device ::
  "host_services \<Rightarrow> device_registry \<Rightarrow> device_config string_map \<Rightarrow> device_spec \<Rightarrow> platform \<Rightarrow> platform result" where
  "create_device host reg configs d p =
     result_bind (registry_type reg (ds_type d)) (\<lambda>type.
       case (map_of configs (ds_id d), dt_create type) of
         (Some c, Some create) \<Rightarrow>
           result_bind (create c host) (\<lambda>created.
             case created of
               None \<Rightarrow> Inl (InvalidArgument (''factory returned null: '' @ ds_id d))
             | Some dev \<Rightarrow>
                 Inr (p\<lparr>pf_devices := fst (smap_emplace (ds_id d) (length (pf_heap p)) (pf_devices p)),
                        pf_heap := pf_heap p @ [dev]\<rparr>))
       | (None, _) \<Rightarrow> Inl (OutOfRange ''map::at'')
       | (_, None) \<Rightarrow> Inl (RuntimeError ''bad_function_call''))"

definition add_mapping :: "nat \<Rightarrow> mapping_spec \<Rightarrow> platform \<Rightarrow> platform result" where
  "add_mapping address_bits m p =
     result_bind (throw_if (address_bits = 32 \<and> (ms_base m \<ge> 0x100000000 \<or> ms_size m > 0x100000000 - ms_base m))
       (InvalidArgument (''mapping does not fit 32-bit address space: '' @ ms_device m))) (\<lambda>_.
     result_bind (platform_device p (ms_device m)) (\<lambda>dev.
     result_bind (as_map (ms_base m) (ms_size m) dev (ms_device m) (pf_space p)) (\<lambda>space.
     Inr (p\<lparr>pf_space := space\<rparr>))))"

definition add_image ::
  "device_registry \<Rightarrow> device_config string_map \<Rightarrow> platform_spec \<Rightarrow> device_spec \<Rightarrow> platform \<Rightarrow> platform result" where
  "add_image reg configs spec d p =
     result_bind (registry_type reg (ds_type d)) (\<lambda>type.
       let key = dt_image_option type
       in if key = [] then Inr p
          else case map_of configs (ds_id d) of
                 None \<Rightarrow> Inl (OutOfRange ''map::at'')
               | Some c \<Rightarrow>
                   result_bind (config_text c key) (\<lambda>path.
                     if path = [] then Inr p
                     else (case filter (\<lambda>m. ms_device m = ds_id d) (sp_mappings spec) of
                             [m] \<Rightarrow> Inr (p\<lparr>pf_images := pf_images p @ [\<lparr>ri_path = path, ri_address = ms_base m\<rparr>]\<rparr>)
                           | _ \<Rightarrow> Inl (InvalidArgument (''image property requires exactly one mapping: '' @ ds_id d)))))"

definition platform_new :: "host_services \<Rightarrow> device_registry \<Rightarrow> platform_spec \<Rightarrow> nat \<Rightarrow> platform result" where
  "platform_new host reg spec address_bits =
     result_bind (throw_if (address_bits \<noteq> 32 \<and> address_bits \<noteq> 64) (InvalidArgument ''invalid address width'')) (\<lambda>_.
     result_bind (result_fold (add_config reg) (sp_devices spec) []) (\<lambda>configs.
     result_bind (result_fold (create_device host reg configs) (sp_devices spec) empty_platform) (\<lambda>p1.
     result_bind (result_fold (add_mapping address_bits) (sp_mappings spec) p1) (\<lambda>p2.
     let p3 = p2\<lparr>pf_space := as_freeze (pf_space p2)\<rparr>
     in result_bind (result_fold (add_image reg configs spec) (sp_devices spec) p3) (\<lambda>p4.
        result_bind (platform_connect spec p4) (\<lambda>p5.
        Inr (platform_reset p5)))))))"

section \<open>Sideband binding of the Fuxi platform\<close>

record sideband =
  sb_msip :: signal_ref
  sb_mtip :: signal_ref
  sb_meip :: signal_ref
  sb_seip :: signal_ref
  sb_time :: signal_ref

definition sideband_new :: "platform \<Rightarrow> sideband result" where
  "sideband_new p =
     result_bind (platform_output p ''clint.msip'' 1) (\<lambda>msip.
     result_bind (platform_output p ''clint.mtip'' 1) (\<lambda>mtip.
     result_bind (platform_output p ''plic.context0'' 1) (\<lambda>meip.
     result_bind (platform_output p ''plic.context1'' 1) (\<lambda>seip.
     result_bind (platform_output p ''clint.mtime'' 64) (\<lambda>time.
     Inr \<lparr>sb_msip = msip, sb_mtip = mtip, sb_meip = meip, sb_seip = seip, sb_time = time\<rparr>)))))"

text \<open>\<^verbatim>\<open>drive\<close>: the values assigned to the pins of the design, in the order of the assignments.\<close>

definition sideband_drive :: "sideband \<Rightarrow> heap \<Rightarrow> u64 list" where
  "sideband_drive s h = map (heap_signal h) [sb_msip s, sb_mtip s, sb_meip s, sb_seip s, sb_time s]"

end
