(* ===== verification/Platform_Config.thy ===== *)
theory Platform_Config
  imports Platform_Build
begin

text \<open>
  Facts about the configuration layer: ordered string maps satisfy the contract \<open>ordered_map\<close>, printing and parsing of
  unsigned numbers are inverse, and a configuration that \<^verbatim>\<open>configure\<close> accepts has exactly the options of the schema,
  each with a valid value.
\<close>

section \<open>The contract of the maps\<close>

locale ordered_map =
  fixes invar :: "'m \<Rightarrow> bool" and empty :: 'm and lookup :: "'m \<Rightarrow> 'k \<Rightarrow> 'v option"
    and emplace :: "'k \<Rightarrow> 'v \<Rightarrow> 'm \<Rightarrow> 'm \<times> bool" and assign :: "'k \<Rightarrow> 'v \<Rightarrow> 'm \<Rightarrow> 'm"
  assumes invar_empty: "invar empty" and lookup_empty: "lookup empty k = None"
    and invar_emplace: "invar m \<Longrightarrow> invar (fst (emplace k v m))"
    and inserted: "invar m \<Longrightarrow> snd (emplace k v m) \<longleftrightarrow> lookup m k = None"
    and lookup_emplace: "invar m \<Longrightarrow> lookup (fst (emplace k v m)) = (if lookup m k = None then (lookup m)(k \<mapsto> v) else lookup m)"
    and invar_assign: "invar m \<Longrightarrow> invar (assign k v m)"
    and lookup_assign: "invar m \<Longrightarrow> lookup (assign k v m) = (lookup m)(k \<mapsto> v)"
begin

text \<open>Filling a map with distinct new keys.\<close>

lemma emplace_all:
  fixes f :: "'x \<Rightarrow> 'k" and g :: "'x \<Rightarrow> 'v"
  assumes "invar m" and "distinct (map f xs)" and "\<forall>x\<in>set xs. lookup m (f x) = None"
  defines "m' \<equiv> fold (\<lambda>x m. fst (emplace (f x) (g x) m)) xs m"
  shows "invar m' \<and> (\<forall>x\<in>set xs. lookup m' (f x) = Some (g x)) \<and> (\<forall>k. k \<notin> f ` set xs \<longrightarrow> lookup m' k = lookup m k)"
  using assms(1-3) unfolding m'_def
proof (induction xs arbitrary: m)
  case (Cons x xs)
  let ?m = "fst (emplace (f x) (g x) m)"
  have l: "lookup ?m = (lookup m)(f x \<mapsto> g x)" using Cons.prems lookup_emplace by simp
  have "invar ?m" "distinct (map f xs)" "\<forall>y\<in>set xs. lookup ?m (f y) = None"
    using Cons.prems invar_emplace by (auto simp: l) (metis image_eqI)
  note ih = Cons.IH [OF this]
  have "f x \<notin> f ` set xs" using Cons.prems(2) by auto
  then show ?case using ih by (auto simp: l)
qed simp

end

lemma smap_emplace_keys: "set (map fst (fst (smap_emplace k v m))) = insert k (set (map fst m))"
proof (induction k v m rule: smap_emplace.induct)
  case (2 k v k' v' m)
  obtain m' b where "smap_emplace k v m = (m', b)" by fastforce
  then show ?case using 2 by (simp add: insert_commute)
qed simp

lemma smap_assign_keys: "set (map fst (smap_assign k v m)) = insert k (set (map fst m))"
  by (induction k v m rule: smap_assign.induct) auto

lemma smap_below: "smap_wf ((k', v') # m) \<Longrightarrow> k < k' \<Longrightarrow> map_of ((k', v') # m) k = None"
proof -
  assume a: "smap_wf ((k', v') # m)" "k < k'"
  have "k \<notin> set (map fst m)" using a by (auto simp: smap_wf_def dest: order_less_trans)
  then show ?thesis using a(2) by (auto simp: map_of_eq_None_iff)
qed

lemma smap_emplace_spec:
  assumes "smap_wf m"
  shows "smap_wf (fst (smap_emplace k v m)) \<and> (snd (smap_emplace k v m) \<longleftrightarrow> map_of m k = None) \<and>
    map_of (fst (smap_emplace k v m)) = (if map_of m k = None then (map_of m)(k \<mapsto> v) else map_of m)"
  using assms
proof (induction k v m rule: smap_emplace.induct)
  case (2 k v k' v' m)
  show ?case
  proof (cases "k = k' \<or> k < k'")
    case True
    then show ?thesis using 2 smap_below [OF 2(2), of k] by (auto simp: smap_wf_def)
  next
    case False
    obtain m' b where e: "smap_emplace k v m = (m', b)" by fastforce
    have w: "smap_wf m" using 2(2) by (simp add: smap_wf_def)
    have keys: "set (map fst m') = insert k (set (map fst m))" using smap_emplace_keys [of k v m] e by simp
    have "smap_wf ((k', v') # m')" using 2 False w e keys by (auto simp: smap_wf_def)
    then show ?thesis using 2 False w e by (auto simp: fun_upd_twist)
  qed
qed (simp add: smap_wf_def)

lemma smap_assign_spec:
  "smap_wf m \<Longrightarrow> smap_wf (smap_assign k v m) \<and> map_of (smap_assign k v m) = (map_of m)(k \<mapsto> v)"
proof (induction k v m rule: smap_assign.induct)
  case (2 k v k' v' m)
  then show ?case
    using smap_assign_keys [of k v m] by (auto simp: smap_wf_def fun_upd_twist)
qed (simp add: smap_wf_def)

interpretation sm: ordered_map smap_wf "[]" map_of smap_emplace smap_assign
  by unfold_locales (simp_all add: smap_emplace_spec smap_assign_spec, simp add: smap_wf_def)

section \<open>Numbers\<close>

lemma digit_char_decimal: "d < 10 \<Longrightarrow> digit_char d \<in> set ''0123456789''"
proof -
  have "\<forall>d\<in>set [0..<10]. digit_char d \<in> set ''0123456789''" by code_simp
  then show "d < 10 \<Longrightarrow> digit_char d \<in> set ''0123456789''" by simp
qed

lemma show_dec_digits: "set (show_dec n) \<subseteq> set ''0123456789''"
  unfolding show_dec_def
proof (induction n rule: less_induct)
  case (less n)
  show ?case
  proof (cases "n < 10")
    case True
    then show ?thesis using digit_char_decimal by (subst show_base.simps) auto
  next
    case False
    then have "set (show_base 10 (n div 10)) \<subseteq> set ''0123456789''" using less by simp
    then show ?thesis using False digit_char_decimal [of "n mod 10"] by (subst show_base.simps) auto
  qed
qed

lemma show_dec_not_hex: "take 2 (show_dec n) \<noteq> ''0x''" "take 2 (show_dec n) \<noteq> ''0X''"
proof -
  have "CHR ''x'' \<notin> set ''0123456789''" "CHR ''X'' \<notin> set ''0123456789''" by code_simp+
  then have "CHR ''x'' \<notin> set (take 2 (show_dec n))" "CHR ''X'' \<notin> set (take 2 (show_dec n))"
    using show_dec_digits [of n] set_take_subset [of 2 "show_dec n"] by blast+
  then show "take 2 (show_dec n) \<noteq> ''0x''" "take 2 (show_dec n) \<noteq> ''0X''" by auto
qed

lemma parse_show_dec: "n < 2 ^ 64 \<Longrightarrow> parse_unsigned (show_dec n) = Inr (of_nat n)"
  using from_chars_show_base [of 10 n 64] show_dec_not_hex [of n]
  by (simp add: parse_unsigned_def Let_def show_dec_def)

lemma parse_show_hex: "n < 2 ^ 64 \<Longrightarrow> parse_unsigned (''0x'' @ show_hex n) = Inr (of_nat n)"
  using from_chars_show_base [of 16 n 64] by (simp add: parse_unsigned_def Let_def show_hex_def)

text \<open>Numbers survive printing and parsing. Every 64-bit value printed in decimal, as \<^verbatim>\<open>default_platform\<close> does with
  the memory sizes, or in hexadecimal with its prefix is read back by \<^verbatim>\<open>parse_unsigned\<close> exactly.\<close>

theorem parse_unsigned_roundtrip:
  "parse_unsigned (show_dec (unat w)) = Inr w \<and> parse_unsigned (''0x'' @ show_hex (unat w)) = Inr w"
  using parse_show_dec [of "unat w"] parse_show_hex [of "unat w"] unat_u64_less [of w] by simp

section \<open>Schemas\<close>

definition type_ok :: "device_type \<Rightarrow> bool" where
  "type_ok t \<longleftrightarrow> dt_create t \<noteq> None \<and> distinct (map op_name (dt_options t)) \<and>
     (dt_image_option t \<noteq> [] \<longrightarrow> (\<exists>opt\<in>set (dt_options t). op_name opt = dt_image_option t \<and> op_kind opt = StringOption))"

definition registry_ok :: "device_registry \<Rightarrow> bool" where
  "registry_ok reg \<longleftrightarrow> smap_wf reg \<and> (\<forall>name t. map_of reg name = Some t \<longrightarrow> type_ok t)"

lemma check_option_Inr: "check_option opt names = Inr names' \<Longrightarrow> op_name opt \<notin> set names \<and> names' = op_name opt # names"
  by (auto simp: check_option_def)

lemma check_option_fold:
  "result_fold check_option opts names = Inr names' \<Longrightarrow> distinct names \<Longrightarrow>
   distinct (map op_name opts) \<and> set (map op_name opts) \<inter> set names = {} \<and> distinct names'"
proof (induction opts arbitrary: names)
  case (Cons opt opts)
  then have n: "op_name opt \<notin> set names" "result_fold check_option opts (op_name opt # names) = Inr names'"
    using check_option_Inr by (auto simp del: result_bind_simps)
  then show ?case using Cons.IH [OF n(2)] Cons.prems(2) by auto
qed simp

lemma registry_add_ok:
  assumes "registry_ok reg" and "registry_add name t reg = Inr reg'"
  shows "registry_ok reg'" and "map_of reg' = (map_of reg)(name \<mapsto> t)" and "map_of reg name = None"
proof -
  have w: "smap_wf reg" using assms(1) by (simp add: registry_ok_def)
  obtain names where names: "result_fold check_option (dt_options t) [] = Inr names" and create: "dt_create t \<noteq> None"
    and img: "dt_image_option t \<noteq> [] \<longrightarrow>
      \<not> (case find (\<lambda>opt. op_name opt = dt_image_option t) (dt_options t) of None \<Rightarrow> True | Some opt \<Rightarrow> op_kind opt \<noteq> StringOption)"
    and e: "snd (smap_emplace name t reg)" "reg' = fst (smap_emplace name t reg)"
    using assms(2) unfolding registry_add_def by (auto split: prod.splits if_splits)
  have "type_ok t"
    using check_option_fold [OF names] create img
    by (auto simp: type_ok_def find_Some_iff split: option.splits)
  moreover show n: "map_of reg name = None" using e(1) sm.inserted [OF w] by simp
  moreover show l: "map_of reg' = (map_of reg)(name \<mapsto> t)" using sm.lookup_emplace [OF w, of name t] n e by simp
  ultimately show "registry_ok reg'"
    using assms(1) sm.invar_emplace [OF w] e(2) by (auto simp: registry_ok_def)
qed

section \<open>Validated configurations\<close>

lemma result_fold_emplace:
  "result_fold (\<lambda>opt config. result_bind (check opt) (\<lambda>_. Inr (fst (smap_emplace (f opt) (g opt) config)))) opts c = Inr c' \<longleftrightarrow>
    (\<forall>opt\<in>set opts. check opt = Inr ()) \<and> c' = fold (\<lambda>opt c. fst (smap_emplace (f opt) (g opt) c)) opts c"
  by (induction opts arbitrary: c) (auto simp: old.unit.exhaust)

definition value_ok :: "device_option \<Rightarrow> string \<Rightarrow> bool" where
  "value_ok opt v \<longleftrightarrow>
     (op_kind opt = UnsignedOption \<longrightarrow> (\<exists>n. parse_unsigned v = Inr n \<and> op_minimum opt \<le> n \<and> n \<le> op_maximum opt)) \<and>
     (op_kind opt = BooleanOption \<longrightarrow> v = ''true'' \<or> v = ''false'')"

lemma check_value_iff: "check_value opt v = Inr () \<longleftrightarrow> value_ok opt v"
  by (auto simp: check_value_def value_ok_def not_less)

lemma configure_iff:
  assumes "registry_ok reg" and "map_of reg name = Some t"
  shows "configure reg name props = Inr c \<longleftrightarrow>
    fst ` set props \<subseteq> op_name ` set (dt_options t) \<and> (\<forall>opt\<in>set (dt_options t). value_ok opt (option_value props opt)) \<and>
    c = fold (\<lambda>opt c. fst (smap_emplace (op_name opt) (option_value props opt) c)) (dt_options t) []"
proof -
  have keys: "result_all (\<lambda>(key, _). throw_if (\<not> list_ex (\<lambda>opt. op_name opt = key) (dt_options t)) (e key)) props = Inr () \<longleftrightarrow>
      fst ` set props \<subseteq> op_name ` set (dt_options t)" for e
    by (force simp: result_all_Inr_iff list_ex_iff)
  show ?thesis
    using assms(2) by (simp add: configure_def registry_type_def Let_def keys result_fold_emplace check_value_iff)
qed

lemma configure_text:
  assumes "registry_ok reg" and "map_of reg name = Some t" and "configure reg name props = Inr c" and "opt \<in> set (dt_options t)"
  shows "config_text c (op_name opt) = Inr (option_value props opt)" and "value_ok opt (option_value props opt)"
proof -
  note i = assms(3) [unfolded configure_iff [OF assms(1,2)]]
  have "distinct (map op_name (dt_options t))" using assms(1,2) by (auto simp: registry_ok_def type_ok_def)
  then have "map_of c (op_name opt) = Some (option_value props opt)"
    using sm.emplace_all [OF sm.invar_empty, of op_name "dt_options t" "option_value props"] i assms(4) by auto
  then show "config_text c (op_name opt) = Inr (option_value props opt)" by (simp add: config_text_def)
  show "value_ok opt (option_value props opt)" using i assms(4) by blast
qed

text \<open>C27: devices receive validated values. \<^verbatim>\<open>configure\<close> accepts a set of properties exactly when every key is an option of
  the type and every option's value, given or default, is valid; and then reading any option of the type
  from the configuration cannot throw: it returns the given value or the default, unsigned options parse to a
  number within their bounds, and boolean options are \<^verbatim>\<open>true\<close> or \<^verbatim>\<open>false\<close>.\<close>

theorem configure_validates:
  assumes "registry_ok reg" and "map_of reg name = Some t"
  shows "((\<exists>c. configure reg name props = Inr c) \<longleftrightarrow> fst ` set props \<subseteq> op_name ` set (dt_options t) \<and>
      (\<forall>opt\<in>set (dt_options t). value_ok opt (option_value props opt))) \<and>
    (\<forall>c opt. configure reg name props = Inr c \<longrightarrow> opt \<in> set (dt_options t) \<longrightarrow>
      config_text c (op_name opt) = Inr (option_value props opt) \<and>
      (op_kind opt = UnsignedOption \<longrightarrow>
        (\<exists>n. config_number c (op_name opt) = Inr n \<and> op_minimum opt \<le> n \<and> n \<le> op_maximum opt)) \<and>
      (op_kind opt = BooleanOption \<longrightarrow> config_boolean c (op_name opt) = Inr (option_value props opt \<noteq> ''false'')))"
proof (intro conjI allI impI)
  show "(\<exists>c. configure reg name props = Inr c) \<longleftrightarrow> fst ` set props \<subseteq> op_name ` set (dt_options t) \<and>
      (\<forall>opt\<in>set (dt_options t). value_ok opt (option_value props opt))"
    by (auto simp: configure_iff [OF assms])
  fix c opt
  assume c: "configure reg name props = Inr c" and o: "opt \<in> set (dt_options t)"
  note ok = configure_text(2) [OF assms c o]
  show t: "config_text c (op_name opt) = Inr (option_value props opt)" by (rule configure_text(1) [OF assms c o])
  show "\<exists>n. config_number c (op_name opt) = Inr n \<and> op_minimum opt \<le> n \<and> n \<le> op_maximum opt" if "op_kind opt = UnsignedOption"
    using ok that by (simp add: config_number_def t value_ok_def)
  show "config_boolean c (op_name opt) = Inr (option_value props opt \<noteq> ''false'')" if "op_kind opt = BooleanOption"
    using ok that by (auto simp: config_boolean_def t value_ok_def)
qed

lemma rom_registry: "registry_add ''rom'' rom_type [] = Inr [(''rom'', rom_type)]"
proof -
  have "result_fold check_option (dt_options rom_type) [] = Inr [''image'', ''size'']" by code_simp
  moreover have "validate_name ''rom'' = Inr ()" by code_simp
  ultimately show ?thesis
    by (simp add: registry_add_def) (simp add: rom_type_def memory_options_def default_option_def)
qed

theorem configure_validates_witness:
  "\<exists>c. configure [(''rom'', rom_type)] ''rom'' [(''size'', ''0x20'')] = Inr c \<and> (\<exists>n. config_number c ''size'' = Inr n \<and> 1 \<le> n)"
proof -
  let ?props = "[(''size'', ''0x20'')]"
  have "registry_ok []" by (simp add: registry_ok_def smap_wf_def)
  then have ok: "registry_ok [(''rom'', rom_type)]" by (rule registry_add_ok(1) [OF _ rom_registry])
  have t: "map_of [(''rom'', rom_type)] ''rom'' = Some rom_type" by simp
  have "parse_unsigned ''0x20'' = Inr 32" by (simp add: parse_unsigned_def from_chars_def digit_value_def)
  then have h: "fst ` set ?props \<subseteq> op_name ` set (dt_options rom_type) \<and>
      (\<forall>opt\<in>set (dt_options rom_type). value_ok opt (option_value ?props opt))"
    by (simp add: rom_type_def memory_options_def default_option_def value_ok_def option_value_def)
  obtain c where c: "configure [(''rom'', rom_type)] ''rom'' ?props = Inr c"
    using configure_validates [OF ok t, of ?props, THEN conjunct1, THEN iffD2, OF h] by (elim exE)
  have m: "hd memory_options \<in> set (dt_options rom_type)" by (simp add: rom_type_def memory_options_def)
  have "op_name (hd memory_options) = ''size''" "op_kind (hd memory_options) = UnsignedOption" "op_minimum (hd memory_options) = 1"
    by (simp_all add: memory_options_def default_option_def)
  then have "\<exists>n. config_number c ''size'' = Inr n \<and> 1 \<le> n"
    using configure_validates [OF ok t, of ?props, THEN conjunct2, rule_format, OF c m] by auto
  then show ?thesis using c by blast
qed

end
