(* ===== verification/Platform_Order.thy ===== *)
theory Platform_Order
  imports Platform_Config
begin

text \<open>
  The worklist loop of \<^verbatim>\<open>Platform::connect\<close> computes a topological order. The edges of the sideband graph are pairs of
  device indices in the order of the connections. The loop invariant counts, for every device, the edges whose
  source has not been processed yet; a device is in the vector exactly when that count is zero.
\<close>

section \<open>Processing the successors of one device\<close>

text \<open>\<open>counts n order indegree c\<close>: for the \<open>n\<close> devices, \<open>indegree\<close> holds the counts \<open>c\<close> and \<open>order\<close> lists the devices of count
  zero, each once.\<close>

definition counts :: "nat \<Rightarrow> nat list \<Rightarrow> (nat \<Rightarrow> u32) \<Rightarrow> (nat \<Rightarrow> nat) \<Rightarrow> bool" where
  "counts n order indegree c \<longleftrightarrow>
     distinct order \<and> set order = {v. v < n \<and> c v = 0} \<and> (\<forall>v<n. c v < 2 ^ 32 \<and> indegree v = of_nat (c v))"

lemma of_nat_eq_0_u32: "m < 2 ^ 32 \<Longrightarrow> (of_nat m :: u32) = 0 \<longleftrightarrow> m = 0"
  using unat_of_nat_exact [of m, where 'a = 32] by (auto simp flip: unat_eq_0)

lemma visit_step:
  assumes "counts n order indegree c" and "s < n" and "0 < c s"
  shows "\<exists>new. visit_successor s (order, indegree) = (order @ new, indegree(s := of_nat (c s - 1))) \<and>
    counts n (order @ new) (indegree(s := of_nat (c s - 1))) (c(s := c s - 1))"
proof -
  obtain m where m: "c s = Suc m" using assms(3) gr0_implies_Suc by blast
  have v: "indegree s - 1 = of_nat (c s - 1)" using assms m by (simp add: counts_def)
  have lt: "c s - 1 < 2 ^ 32" and no: "s \<notin> set order" using assms by (auto simp: counts_def)
  have z: "indegree s - 1 = 0 \<longleftrightarrow> c s - 1 = 0" unfolding v by (rule of_nat_eq_0_u32 [OF lt])
  have "counts n (order @ (if c s - 1 = 0 then [s] else [])) (indegree(s := of_nat (c s - 1))) (c(s := c s - 1))"
    using assms no lt by (auto simp: counts_def m)
  moreover have "visit_successor s (order, indegree) = (order @ (if c s - 1 = 0 then [s] else []), indegree(s := of_nat (c s - 1)))"
    unfolding visit_successor_def Let_def prod.case z unfolding v by simp
  ultimately show ?thesis by blast
qed

lemma visit_all:
  assumes "counts n order indegree c" and "set vs \<subseteq> {..<n}" and "\<forall>v. count_list vs v \<le> c v"
  shows "\<exists>new indegree'. fold visit_successor vs (order, indegree) = (order @ new, indegree') \<and>
    counts n (order @ new) indegree' (\<lambda>v. c v - count_list vs v)"
  using assms
proof (induction vs arbitrary: order indegree c)
  case Nil
  then show ?case by auto
next
  case (Cons s vs)
  have s: "s < n" "0 < c s" using Cons.prems(2) Cons.prems(3) [rule_format, of s] by auto
  obtain new where st: "visit_successor s (order, indegree) = (order @ new, indegree(s := of_nat (c s - 1)))"
    and cn: "counts n (order @ new) (indegree(s := of_nat (c s - 1))) (c(s := c s - 1))"
    using visit_step [OF Cons.prems(1) s] by blast
  have le: "\<forall>v. count_list vs v \<le> (c(s := c s - 1)) v" using Cons.prems(3)
    by (auto simp: fun_upd_def split: if_splits)
  have eq: "(\<lambda>v. (c(s := c s - 1)) v - count_list vs v) = (\<lambda>v. c v - count_list (s # vs) v)" by auto
  obtain new' ind' where "fold visit_successor vs (order @ new, indegree(s := of_nat (c s - 1))) = ((order @ new) @ new', ind')"
    "counts n ((order @ new) @ new') ind' (\<lambda>v. c v - count_list (s # vs) v)"
  proof -
    have "set vs \<subseteq> {..<n}" using Cons.prems(2) by simp
    from Cons.IH [OF cn this le, unfolded eq] show ?thesis using that by blast
  qed
  then show ?case using st by (intro exI [of _ "new @ new'"] exI [of _ ind']) simp
qed

section \<open>The loop\<close>

text \<open>The edges whose source is not in \<open>done_devices\<close>.\<close>

definition remaining_edges :: "(nat \<times> nat) list \<Rightarrow> nat set \<Rightarrow> nat \<Rightarrow> nat" where
  "remaining_edges E D v = length (filter (\<lambda>(a, b). a \<notin> D \<and> b = v) E)"

definition edge_successors :: "(nat \<times> nat) list \<Rightarrow> nat \<Rightarrow> nat list" where
  "edge_successors E u = map snd (filter (\<lambda>e. fst e = u) E)"

lemma remaining_edges_0: "remaining_edges E D v = 0 \<longleftrightarrow> (\<forall>u. (u, v) \<in> set E \<longrightarrow> u \<in> D)"
  by (auto simp: remaining_edges_def filter_empty_conv)

lemma remaining_edges_insert:
  assumes "u \<notin> D"
  shows "remaining_edges E (insert u D) v = remaining_edges E D v - count_list (edge_successors E u) v"
    and "count_list (edge_successors E u) v \<le> remaining_edges E D v"
proof -
  have "remaining_edges E D v = remaining_edges E (insert u D) v + count_list (edge_successors E u) v"
    using assms by (induction E) (auto simp: remaining_edges_def edge_successors_def split: prod.splits)
  then show "remaining_edges E (insert u D) v = remaining_edges E D v - count_list (edge_successors E u) v"
    and "count_list (edge_successors E u) v \<le> remaining_edges E D v" by simp_all
qed

text \<open>Every device in the vector stands behind the sources of its edges.\<close>

definition topological :: "(nat \<times> nat) list \<Rightarrow> nat list \<Rightarrow> bool" where
  "topological E order \<longleftrightarrow> (\<forall>j<length order. \<forall>u. (u, order ! j) \<in> set E \<longrightarrow> u \<in> set (take j order))"

lemma topological_append:
  assumes "topological E order" and "\<forall>v\<in>set new. \<forall>u. (u, v) \<in> set E \<longrightarrow> u \<in> set order"
  shows "topological E (order @ new)"
  unfolding topological_def
proof (intro allI impI)
  fix j u
  assume j: "j < length (order @ new)" and e: "(u, (order @ new) ! j) \<in> set E"
  show "u \<in> set (take j (order @ new))"
  proof (cases "j < length order")
    case True
    then show ?thesis using assms(1) e by (simp add: topological_def nth_append)
  next
    case False
    then have "(order @ new) ! j \<in> set new" using j by (simp add: nth_append)
    then show ?thesis using assms(2) e False by auto
  qed
qed

lemma topological_loop_total:
  assumes "\<forall>(u, v)\<in>set E. u < n \<and> v < n"
    and "counts n order indegree (remaining_edges E (set (take i order)))" and "topological E order"
    and "n \<le> fuel + i" and "i \<le> length order"
  shows "\<exists>order'. topological_loop fuel (edge_successors E) i (order, indegree) = Some order' \<and> distinct order' \<and>
    topological E order' \<and> set order' = {v. v < n \<and> (\<forall>u. (u, v) \<in> set E \<longrightarrow> u \<in> set order')}"
  using assms(2-5)
proof (induction fuel arbitrary: i order indegree)
  case 0
  have "length order \<le> n" using 0(1) by (metis (no_types, lifting) counts_def card_Collect_less_nat card_mono distinct_card finite_Collect_less_nat mem_Collect_eq subsetI)
  then have "i \<ge> length order" using 0 by simp
  then show ?case using 0 by (subst topological_loop.simps) (auto simp: counts_def remaining_edges_0)
next
  case (Suc fuel)
  show ?case
  proof (cases "i \<ge> length order")
    case True
    then show ?thesis using Suc.prems by (subst topological_loop.simps) (auto simp: counts_def remaining_edges_0)
  next
    case False
    let ?D = "set (take i order)" and ?x = "order ! i"
    have d: "distinct order" using Suc.prems(1) by (simp add: counts_def)
    then have x: "?x \<notin> ?D" using False by (auto simp: in_set_conv_nth nth_eq_iff_index_eq)
    have D: "set (take (Suc i) order) = insert ?x ?D" using False by (simp add: take_Suc_conv_app_nth)
    obtain new ind' where f: "fold visit_successor (edge_successors E ?x) (order, indegree) = (order @ new, ind')"
      and c: "counts n (order @ new) ind' (\<lambda>v. remaining_edges E ?D v - count_list (edge_successors E ?x) v)"
      using visit_all [OF Suc.prems(1), of "edge_successors E ?x"] remaining_edges_insert(2) [OF x] assms(1)
      by (force simp: edge_successors_def)
    have c': "counts n (order @ new) ind' (remaining_edges E (set (take (Suc i) (order @ new))))"
    proof -
      have "remaining_edges E (set (take (Suc i) (order @ new))) = (\<lambda>v. remaining_edges E ?D v - count_list (edge_successors E ?x) v)"
        using False by (intro ext) (simp add: D remaining_edges_insert(1) [OF x])
      then show ?thesis using c by simp
    qed
    have "\<forall>v\<in>set new. \<forall>u. (u, v) \<in> set E \<longrightarrow> u \<in> set order"
    proof (intro ballI allI impI)
      fix u v
      assume v: "v \<in> set new" and e: "(u, v) \<in> set E"
      then have "remaining_edges E (set (take (Suc i) (order @ new))) v = 0" using c' by (auto simp: counts_def)
      then have "u \<in> set (take (Suc i) order)" using e False by (simp add: remaining_edges_0)
      then show "u \<in> set order" by (rule in_set_takeD)
    qed
    then have t: "topological E (order @ new)" by (rule topological_append [OF Suc.prems(2)])
    have "\<exists>order'. topological_loop fuel (edge_successors E) (Suc i) (order @ new, ind') = Some order' \<and> distinct order' \<and>
      topological E order' \<and> set order' = {v. v < n \<and> (\<forall>u. (u, v) \<in> set E \<longrightarrow> u \<in> set order')}"
      using Suc.prems(3) False by (intro Suc.IH [OF c' t]) simp_all
    then show ?thesis using False f by (subst topological_loop.simps) simp
  qed
qed

section \<open>Complete orders and cycles\<close>

lemma topological_acyclic:
  assumes "topological E order" and "distinct order" and "snd ` set E \<subseteq> set order"
  shows "acyclic (set E)"
proof -
  define rank where "rank v = (THE j. j < length order \<and> order ! j = v)" for v
  have rank: "rank (order ! j) = j" if "j < length order" for j
    using that assms(2) unfolding rank_def by (auto simp: nth_eq_iff_index_eq)
  have "set E \<subseteq> measure rank"
  proof
    fix e
    assume e: "e \<in> set E"
    obtain u v where uv: "e = (u, v)" by fastforce
    then have "v \<in> set order" using e assms(3) by force
    then obtain j where j: "j < length order" "order ! j = v" by (auto simp: in_set_conv_nth)
    then have "u \<in> set (take j order)" using assms(1) e uv by (auto simp: topological_def)
    then obtain k where "k < j" "order ! k = u" using j(1) by (auto simp: in_set_conv_nth)
    then show "e \<in> measure rank" using rank [of j] rank [of k] j uv by simp
  qed
  then show ?thesis using wf_acyclic [OF wf_measure] acyclic_subset by blast
qed

lemma complete_iff_acyclic:
  assumes "\<forall>(u, v)\<in>set E. u < n \<and> v < n" and "topological E order" and "distinct order"
    and "set order = {v. v < n \<and> (\<forall>u. (u, v) \<in> set E \<longrightarrow> u \<in> set order)}"
  shows "length order = n \<longleftrightarrow> acyclic (set E)"
proof
  assume "length order = n"
  then have "card (set order) = card {..<n}" using assms(3) by (simp add: distinct_card)
  moreover have "set order \<subseteq> {..<n}" using assms(4) by auto
  ultimately have "set order = {..<n}" by (simp add: card_subset_eq)
  then show "acyclic (set E)" using assms(1) by (intro topological_acyclic [OF assms(2,3)]) auto
next
  assume ac: "acyclic (set E)"
  have "{..<n} \<subseteq> set order"
  proof (rule ccontr)
    assume "\<not> {..<n} \<subseteq> set order"
    then obtain w where "w \<in> {..<n} - set order" by auto
    then obtain z where z: "z \<in> {..<n} - set order" "\<forall>y. (y, z) \<in> set E \<longrightarrow> y \<notin> {..<n} - set order"
      using wfE_min [OF finite_acyclic_wf [OF finite_set ac]] by metis
    then have "\<forall>u. (u, z) \<in> set E \<longrightarrow> u \<in> set order" using assms(1) by auto
    then have "z \<in> set order" using z(1) by (subst assms(4)) simp
    then show False using z(1) by simp
  qed
  then have "set order = {..<n}" using assms(4) by auto
  then show "length order = n" using assms(3) by (metis card_lessThan distinct_card)
qed

end
