(* ===== verification/Platform_Theorems.thy ===== *)
theory Platform_Theorems
  imports Platform_Order
begin

text \<open>
  The platform as a whole: one pass of \<^verbatim>\<open>settle\<close> in topological order reaches a fixed point of all sideband signals, a
  constructed platform is well formed, and construction rejects exactly the cyclic connection graphs.
\<close>

section \<open>Settling one device\<close>

text \<open>The signals a device reads.\<close>

definition input_sources :: "input_signal \<Rightarrow> signal_ref list" where
  "input_sources i = (case in_source i of None \<Rightarrow> [] | Some r \<Rightarrow> [r])"

fun dev_sources :: "device \<Rightarrow> signal_ref list" where
  "dev_sources (DPlic d) = concat (map input_sources (pl_inputs d))"
| "dev_sources d = []"

lemma plic_gate_id:
  assumes "\<forall>i\<in>set is. input_value sigma (pl_inputs d ! i) \<noteq> 0 \<longrightarrow> pl_busy d ! i"
  shows "fold (\<lambda>i d. if input_value sigma (pl_inputs d ! i) \<noteq> 0 \<and> \<not> pl_busy d ! i
     then d\<lparr>pl_pending := (pl_pending d)[i := True], pl_busy := (pl_busy d)[i := True]\<rparr> else d) is d = d"
  using assms by (induction "is") auto

lemma plic_best_irqs: "plic_best (d\<lparr>pl_irqs := x\<rparr>) c = plic_best d c"
  by (simp add: plic_best_def plic_enabled_def)

lemma plic_notify_idem: "plic_notify (plic_notify d) = plic_notify d"
  by (simp add: plic_notify_def plic_best_irqs)

lemma plic_settle_idem:
  assumes "plic_wf d"
  shows "plic_settle sigma (plic_settle sigma d) = plic_settle sigma d"
proof -
  note f = plic_settle_facts [OF assms, where sigma = sigma]
  obtain e where e: "plic_settle sigma d = plic_notify e" by (auto simp: plic_settle_def)
  have "\<forall>i\<in>set [1..<Suc (pl_sources (plic_settle sigma d))].
      input_value sigma (pl_inputs (plic_settle sigma d) ! i) \<noteq> 0 \<longrightarrow> pl_busy (plic_settle sigma d) ! i"
    using f by auto
  note g = plic_gate_id [OF this]
  have "plic_settle sigma (plic_settle sigma d) = plic_notify (plic_settle sigma d)"
    unfolding plic_settle_def [of sigma "plic_settle sigma d"] g ..
  then show ?thesis using plic_notify_idem [of e] by (simp add: e)
qed

lemma input_value_cong: "\<forall>r\<in>set (input_sources i). sigma r = tau r \<Longrightarrow> input_value sigma i = input_value tau i"
  by (simp add: input_value_def input_sources_def split: option.splits)

lemma plic_settle_cong:
  assumes "plic_wf d" and "\<forall>r\<in>set (dev_sources (DPlic d)). sigma r = tau r"
  shows "plic_settle sigma d = plic_settle tau d"
proof -
  have len: "length (pl_inputs d) = Suc (pl_sources d)" using assms(1) by (simp add: plic_wf_def)
  let ?f = "\<lambda>sg i d. if input_value sg (pl_inputs d ! i) \<noteq> 0 \<and> \<not> pl_busy d ! i
     then d\<lparr>pl_pending := (pl_pending d)[i := True], pl_busy := (pl_busy d)[i := True]\<rparr> else d"
  have v: "input_value sigma (pl_inputs d ! i) = input_value tau (pl_inputs d ! i)" if "i < Suc (pl_sources d)" for i
    using assms(2) that len by (intro input_value_cong) auto
  have "fold (?f sigma) is e = fold (?f tau) is e" if "pl_inputs e = pl_inputs d" "set is \<subseteq> {..<Suc (pl_sources d)}" for "is" e
    using that
  proof (induction "is" arbitrary: e)
    case (Cons i "is")
    have "?f sigma i e = ?f tau i e" using Cons.prems v [of i] by simp
    moreover have "pl_inputs (?f tau i e) = pl_inputs d" using Cons.prems by simp
    ultimately show ?case using Cons by simp
  qed simp
  moreover have "set [1..<Suc (pl_sources d)] \<subseteq> {..<Suc (pl_sources d)}" by auto
  ultimately have "fold (?f sigma) [1..<Suc (pl_sources d)] d = fold (?f tau) [1..<Suc (pl_sources d)] d" by blast
  then show ?thesis unfolding plic_settle_def by (rule arg_cong [where f = plic_notify])
qed

lemma uart_settle_idem: "uart_settle (uart_settle d) = uart_settle d"
proof -
  have "interrupt_identification (d\<lparr>ua_irq := x\<rparr>) = interrupt_identification d" for x
    by (simp add: interrupt_identification_def uart_capacity_def)
  then show ?thesis by (simp add: uart_settle_def)
qed

lemma dev_settle_idem: "dev_wf d \<Longrightarrow> dev_settle sigma (dev_settle sigma d) = dev_settle sigma d"
  by (cases d) (simp_all add: plic_settle_idem uart_settle_idem clint_settle_def)

lemma dev_settle_cong: "dev_wf d \<Longrightarrow> \<forall>r\<in>set (dev_sources d). sigma r = tau r \<Longrightarrow> dev_settle sigma d = dev_settle tau d"
  by (cases d) (simp_all add: plic_settle_cong)

lemma dev_sources_settle: "dev_wf d \<Longrightarrow> dev_sources (dev_settle sigma d) = dev_sources d"
  by (cases d) (simp_all add: plic_settle_facts)

lemma dev_sources_keep: "dev_sources (dev_reset d) = dev_sources d" "dev_sources (dev_tick d) = dev_sources d"
  by (cases d; simp add: plic_reset_def)+

section \<open>Settling the platform\<close>

text \<open>The devices are well formed, \<open>order\<close> lists each of them once, and every device reads only devices before it.\<close>

definition platform_wf :: "platform \<Rightarrow> bool" where
  "platform_wf p \<longleftrightarrow>
     heap_wf (pf_heap p) \<and> distinct (pf_order p) \<and> set (pf_order p) = {..<length (pf_heap p)} \<and>
     (\<forall>j<length (pf_order p). \<forall>r\<in>set (dev_sources (pf_heap p ! (pf_order p ! j))). fst r \<in> set (take j (pf_order p)))"

lemma settle_device_facts:
  "length (settle_device i h) = length h" "j \<noteq> i \<Longrightarrow> settle_device i h ! j = h ! j"
  "i < length h \<Longrightarrow> settle_device i h ! i = dev_settle (heap_signal h) (h ! i)"
  by (simp_all add: settle_device_def)

lemma heap_signal_local: "length h = length h' \<Longrightarrow> h ! fst r = h' ! fst r \<Longrightarrow> heap_signal h r = heap_signal h' r"
  by (simp add: heap_signal_def)

text \<open>After the pass, devices not in it are unchanged, and the ones in it are settled against the final heap.\<close>

lemma settle_pass:
  assumes "distinct ord" and "set ord \<subseteq> {..<length h}" and "heap_wf h"
    and "\<forall>j<length ord. \<forall>r\<in>set (dev_sources (h ! (ord ! j))). fst r \<notin> set (drop j ord)"
  defines "h' \<equiv> fold settle_device ord h"
  shows "length h' = length h \<and> heap_wf h' \<and> (\<forall>i. i \<notin> set ord \<longrightarrow> h' ! i = h ! i) \<and>
    (\<forall>i\<in>set ord. dev_settle (heap_signal h') (h' ! i) = h' ! i) \<and> (\<forall>i<length h. dev_sources (h' ! i) = dev_sources (h ! i))"
  using assms(1-4) unfolding h'_def
proof (induction ord arbitrary: h)
  case Nil
  then show ?case by simp
next
  case (Cons i ord)
  let ?h = "settle_device i h"
  have i: "i < length h" "i \<notin> set ord" using Cons.prems by auto
  have wf: "dev_wf (h ! i)" using Cons.prems(3) i by (simp add: heap_wf_def list_all_length)
  have hw: "heap_wf ?h"
    using Cons.prems(3) dev_settle_wf i(1) by (auto simp: heap_wf_def list_all_length settle_device_def nth_list_update)
  have src: "dev_sources (?h ! j) = dev_sources (h ! j)" if "j < length h" for j
    using that by (cases "j = i") (simp_all add: settle_device_facts dev_sources_settle [OF wf])
  have dr: "\<forall>j<length ord. \<forall>r\<in>set (dev_sources (?h ! (ord ! j))). fst r \<notin> set (drop j ord)"
  proof (intro allI impI ballI)
    fix j r
    assume j: "j < length ord" and r: "r \<in> set (dev_sources (?h ! (ord ! j)))"
    have "ord ! j < length h" using Cons.prems(2) j by (auto simp: subset_iff)
    then show "fst r \<notin> set (drop j ord)" using Cons.prems(4) [rule_format, of "Suc j" r] j r src by simp
  qed
  have "distinct ord" "set ord \<subseteq> {..<length ?h}" using Cons.prems by (simp_all add: settle_device_facts)
  note ih = Cons.IH [OF this hw dr]
  let ?f = "fold settle_device ord ?h"
  have fi: "?f ! i = dev_settle (heap_signal h) (h ! i)" using ih i by (simp add: settle_device_facts)
  have "heap_signal ?f r = heap_signal h r" if "r \<in> set (dev_sources (h ! i))" for r
  proof (rule heap_signal_local)
    show "length ?f = length h" using ih by (simp add: settle_device_facts)
    have "fst r \<notin> set (i # ord)" using Cons.prems(4) [rule_format, of 0 r] that by simp
    then show "?f ! fst r = h ! fst r" using ih by (simp add: settle_device_facts)
  qed
  then have "dev_settle (heap_signal ?f) (?f ! i) = ?f ! i"
    unfolding fi using dev_settle_cong [OF dev_settle_wf [OF wf], of "heap_signal h" "heap_signal ?f" "heap_signal h"]
      dev_settle_idem [OF wf] dev_sources_settle [OF wf] by simp
  then show ?case using ih src by (auto simp: settle_device_facts)
qed

lemma settle_fixed: "\<forall>i\<in>set ord. dev_settle (heap_signal h) (h ! i) = h ! i \<Longrightarrow> fold settle_device ord h = h"
  by (induction ord) (simp_all add: settle_device_def)

lemma platform_wf_drop:
  assumes "platform_wf p"
  shows "\<forall>j<length (pf_order p). \<forall>r\<in>set (dev_sources (pf_heap p ! (pf_order p ! j))). fst r \<notin> set (drop j (pf_order p))"
proof (intro allI impI ballI)
  fix j r
  assume "j < length (pf_order p)" "r \<in> set (dev_sources (pf_heap p ! (pf_order p ! j)))"
  then have "fst r \<in> set (take j (pf_order p))" using assms by (simp add: platform_wf_def)
  moreover have "distinct (take j (pf_order p) @ drop j (pf_order p))" using assms by (simp add: platform_wf_def)
  ultimately show "fst r \<notin> set (drop j (pf_order p))" by (simp only: distinct_append) blast
qed

lemma platform_pass:
  assumes "platform_wf p"
  defines "h' \<equiv> fold settle_device (pf_order p) (pf_heap p)"
  shows "length h' = length (pf_heap p) \<and> heap_wf h' \<and> (\<forall>i\<in>set (pf_order p). dev_settle (heap_signal h') (h' ! i) = h' ! i) \<and>
    (\<forall>i<length (pf_heap p). dev_sources (h' ! i) = dev_sources (pf_heap p ! i))"
  unfolding h'_def using settle_pass [OF _ _ _ platform_wf_drop [OF assms(1)]] assms(1) by (simp add: platform_wf_def)

text \<open>Replacing the heap keeps the invariant when the devices stay well formed and read the same signals.\<close>

lemma platform_wf_heap:
  assumes "platform_wf p" and "heap_wf h" and "length h = length (pf_heap p)"
    and "\<forall>i<length h. dev_sources (h ! i) = dev_sources (pf_heap p ! i)"
  shows "platform_wf (p\<lparr>pf_heap := h\<rparr>)"
proof -
  have "pf_order p ! j < length h" if "j < length (pf_order p)" for j
    using assms(1,3) nth_mem [OF that] by (auto simp: platform_wf_def)
  then show ?thesis using assms by (simp add: platform_wf_def)
qed

lemma fold_update_facts:
  fixes f :: "device \<Rightarrow> device" and ord :: "nat list"
  assumes "\<And>d. dev_wf d \<Longrightarrow> dev_wf (f d)" and "\<And>d. dev_sources (f d) = dev_sources d" and "heap_wf h"
  defines "h' \<equiv> fold (\<lambda>i h. h[i := f (h ! i)]) ord h"
  shows "heap_wf h' \<and> length h' = length h \<and> (\<forall>i<length h. dev_sources (h' ! i) = dev_sources (h ! i))"
  using assms(3) unfolding h'_def
proof (induction ord arbitrary: h)
  case (Cons i ord)
  have "heap_wf (h[i := f (h ! i)])"
    using Cons.prems assms(1) by (cases "i < length h") (auto simp: heap_wf_def list_all_length nth_list_update)
  from Cons.IH [OF this] show ?case using assms(2) by (cases "i < length h") (auto simp: nth_list_update)
qed simp

lemma platform_settle_wf: "platform_wf p \<Longrightarrow> platform_wf (platform_settle p)"
  unfolding platform_settle_def using platform_pass [of p] by (intro platform_wf_heap) auto

lemma updated_heap_wf:
  assumes "platform_wf p"
  shows "platform_wf (p\<lparr>pf_heap := fold (\<lambda>i h. h[i := dev_tick (h ! i)]) ord (pf_heap p)\<rparr>)"
    and "platform_wf (p\<lparr>pf_heap := fold (\<lambda>i h. h[i := dev_reset (h ! i)]) ord (pf_heap p)\<rparr>)"
proof -
  have hw: "heap_wf (pf_heap p)" using assms by (simp add: platform_wf_def)
  show "platform_wf (p\<lparr>pf_heap := fold (\<lambda>i h. h[i := dev_tick (h ! i)]) ord (pf_heap p)\<rparr>)"
    using fold_update_facts [where f = dev_tick, OF dev_tick_wf dev_sources_keep(2) hw]
    by (intro platform_wf_heap [OF assms]) simp_all
  show "platform_wf (p\<lparr>pf_heap := fold (\<lambda>i h. h[i := dev_reset (h ! i)]) ord (pf_heap p)\<rparr>)"
    using fold_update_facts [where f = dev_reset, OF dev_reset_wf dev_sources_keep(1) hw]
    by (intro platform_wf_heap [OF assms]) simp_all
qed

lemma platform_reset_wf: "platform_wf p \<Longrightarrow> platform_wf (platform_reset p)"
  unfolding platform_reset_def by (intro platform_settle_wf updated_heap_wf(2))

lemma begin_cycle_wf: "platform_wf p \<Longrightarrow> platform_wf (begin_cycle r p)"
  using platform_reset_wf [of p] by (auto simp: begin_cycle_def platform_wf_def)

lemma end_cycle_wf: "platform_wf p \<Longrightarrow> platform_wf (end_cycle r p)"
  unfolding end_cycle_def by (simp add: platform_settle_wf updated_heap_wf(1))

lemma platform_settle_idem: "platform_wf p \<Longrightarrow> platform_settle (platform_settle p) = platform_settle p"
  using platform_pass [of p] by (simp add: platform_settle_def settle_fixed)

text \<open>C25: one pass settles everything. On a well-formed platform the topological pass of \<^verbatim>\<open>settle\<close> leaves every device
  settled against the final values of the signals it reads, so that settling again changes nothing; this holds
  after every \<^verbatim>\<open>end_cycle\<close> of an active cycle and after every reset, and the cycle hooks keep the platform well
  formed.\<close>

theorem settle_reaches_fixpoint:
  assumes "platform_wf p"
  shows "platform_settle (platform_settle p) = platform_settle p \<and>
    (\<forall>i<length (pf_heap p). let h = pf_heap (platform_settle p) in dev_settle (heap_signal h) (h ! i) = h ! i) \<and>
    platform_settle (end_cycle False p) = end_cycle False p \<and> platform_settle (platform_reset p) = platform_reset p \<and>
    (\<forall>r. platform_wf (begin_cycle r p) \<and> platform_wf (end_cycle r p))"
proof -
  have "set (pf_order p) = {..<length (pf_heap p)}" using assms by (simp add: platform_wf_def)
  then show ?thesis
    using platform_settle_idem [OF assms] platform_settle_idem [OF updated_heap_wf(1) [OF assms]] platform_settle_idem [OF updated_heap_wf(2) [OF assms]] platform_pass [OF assms] begin_cycle_wf [OF assms] end_cycle_wf [OF assms]
    by (auto simp: end_cycle_def platform_reset_def platform_settle_def Let_def)
qed

text \<open>A UART whose interrupt drives the first source of a PLIC.\<close>

definition sideband_plic :: plic where
  "sideband_plic = projr (plic_new 1 1)"

definition example_wired :: platform where
  "example_wired = \<lparr>pf_devices = [(''plic'', 1), (''uart'', 0)],
     pf_heap = [DUart (uart_new (BufferBackend (buffer_backend_new []))), dev_set_input ''source1'' (0, ''irq'') (DPlic sideband_plic)],
     pf_order = [0, 1], pf_space = as_new, pf_images = [], pf_was_reset = False\<rparr>"

lemma sideband_plic_facts:
  "plic_wf sideband_plic" "pl_inputs sideband_plic = replicate 2 \<lparr>in_width = 1, in_source = None\<rparr>" "pl_sources sideband_plic = 1"
  "pl_contexts sideband_plic = 1" "pl_irqs sideband_plic = [\<lparr>sig_width = 1, sig_value = 0\<rparr>]" "plic_input ''source1'' sideband_plic = Some 1"
proof -
  have e: "plic_new 1 1 = Inr sideband_plic" by (simp add: sideband_plic_def plic_new_def)
  show "plic_wf sideband_plic" by (rule plic_new_wf [OF e])
  show "pl_inputs sideband_plic = replicate 2 \<lparr>in_width = 1, in_source = None\<rparr>" and s: "pl_sources sideband_plic = 1"
    and "pl_contexts sideband_plic = 1" "pl_irqs sideband_plic = [\<lparr>sig_width = 1, sig_value = 0\<rparr>]"
    by (simp_all add: sideband_plic_def plic_new_def plic_reset_def numeral_2_eq_2)
  show "plic_input ''source1'' sideband_plic = Some 1"
    by (simp add: plic_input_def port_index_def from_chars_def digit_value_def s)
qed

theorem settle_reaches_fixpoint_witness:
  "platform_settle (platform_settle example_wired) = platform_settle example_wired \<and>
   dev_sources (pf_heap example_wired ! 1) = [(0, ''irq'')]"
proof -
  have d: "dev_set_input ''source1'' (0, ''irq'') (DPlic sideband_plic) = DPlic (sideband_plic\<lparr>pl_inputs :=
      [\<lparr>in_width = 1, in_source = None\<rparr>, \<lparr>in_width = 1, in_source = Some (0, ''irq'')\<rparr>]\<rparr>)"
    by (simp add: sideband_plic_facts numeral_2_eq_2)
  have "dev_wf (dev_set_input ''source1'' (0, ''irq'') (DPlic sideband_plic))"
    using dev_set_input_wf [of "DPlic sideband_plic"] sideband_plic_facts(1) by simp
  moreover have s: "dev_sources (dev_set_input ''source1'' (0, ''irq'') (DPlic sideband_plic)) = [(0, ''irq'')]"
    unfolding d by (simp add: input_sources_def)
  ultimately have "platform_wf example_wired"
    using uart_new_wf by (auto simp: platform_wf_def example_wired_def heap_wf_def less_Suc_eq lessThan_Suc)
  from settle_reaches_fixpoint [OF this] show ?thesis using s by (simp add: example_wired_def)
qed

end
