(* ===== verification/Platform_New.thy ===== *)
theory Platform_New
  imports Platform_Theorems
begin

text \<open>
  Construction of a platform: the devices of the specification in their order, the windows, the sideband wiring and
  its topological order. The factories of the registry are assumed only to build well-formed, unconnected
  devices, which the factories of the repository do.
\<close>

section \<open>Factories\<close>

definition factories_ok :: "device_registry \<Rightarrow> bool" where
  "factories_ok reg \<longleftrightarrow> (\<forall>name t create c host d. map_of reg name = Some t \<longrightarrow> dt_create t = Some create \<longrightarrow>
     create c host = Inr (Some d) \<longrightarrow> dev_wf d \<and> dev_sources d = [])"

lemma uart_setters_wf:
  "uart_wf d \<Longrightarrow> uart_set_character_cycles n d = Inr d' \<Longrightarrow> uart_wf d'"
  "uart_wf d \<Longrightarrow> uart_set_input_poll_cycles n d = Inr d' \<Longrightarrow> uart_wf d'"
proof -
  assume w: "uart_wf d" and s: "uart_set_character_cycles n d = Inr d'"
  have n: "n \<noteq> 0" "\<not> n > 0xFFFFFFFFFFFFFFFF div 4" and d': "d' = d\<lparr>ua_character_cycles := n\<rparr>"
    using s by (auto simp: uart_set_character_cycles_def split: if_splits)
  have "unat n \<le> 0x3FFFFFFFFFFFFFFF" using n(2) by (simp add: not_less word_le_nat_alt unat_div)
  then show "uart_wf d'" using w n(1) d' by (simp add: uart_wf_def uart_capacity_def unat_gt_0)
next
  assume "uart_wf d" and "uart_set_input_poll_cycles n d = Inr d'"
  then show "uart_wf d'" by (auto simp: uart_set_input_poll_cycles_def uart_wf_def uart_capacity_def split: if_splits)
qed

lemma builtin_factories:
  "create_rom c host = Inr (Some d) \<Longrightarrow> dev_wf d \<and> dev_sources d = []"
  "create_ram c host = Inr (Some d) \<Longrightarrow> dev_wf d \<and> dev_sources d = []"
  "create_uart c host = Inr (Some d) \<Longrightarrow> dev_wf d \<and> dev_sources d = []"
  "create_exit c host = Inr (Some d) \<Longrightarrow> dev_wf d \<and> dev_sources d = []"
  "create_clint c host = Inr (Some d) \<Longrightarrow> dev_wf d \<and> dev_sources d = []"
  "create_plic c host = Inr (Some d) \<Longrightarrow> dev_wf d \<and> dev_sources d = []"
proof -
  show "create_rom c host = Inr (Some d) \<Longrightarrow> dev_wf d \<and> dev_sources d = []"
    by (auto simp: create_rom_def rom_new_def rom_wf_def rom_size_def split: if_splits)
  show "create_ram c host = Inr (Some d) \<Longrightarrow> dev_wf d \<and> dev_sources d = []"
    by (auto simp: create_ram_def ram_new_def ram_wf_def split: if_splits)
  show "create_uart c host = Inr (Some d) \<Longrightarrow> dev_wf d \<and> dev_sources d = []"
  proof -
    assume "create_uart c host = Inr (Some d)"
    then obtain b n m u1 u2 where "uart_set_character_cycles n (uart_new b) = Inr u1" "uart_set_input_poll_cycles m u1 = Inr u2" "d = DUart u2"
      by (auto simp: create_uart_def Let_def)
    then show ?thesis using uart_setters_wf(2) [OF uart_setters_wf(1) [OF uart_new_wf]] by simp
  qed
  show "create_exit c host = Inr (Some d) \<Longrightarrow> dev_wf d \<and> dev_sources d = []"
    by (auto simp: create_exit_def)
  show "create_clint c host = Inr (Some d) \<Longrightarrow> dev_wf d \<and> dev_sources d = []"
    using clint_new_wf by (auto simp: create_clint_def)
  show "create_plic c host = Inr (Some d) \<Longrightarrow> dev_wf d \<and> dev_sources d = []"
  proof -
    assume "create_plic c host = Inr (Some d)"
    then obtain m n e where e: "plic_new m n = Inr e" "d = DPlic e" by (auto simp: create_plic_def)
    then have "pl_inputs e = replicate (m + 1) \<lparr>in_width = 1, in_source = None\<rparr>"
      by (auto simp: plic_new_def plic_reset_def split: if_splits)
    then show ?thesis using plic_new_wf [OF e(1)] e(2) by (auto simp: input_sources_def)
  qed
qed

lemma factories_add:
  assumes "registry_ok reg" and "factories_ok reg" and "registry_add name t reg = Inr reg'"
    and "dt_create t = Some create" and "\<And>c host d. create c host = Inr (Some d) \<Longrightarrow> dev_wf d \<and> dev_sources d = []"
  shows "registry_ok reg' \<and> factories_ok reg'"
  using registry_add_ok [OF assms(1,3)] assms(2,4,5) by (auto simp: factories_ok_def)

lemma register_builtin_ok:
  assumes "registry_ok reg" and "factories_ok reg" and "register_builtin_devices reg = Inr reg'"
  shows "registry_ok reg' \<and> factories_ok reg'"
proof -
  obtain r1 r2 r3 where a: "registry_add ''rom'' rom_type reg = Inr r1" "registry_add ''ram'' ram_type r1 = Inr r2"
    "registry_add ''uart'' uart_type r2 = Inr r3" "registry_add ''exit'' exit_type r3 = Inr reg'"
    using assms(3) by (auto simp: register_builtin_devices_def)
  have 1: "registry_ok r1 \<and> factories_ok r1"
    using assms(1,2) a(1) builtin_factories(1) by (intro factories_add [of reg]) (auto simp: rom_type_def)
  have 2: "registry_ok r2 \<and> factories_ok r2"
    using 1 a(2) builtin_factories(2) by (intro factories_add [of r1]) (auto simp: ram_type_def)
  have 3: "registry_ok r3 \<and> factories_ok r3"
    using 2 a(3) builtin_factories(3) by (intro factories_add [of r2]) (auto simp: uart_type_def)
  show ?thesis
    using 3 a(4) builtin_factories(4) by (intro factories_add [of r3]) (auto simp: exit_type_def)
qed

lemma fuxi_register_ok:
  assumes "registry_ok reg" and "factories_ok reg" and "fuxi_register_devices reg = Inr reg'"
  shows "registry_ok reg' \<and> factories_ok reg'"
proof -
  obtain r1 where a: "registry_add ''riscv-clint'' clint_type reg = Inr r1" "registry_add ''riscv-plic'' plic_type r1 = Inr reg'"
    using assms(3) by (auto simp: fuxi_register_devices_def)
  have 1: "registry_ok r1 \<and> factories_ok r1"
    using assms(1,2) a(1) builtin_factories(5) by (intro factories_add [of reg]) (auto simp: clint_type_def)
  show ?thesis
    using 1 a(2) builtin_factories(6) by (intro factories_add [of r1]) (auto simp: plic_type_def)
qed

lemma empty_registry_ok: "registry_ok [] \<and> factories_ok []"
  by (simp add: registry_ok_def factories_ok_def smap_wf_def)

section \<open>Creating the devices\<close>

definition devs_ok :: "platform \<Rightarrow> bool" where
  "devs_ok p \<longleftrightarrow> smap_wf (pf_devices p) \<and> length (pf_devices p) = length (pf_heap p) \<and>
     (\<forall>name i. map_of (pf_devices p) name = Some i \<longrightarrow> i < length (pf_heap p)) \<and>
     heap_wf (pf_heap p) \<and> (\<forall>d\<in>set (pf_heap p). dev_sources d = [])"

lemma empty_devs_ok: "devs_ok empty_platform"
  by (simp add: empty_platform_def devs_ok_def heap_wf_def smap_wf_def)

lemma smap_emplace_length: "length (fst (smap_emplace k v m)) = (if snd (smap_emplace k v m) then Suc (length m) else length m)"
  by (induction k v m rule: smap_emplace.induct) (auto split: prod.splits)

lemma add_config_Inr:
  assumes "add_config reg d configs = Inr configs'"
  obtains c where "snd (smap_emplace (ds_id d) c configs)" "configs' = fst (smap_emplace (ds_id d) c configs)"
proof -
  obtain c where "(case smap_emplace (ds_id d) c configs of (m, inserted) \<Rightarrow>
      if \<not> inserted then Inl (InvalidArgument (''duplicate device instance: '' @ ds_id d)) else Inr m) = Inr configs'"
    using assms unfolding add_config_def by auto
  then show ?thesis using that [of c] by (simp split: prod.splits if_splits)
qed

lemma add_config_fold:
  assumes "smap_wf configs" and "result_fold (add_config reg) ds configs = Inr configs'"
  shows "distinct (map ds_id ds) \<and> (\<forall>d\<in>set ds. map_of configs (ds_id d) = None)"
  using assms
proof (induction ds arbitrary: configs)
  case (Cons d ds)
  obtain c where c: "snd (smap_emplace (ds_id d) c configs)"
    and rest: "result_fold (add_config reg) ds (fst (smap_emplace (ds_id d) c configs)) = Inr configs'"
  proof -
    obtain m where "add_config reg d configs = Inr m" "result_fold (add_config reg) ds m = Inr configs'" using Cons.prems(2) by auto
    then show ?thesis using that by (metis add_config_Inr)
  qed
  have n: "map_of configs (ds_id d) = None" using c sm.inserted [OF Cons.prems(1)] by simp
  have l: "map_of (fst (smap_emplace (ds_id d) c configs)) = (map_of configs)(ds_id d \<mapsto> c)"
    using sm.lookup_emplace [OF Cons.prems(1), of "ds_id d" c] n by simp
  note ih = Cons.IH [OF sm.invar_emplace [OF Cons.prems(1)] rest]
  then show ?case using n by (auto simp: l split: if_splits) 
qed simp

lemma create_device_step:
  assumes "factories_ok reg" and "devs_ok p" and "map_of (pf_devices p) (ds_id d) = None"
    and "create_device host reg configs d p = Inr p'"
  shows "devs_ok p' \<and> length (pf_heap p') = Suc (length (pf_heap p)) \<and>
    map_of (pf_devices p') = (map_of (pf_devices p))(ds_id d \<mapsto> length (pf_heap p)) \<and>
    pf_order p' = pf_order p \<and> pf_space p' = pf_space p"
proof -
  obtain t c create dev where t: "map_of reg (ds_type d) = Some t" "dt_create t = Some create" "create c host = Inr (Some dev)"
    and p': "p' = p\<lparr>pf_devices := fst (smap_emplace (ds_id d) (length (pf_heap p)) (pf_devices p)), pf_heap := pf_heap p @ [dev]\<rparr>"
    using assms(4) by (auto simp: create_device_def registry_type_def split: option.splits)
  have dev: "dev_wf dev" "dev_sources dev = []" using assms(1) t by (auto simp: factories_ok_def)
  have w: "smap_wf (pf_devices p)" using assms(2) by (simp add: devs_ok_def)
  note l = sm.lookup_emplace [OF w, of "ds_id d" "length (pf_heap p)"] and i = sm.inserted [OF w, of "ds_id d" "length (pf_heap p)"]
  have "devs_ok p'"
    using assms(2,3) dev sm.invar_emplace [OF w] smap_emplace_length [of "ds_id d" "length (pf_heap p)" "pf_devices p"] i
    by (auto simp: devs_ok_def p' l heap_wf_def less_Suc_eq)
  then show ?thesis using assms(3) by (simp add: p' l)
qed

lemma create_fold:
  assumes "factories_ok reg" and "devs_ok p" and "distinct (map ds_id ds)"
    and "\<forall>d\<in>set ds. map_of (pf_devices p) (ds_id d) = None"
    and "result_fold (create_device host reg configs) ds p = Inr p'"
  shows "devs_ok p' \<and> length (pf_heap p') = length (pf_heap p) + length ds \<and>
    (\<forall>i<length ds. map_of (pf_devices p') (ds_id (ds ! i)) = Some (length (pf_heap p) + i)) \<and>
    (\<forall>k. k \<notin> ds_id ` set ds \<longrightarrow> map_of (pf_devices p') k = map_of (pf_devices p) k) \<and>
    pf_order p' = pf_order p \<and> pf_space p' = pf_space p"
  using assms(2-5)
proof (induction ds arbitrary: p)
  case (Cons d ds)
  obtain q where q: "create_device host reg configs d p = Inr q" and rest: "result_fold (create_device host reg configs) ds q = Inr p'"
    using Cons.prems(4) by auto
  note s = create_device_step [OF assms(1) Cons.prems(1) _ q]
  have n: "map_of (pf_devices p) (ds_id d) = None" using Cons.prems(3) by simp
  have dd: "distinct (map ds_id ds)" "ds_id d \<notin> ds_id ` set ds" using Cons.prems(2) by auto
  have "\<forall>e\<in>set ds. map_of (pf_devices q) (ds_id e) = None" using s [OF n] Cons.prems(3) dd(2) by auto (metis image_eqI)
  note ih = Cons.IH [OF conjunct1 [OF s [OF n]] dd(1) this rest]
  have "map_of (pf_devices p') (ds_id ((d # ds) ! i)) = Some (length (pf_heap p) + i)" if "i < Suc (length ds)" for i
    using ih s [OF n] dd(2) that by (cases i) auto
  then show ?case using ih s [OF n] by auto
qed simp

section \<open>Windows and images\<close>

lemma add_mapping_step:
  assumes "as_wf (pf_space p)" and "devices_ok (pf_space p) (pf_heap p)" and "devs_ok p"
    and "add_mapping bits m p = Inr p'"
  shows "as_wf (pf_space p') \<and> devices_ok (pf_space p') (pf_heap p') \<and> (\<exists>sp. p' = p\<lparr>pf_space := sp\<rparr>) \<and>
    (bits = 32 \<longrightarrow> (\<forall>w\<in>set (as_mappings (pf_space p)). mp_to w \<le> 2 ^ 32) \<longrightarrow> (\<forall>w\<in>set (as_mappings (pf_space p')). mp_to w \<le> 2 ^ 32))"
proof -
  obtain dev sp where fit: "\<not> (bits = 32 \<and> (ms_base m \<ge> 0x100000000 \<or> ms_size m > 0x100000000 - ms_base m))"
    and dev: "platform_device p (ms_device m) = Inr dev"
    and sp: "as_map (ms_base m) (ms_size m) dev (ms_device m) (pf_space p) = Inr sp" and p': "p' = p\<lparr>pf_space := sp\<rparr>"
    using assms(4) by (auto simp: add_mapping_def)
  note r = as_map_result [OF assms(1) sp]
  have d: "dev < length (pf_heap p)"
    using dev assms(3) by (auto simp: platform_device_def devs_ok_def split: option.splits)
  have set: "w \<in> set (as_mappings sp) \<Longrightarrow> w \<in> set (as_mappings (pf_space p)) \<or>
      w = \<lparr>mp_base = ms_base m, mp_size = ms_size m, mp_device = dev, mp_name = ms_device m\<rparr>" for w
    unfolding r(2) by (auto dest: in_set_takeD in_set_dropD)
  have "unat (ms_base m) + unat (ms_size m) \<le> 2 ^ 32" if "bits = 32"
  proof -
    have b: "unat (ms_base m) < 2 ^ 32" and s: "\<not> ms_size m > 0x100000000 - ms_base m"
      using fit that by (auto simp: not_le word_less_nat_alt)
    have "ms_base m \<le> 0x100000000" using b by (simp add: word_le_nat_alt)
    then have "unat (0x100000000 - ms_base m) = 2 ^ 32 - unat (ms_base m)" by (simp add: unat_sub)
    then show ?thesis using s b by (simp add: not_less word_le_nat_alt)
  qed
  then have "bits = 32 \<longrightarrow> (\<forall>w\<in>set (as_mappings (pf_space p)). mp_to w \<le> 2 ^ 32) \<longrightarrow> (\<forall>w\<in>set (as_mappings sp). mp_to w \<le> 2 ^ 32)"
    using set by (fastforce simp: mp_to_def)
  moreover have "devices_ok sp (pf_heap p)" using assms(2) d set by (fastforce simp: devices_ok_def list_all_iff)
  ultimately show ?thesis using r(1) p' by auto
qed

lemma add_mapping_fold:
  assumes "as_wf (pf_space p)" and "devices_ok (pf_space p) (pf_heap p)" and "devs_ok p"
    and "bits = 32 \<longrightarrow> (\<forall>w\<in>set (as_mappings (pf_space p)). mp_to w \<le> 2 ^ 32)"
    and "result_fold (add_mapping bits) ms p = Inr p'"
  shows "as_wf (pf_space p') \<and> devices_ok (pf_space p') (pf_heap p') \<and> (\<exists>sp. p' = p\<lparr>pf_space := sp\<rparr>) \<and>
    (bits = 32 \<longrightarrow> (\<forall>w\<in>set (as_mappings (pf_space p')). mp_to w \<le> 2 ^ 32))"
  using assms
proof (induction ms arbitrary: p)
  case Nil
  then show ?case by (auto intro: exI [of _ "pf_space p"])
next
  case (Cons m ms)
  obtain q where q: "add_mapping bits m p = Inr q" and rest: "result_fold (add_mapping bits) ms q = Inr p'" using Cons.prems(5) by auto
  note s = add_mapping_step [OF Cons.prems(1-3) q]
  obtain sp where sp: "q = p\<lparr>pf_space := sp\<rparr>" using s by blast
  have "devs_ok q" using Cons.prems(3) by (simp add: sp devs_ok_def)
  then have "as_wf (pf_space p') \<and> devices_ok (pf_space p') (pf_heap p') \<and> (\<exists>sp. p' = q\<lparr>pf_space := sp\<rparr>) \<and>
    (bits = 32 \<longrightarrow> (\<forall>w\<in>set (as_mappings (pf_space p')). mp_to w \<le> 2 ^ 32))"
    using s Cons.prems(4) rest by (intro Cons.IH) auto
  then show ?case using sp by auto
qed

lemma add_image_fold:
  "result_fold (add_image reg configs spec) ds p = Inr p' \<Longrightarrow> \<exists>im. p' = p\<lparr>pf_images := im\<rparr>"
proof (induction ds arbitrary: p)
  case Nil
  then show ?case by (auto intro: exI [of _ "pf_images p"])
next
  case (Cons d ds)
  obtain q where q: "add_image reg configs spec d p = Inr q" and rest: "result_fold (add_image reg configs spec) ds q = Inr p'"
    using Cons.prems by auto
  have "q = p\<lparr>pf_images := pf_images q\<rparr>"
  proof -
    obtain t where t: "registry_type reg (ds_type d) = Inr t" using q by (auto simp: add_image_def)
    show ?thesis
    proof (cases "dt_image_option t = []")
      case True
      then show ?thesis using q t by (simp add: add_image_def)
    next
      case False
      then obtain c where c: "map_of configs (ds_id d) = Some c"
        using q t by (cases "map_of configs (ds_id d)") (auto simp: add_image_def)
      obtain path where "config_text c (dt_image_option t) = Inr path" using q t c False by (auto simp: add_image_def)
      then show ?thesis using q t c False by (auto simp: add_image_def split: if_split_asm list.split_asm)
    qed
  qed
  then show ?case using Cons.IH [OF rest] by (metis (no_types, lifting) platform.surjective platform.update_convs(5))
qed

section \<open>Connections\<close>

definition endpoint_device :: "platform \<Rightarrow> string \<Rightarrow> nat" where
  "endpoint_device p txt = (case result_bind (endpoint txt) (\<lambda>(ident, _). platform_device p ident) of Inl _ \<Rightarrow> 0 | Inr i \<Rightarrow> i)"

definition connection_edge :: "platform \<Rightarrow> connection_spec \<Rightarrow> nat \<times> nat" where
  "connection_edge p c = (endpoint_device p (cs_source c), endpoint_device p (cs_destination c))"

lemma dev_set_input_sources:
  "set (dev_sources (dev_set_input name r d)) \<subseteq> insert r (set (dev_sources d))"
proof (cases d)
  case (DPlic e)
  have "set (concat (map input_sources (xs[i := x]))) \<subseteq> set (input_sources x) \<union> set (concat (map input_sources xs))" for xs i x
    using set_update_subset_insert [of xs i x] by auto
  from this [of "pl_inputs e" _ "(pl_inputs e ! _)\<lparr>in_source := Some r\<rparr>"] show ?thesis
    using DPlic by (auto simp: input_sources_def split: option.splits)
qed auto

text \<open>The wiring after the connections with edges \<open>E\<close>, starting from platform \<open>p\<close>.\<close>

definition wired :: "platform \<Rightarrow> (nat \<times> nat) list \<Rightarrow> wiring \<Rightarrow> bool" where
  "wired p E w \<longleftrightarrow>
     (\<exists>h. wi_platform w = p\<lparr>pf_heap := h\<rparr> \<and> length h = length (pf_heap p) \<and> heap_wf h \<and>
       (\<forall>i<length h. \<forall>r\<in>set (dev_sources (h ! i)). (fst r, i) \<in> set E)) \<and>
     wi_successors w = edge_successors E \<and> wi_indegree w = (\<lambda>v. of_nat (remaining_edges E {} v)) \<and>
     (\<forall>(u, v)\<in>set E. u < length (pf_heap p) \<and> v < length (pf_heap p))"

lemma connect_one_wired:
  assumes "devs_ok p" and "wired p E w" and "connect_one c w = Inr w'"
  shows "wired p (E @ [connection_edge p c]) w'"
proof -
  obtain h where h: "wi_platform w = p\<lparr>pf_heap := h\<rparr>" "length h = length (pf_heap p)" "heap_wf h"
    "\<forall>i<length h. \<forall>r\<in>set (dev_sources (h ! i)). (fst r, i) \<in> set E"
    using assms(2) by (auto simp: wired_def)
  have pd: "platform_device (p\<lparr>pf_heap := h\<rparr>) = platform_device p" by (simp add: platform_device_def fun_eq_iff)
  obtain src_id src_port dst_id dst_port src dst where
    e: "endpoint (cs_source c) = Inr (src_id, src_port)" "endpoint (cs_destination c) = Inr (dst_id, dst_port)"
    and d: "platform_device p src_id = Inr src" "platform_device p dst_id = Inr dst"
    using assms(3) unfolding connect_one_def Let_def by (auto simp: h(1) pd)
  obtain input where input: "dev_input dst_port (h ! dst) = Some input"
    using assms(3) by (cases "dev_input dst_port (h ! dst)") (auto simp: connect_one_def h(1) pd e d)
  obtain source where o: "platform_output (p\<lparr>pf_heap := h\<rparr>) (cs_source c) (in_width input) = Inr source"
    and w': "w' = w\<lparr>wi_platform := p\<lparr>pf_heap := h[dst := dev_set_input dst_port source (h ! dst)]\<rparr>,
        wi_successors := (wi_successors w)(src := wi_successors w src @ [dst]),
        wi_indegree := (wi_indegree w)(dst := wi_indegree w dst + 1)\<rparr>"
    using assms(3) by (auto simp: connect_one_def Let_def h(1) pd e d input split: if_split_asm)
  have src: "source = (src, src_port)"
    using o e(1) d(1) by (auto simp: platform_output_def pd split: option.splits if_splits)
  have lt: "src < length h" "dst < length h"
    using d assms(1) h(2) by (auto simp: platform_device_def devs_ok_def split: option.splits)
  have edge: "connection_edge p c = (src, dst)" using e d by (simp add: connection_edge_def endpoint_device_def)
  let ?h = "h[dst := dev_set_input dst_port source (h ! dst)]"
  have hw: "heap_wf ?h" using h(3) lt dev_set_input_wf by (auto simp: heap_wf_def list_all_length nth_list_update)
  have srcs: "(fst r, i) \<in> set (E @ [(src, dst)])" if i: "i < length ?h" and r: "r \<in> set (dev_sources (?h ! i))" for i r
  proof (cases "i = dst")
    case True
    then show ?thesis using r lt h(4) dev_set_input_sources [of dst_port source "h ! dst"] src by auto
  next
    case False
    then show ?thesis using r i h(4) by auto
  qed
  have "\<exists>h'. wi_platform w' = p\<lparr>pf_heap := h'\<rparr> \<and> length h' = length (pf_heap p) \<and> heap_wf h' \<and>
      (\<forall>i<length h'. \<forall>r\<in>set (dev_sources (h' ! i)). (fst r, i) \<in> set (E @ [(src, dst)]))"
  proof (rule exI [of _ ?h], intro conjI allI impI ballI)
    fix i r
    assume "i < length ?h" "r \<in> set (dev_sources (?h ! i))"
    then show "(fst r, i) \<in> set (E @ [(src, dst)])" by (rule srcs)
  qed (use w' hw h(2) in simp_all)
  moreover have "(edge_successors E)(src := edge_successors E src @ [dst]) = edge_successors (E @ [(src, dst)])"
    by (auto simp: edge_successors_def fun_eq_iff)
  moreover have "(\<lambda>v. of_nat (remaining_edges E {} v) :: u32)(dst := of_nat (remaining_edges E {} dst) + 1) =
      (\<lambda>v. of_nat (remaining_edges (E @ [(src, dst)]) {} v))"
    by (auto simp: remaining_edges_def fun_eq_iff)
  moreover have "wi_successors w = edge_successors E" "wi_indegree w = (\<lambda>v. of_nat (remaining_edges E {} v))"
    "\<forall>(u, v)\<in>set E. u < length (pf_heap p) \<and> v < length (pf_heap p)"
    using assms(2) by (auto simp: wired_def)
  ultimately show ?thesis
    unfolding wired_def edge using w' h(2) lt by (intro conjI) auto
qed

lemma connect_fold_wired:
  assumes "devs_ok p" and "wired p E w" and "result_fold connect_one cs w = Inr w'"
  shows "wired p (E @ map (connection_edge p) cs) w'"
  using assms(2,3)
proof (induction cs arbitrary: E w)
  case (Cons c cs)
  then obtain w1 where "connect_one c w = Inr w1" "result_fold connect_one cs w1 = Inr w'" by auto
  then show ?case using Cons.IH connect_one_wired [OF assms(1) Cons.prems(1)] by fastforce
qed simp

lemma remaining_edges_le: "remaining_edges E D v \<le> length E"
  by (simp add: remaining_edges_def)

lemma platform_connect_eq:
  assumes "devs_ok p" and "pf_order p = []" and "length (sp_connections spec) < 2 ^ 32"
    and "length (sp_devices spec) = length (pf_heap p)"
    and "\<forall>i<length (sp_devices spec). platform_device p (ds_id (sp_devices spec ! i)) = Inr i"
    and "result_fold connect_one (sp_connections spec) \<lparr>wi_platform = p, wi_successors = (\<lambda>_. []), wi_indegree = (\<lambda>_. 0)\<rparr> = Inr w"
  defines "E \<equiv> map (connection_edge p) (sp_connections spec)"
  shows "wired p E w \<and> (if acyclic (set E)
    then \<exists>order. platform_connect spec p = Inr ((wi_platform w)\<lparr>pf_order := order\<rparr>) \<and> distinct order \<and>
      topological E order \<and> set order = {..<length (pf_heap p)}
    else platform_connect spec p = Inl (InvalidArgument ''sideband connection cycle''))"
proof -
  let ?n = "length (pf_heap p)"
  have "wired p [] \<lparr>wi_platform = p, wi_successors = (\<lambda>_. []), wi_indegree = (\<lambda>_. 0)\<rparr>"
    using assms(1) by (auto simp: wired_def devs_ok_def edge_successors_def remaining_edges_def fun_eq_iff intro!: exI [of _ "pf_heap p"])
  from connect_fold_wired [OF assms(1) this assms(6)] have w: "wired p E w" by (simp add: E_def)
  then obtain h where h: "wi_platform w = p\<lparr>pf_heap := h\<rparr>" "wi_successors w = edge_successors E"
    "wi_indegree w = (\<lambda>v. of_nat (remaining_edges E {} v))" "\<forall>(u, v)\<in>set E. u < ?n \<and> v < ?n"
    by (auto simp: wired_def)
  have ids: "result_map (\<lambda>d. platform_device p (ds_id d)) (sp_devices spec) = Inr [0..<?n]"
    unfolding result_map_Inr_iff using assms(4,5) by (simp add: list_all2_conv_all_nth)
  have lt: "remaining_edges E {} v < 2 ^ 32" for v
    using remaining_edges_le [of E "{}" v] assms(3) by (simp add: E_def)
  let ?init = "filter (\<lambda>i. (of_nat (remaining_edges E {} i) :: u32) = 0) [0..<?n]"
  have z: "(of_nat (remaining_edges E {} v) :: u32) = 0 \<longleftrightarrow> remaining_edges E {} v = 0" for v
    by (rule of_nat_eq_0_u32 [OF lt])
  have c: "counts ?n ?init (\<lambda>v. of_nat (remaining_edges E {} v)) (remaining_edges E (set (take 0 ?init)))"
    using lt by (auto simp: counts_def z)
  have "\<forall>v\<in>set ?init. \<forall>u. (u, v) \<notin> set E" by (auto simp: z remaining_edges_0)
  then have t: "topological E ?init" unfolding topological_def using nth_mem by blast
  obtain order where o: "topological_loop ?n (edge_successors E) 0 (?init, \<lambda>v. of_nat (remaining_edges E {} v)) = Some order"
    "distinct order" "topological E order" "set order = {v. v < ?n \<and> (\<forall>u. (u, v) \<in> set E \<longrightarrow> u \<in> set order)}"
    using topological_loop_total [OF h(4) c t, of ?n] by auto
  have ac: "length order = ?n \<longleftrightarrow> acyclic (set E)" by (rule complete_iff_acyclic [OF h(4) o(3,2,4)])
  have dl: "length (pf_devices (wi_platform w)) = ?n" using assms(1) h(1) by (simp add: devs_ok_def)
  have eq: "platform_connect spec p = (if length order \<noteq> ?n then Inl (InvalidArgument ''sideband connection cycle'')
      else Inr ((wi_platform w)\<lparr>pf_order := order\<rparr>))"
    by (simp add: platform_connect_def ids assms(2,6) h(2,3) o(1) dl)
  have "set order = {..<?n}" if "length order = ?n"
  proof (rule card_subset_eq)
    show "set order \<subseteq> {..<?n}" using o(4) by auto
    show "card (set order) = card {..<?n}" using that o(2) by (simp add: distinct_card)
  qed simp
  then show ?thesis using w eq ac o(2,3) by auto
qed

text \<open>C24: sideband cycles are rejected, and only they. Once every connection has been resolved, \<^verbatim>\<open>connect\<close> throws exactly when
  the graph of the connections is cyclic (its worklist loop always ends); otherwise it returns an order of all
  devices, each once, in which the source of every connection comes before its destination.\<close>

theorem connect_rejects_cycles:
  assumes "devs_ok p" and "pf_order p = []" and "length (sp_connections spec) < 2 ^ 32"
    and "length (sp_devices spec) = length (pf_heap p)"
    and "\<forall>i<length (sp_devices spec). platform_device p (ds_id (sp_devices spec ! i)) = Inr i"
    and "result_fold connect_one (sp_connections spec) \<lparr>wi_platform = p, wi_successors = (\<lambda>_. []), wi_indegree = (\<lambda>_. 0)\<rparr> = Inr w"
  shows "(platform_connect spec p = Inl (InvalidArgument ''sideband connection cycle'') \<longleftrightarrow>
      \<not> acyclic (set (map (connection_edge p) (sp_connections spec)))) \<and>
    (acyclic (set (map (connection_edge p) (sp_connections spec))) \<longrightarrow>
      (\<exists>p'. platform_connect spec p = Inr p' \<and> distinct (pf_order p') \<and> set (pf_order p') = {..<length (pf_heap p)} \<and>
        (\<forall>c\<in>set (sp_connections spec). \<forall>j<length (pf_order p'). pf_order p' ! j = snd (connection_edge p c) \<longrightarrow>
           fst (connection_edge p c) \<in> set (take j (pf_order p')))))"
proof -
  let ?E = "map (connection_edge p) (sp_connections spec)"
  note c = platform_connect_eq [OF assms]
  have edges: "fst (connection_edge p c) \<in> set (take j order)"
    if "topological ?E order" "c \<in> set (sp_connections spec)" "j < length order" "order ! j = snd (connection_edge p c)" for order c j
  proof -
    have "(fst (connection_edge p c), order ! j) \<in> set ?E" using that(2,4) by (metis imageI list.set_map prod.collapse)
    then show ?thesis using that(1,3) unfolding topological_def by blast
  qed
  show ?thesis
  proof (cases "acyclic (set ?E)")
    case True
    then obtain order where "platform_connect spec p = Inr ((wi_platform w)\<lparr>pf_order := order\<rparr>)" "distinct order"
      "topological ?E order" "set order = {..<length (pf_heap p)}" using c by auto
    then show ?thesis using True edges by auto
  next
    case False
    then show ?thesis using c by simp
  qed
qed

section \<open>The constructed platform\<close>

lemma platform_reset_fields [simp]:
  "pf_devices (platform_reset p) = pf_devices p" "pf_space (platform_reset p) = pf_space p"
  "pf_order (platform_reset p) = pf_order p" "pf_was_reset (platform_reset p) = pf_was_reset p"
  by (simp_all add: platform_reset_def platform_settle_def)

lemma platform_reset_length:
  assumes "platform_wf p"
  shows "length (pf_heap (platform_reset p)) = length (pf_heap p)"
  using platform_reset_wf [OF assms] assms by (metis card_lessThan platform_reset_fields(3) platform_wf_def)

lemma platform_new_wf:
  assumes "registry_ok reg" and "factories_ok reg" and "length (sp_connections spec) < 2 ^ 32"
    and "platform_new host reg spec bits = Inr p"
  shows "platform_wf p \<and> as_wf (pf_space p) \<and> as_frozen (pf_space p) \<and> devices_ok (pf_space p) (pf_heap p) \<and>
    (bits = 32 \<longrightarrow> (\<forall>w\<in>set (as_mappings (pf_space p)). mp_to w \<le> 2 ^ 32)) \<and>
    length (pf_heap p) = length (sp_devices spec) \<and>
    (\<forall>i<length (sp_devices spec). platform_device p (ds_id (sp_devices spec ! i)) = Inr i) \<and> platform_settle p = p"
proof -
  obtain configs p1 p2 p4 p5 where cf: "result_fold (add_config reg) (sp_devices spec) [] = Inr configs"
    and p1: "result_fold (create_device host reg configs) (sp_devices spec) empty_platform = Inr p1"
    and p2: "result_fold (add_mapping bits) (sp_mappings spec) p1 = Inr p2"
    and p4: "result_fold (add_image reg configs spec) (sp_devices spec) (p2\<lparr>pf_space := as_freeze (pf_space p2)\<rparr>) = Inr p4"
    and p5: "platform_connect spec p4 = Inr p5" and p: "p = platform_reset p5"
    using assms(4) by (auto simp: platform_new_def Let_def)
  have "distinct (map ds_id (sp_devices spec))" using add_config_fold [OF sm.invar_empty cf] by simp
  then have c: "devs_ok p1" "length (pf_heap p1) = length (sp_devices spec)" "pf_order p1 = []" "pf_space p1 = as_new"
    "\<forall>i<length (sp_devices spec). map_of (pf_devices p1) (ds_id (sp_devices spec ! i)) = Some i"
    using create_fold [OF assms(2) empty_devs_ok _ _ p1] by (simp_all add: empty_platform_def)
  have "as_wf (pf_space p1)" "devices_ok (pf_space p1) (pf_heap p1)" by (simp_all add: c(4) as_new_def as_wf_def devices_ok_def)
  note m = add_mapping_fold [OF this c(1) _ p2]
  then obtain sp where sp: "p2 = p1\<lparr>pf_space := sp\<rparr>" "as_wf sp" "devices_ok sp (pf_heap p1)"
    "bits = 32 \<longrightarrow> (\<forall>w\<in>set (as_mappings sp). mp_to w \<le> 2 ^ 32)"
    by (auto simp: c(4) as_new_def)
  obtain im where im: "p4 = p2\<lparr>pf_space := as_freeze (pf_space p2), pf_images := im\<rparr>" using add_image_fold [OF p4] by auto
  have d4: "devs_ok p4" "pf_order p4 = []" "pf_heap p4 = pf_heap p1" "pf_space p4 = as_freeze sp" "pf_devices p4 = pf_devices p1"
    using c im sp by (simp_all add: devs_ok_def)
  have ids: "\<forall>i<length (sp_devices spec). platform_device p4 (ds_id (sp_devices spec ! i)) = Inr i"
    using c(5) d4(5) by (simp add: platform_device_def)
  have len: "length (sp_devices spec) = length (pf_heap p4)" using c(2) d4(3) by simp
  obtain w where w: "result_fold connect_one (sp_connections spec) \<lparr>wi_platform = p4, wi_successors = (\<lambda>_. []), wi_indegree = (\<lambda>_. 0)\<rparr> = Inr w"
    using p5 by (auto simp: platform_connect_def)
  let ?E = "map (connection_edge p4) (sp_connections spec)"
  note k = platform_connect_eq [OF d4(1,2) assms(3) len ids w]
  then obtain order where o: "p5 = (wi_platform w)\<lparr>pf_order := order\<rparr>" "distinct order" "topological ?E order"
    "set order = {..<length (pf_heap p4)}"
    using p5 by (auto split: if_splits)
  obtain h where h: "wi_platform w = p4\<lparr>pf_heap := h\<rparr>" "length h = length (pf_heap p4)" "heap_wf h"
    "\<forall>i<length h. \<forall>r\<in>set (dev_sources (h ! i)). (fst r, i) \<in> set ?E"
    using k by (auto simp: wired_def)
  have wf5: "platform_wf p5"
    unfolding platform_wf_def
  proof (intro conjI allI impI ballI)
    fix j r
    assume j: "j < length (pf_order p5)" and r: "r \<in> set (dev_sources (pf_heap p5 ! (pf_order p5 ! j)))"
    have "order ! j < length h" using nth_mem [of j order] j o h(2) by auto
    then have "(fst r, order ! j) \<in> set ?E" using r h(4) o(1) h(1) by simp
    then show "fst r \<in> set (take j (pf_order p5))" using o j h(1) by (auto simp: topological_def)
  qed (use o h in simp_all)
  note l = platform_reset_length [OF wf5]
  have "platform_settle p = p"
    unfolding p platform_reset_def by (rule platform_settle_idem [OF updated_heap_wf(2) [OF wf5]])
  moreover have "platform_wf p" unfolding p by (rule platform_reset_wf [OF wf5])
  moreover have "pf_space p5 = as_freeze sp" "pf_devices p5 = pf_devices p4" "length (pf_heap p5) = length (pf_heap p1)"
    using o(1) h d4 by simp_all
  ultimately show ?thesis
    using sp c(2) ids l by (auto simp: p as_freeze_def as_wf_def devices_ok_def platform_device_def)
qed

text \<open>C23: a platform that has been constructed is well formed. It has one device per entry of the specification, found
  under its name; the devices are well formed; the windows are non-empty, disjoint, end below \<open>2\<^sup>6\<^sup>4\<close> (and within the
  first \<open>2\<^sup>3\<^sup>2\<close> addresses on a 32-bit bus), lead to existing devices and can no longer change; every device reads
  only signals of devices settled before it; and all signals are settled.\<close>

theorem platform_new_wellformed:
  assumes "registry_ok reg" and "factories_ok reg" and "length (sp_connections spec) < 2 ^ 32"
    and "platform_new host reg spec bits = Inr p"
  shows "platform_wf p \<and> as_wf (pf_space p) \<and> as_frozen (pf_space p) \<and> devices_ok (pf_space p) (pf_heap p) \<and>
    (bits = 32 \<longrightarrow> (\<forall>w\<in>set (as_mappings (pf_space p)). mp_to w \<le> 2 ^ 32)) \<and>
    length (pf_heap p) = length (sp_devices spec) \<and>
    (\<forall>i<length (sp_devices spec). platform_device p (ds_id (sp_devices spec ! i)) = Inr i) \<and> platform_settle p = p"
  by (rule platform_new_wf [OF assms])

section \<open>The preset platform\<close>

definition range_fits :: "nat \<Rightarrow> u64 \<Rightarrow> u64 \<Rightarrow> bool" where
  "range_fits bits b s \<longleftrightarrow> 0 < unat s \<and> unat b + unat s < 2 ^ 64 \<and> (bits = 32 \<longrightarrow> unat b + unat s \<le> 2 ^ 32)"

definition ranges_apart :: "u64 \<Rightarrow> u64 \<Rightarrow> u64 \<Rightarrow> u64 \<Rightarrow> bool" where
  "ranges_apart b s b' s' \<longleftrightarrow> unat b + unat s \<le> unat b' \<or> unat b' + unat s' \<le> unat b"

lemma fits_32_iff:
  "\<not> (b \<ge> 0x100000000 \<or> s > 0x100000000 - b) \<longleftrightarrow> unat b < 2 ^ 32 \<and> unat b + unat s \<le> 2 ^ 32" for b s :: u64
proof (cases "b \<ge> 0x100000000")
  case False
  then have b: "unat b < 2 ^ 32" by (simp add: not_le word_less_nat_alt)
  have "b \<le> 0x100000000" using False by simp
  then have "unat (0x100000000 - b) = 2 ^ 32 - unat b" by (simp add: unat_sub)
  then show ?thesis using False b by (auto simp: word_less_nat_alt not_less)
qed (simp add: word_le_nat_alt)

lemma add_mapping_iff:
  assumes "as_wf (pf_space p)" and "\<not> as_frozen (pf_space p)" and "platform_device p (ms_device m) = Inr dev"
  shows "(\<exists>p'. add_mapping bits m p = Inr p') \<longleftrightarrow> range_fits bits (ms_base m) (ms_size m) \<and>
    (\<forall>w\<in>set (as_mappings (pf_space p)). ranges_apart (mp_base w) (mp_size w) (ms_base m) (ms_size m))"
proof -
  have "(\<exists>p'. add_mapping bits m p = Inr p') \<longleftrightarrow>
      \<not> (bits = 32 \<and> (ms_base m \<ge> 0x100000000 \<or> ms_size m > 0x100000000 - ms_base m)) \<and>
      (\<exists>sp. as_map (ms_base m) (ms_size m) dev (ms_device m) (pf_space p) = Inr sp)"
    using assms(3) by (auto simp: add_mapping_def)
  then show ?thesis
    using assms(2) unfolding as_map_Inr_iff [OF assms(1)] range_fits_def ranges_apart_def fits_32_iff [of "ms_base m" "ms_size m"] de_Morgan_conj
    by (auto simp: all_set_conv_all_nth mp_to_def mp_from_def)
qed

lemma add_mapping_facts:
  assumes "as_wf (pf_space p)" and "add_mapping bits m p = Inr q"
  shows "as_wf (pf_space q) \<and> as_frozen (pf_space q) = as_frozen (pf_space p) \<and> platform_device q = platform_device p \<and>
    (\<exists>dev. set (as_mappings (pf_space q)) =
      insert \<lparr>mp_base = ms_base m, mp_size = ms_size m, mp_device = dev, mp_name = ms_device m\<rparr> (set (as_mappings (pf_space p))))"
proof -
  obtain dev sp where sp: "as_map (ms_base m) (ms_size m) dev (ms_device m) (pf_space p) = Inr sp" and q: "q = p\<lparr>pf_space := sp\<rparr>"
    using assms(2) by (auto simp: add_mapping_def)
  have "as_frozen sp = as_frozen (pf_space p)" using sp by (auto simp: as_map_def Let_def split: if_splits)
  moreover have "set (take n xs) \<union> set (drop n xs) = set xs" for n :: nat and xs :: "mapping list"
    by (metis append_take_drop_id set_append)
  ultimately show ?thesis using as_map_result [OF assms(1) sp] q by (auto simp: platform_device_def fun_eq_iff)
qed

lemma add_mapping_fold_iff:
  assumes "as_wf (pf_space p)" and "\<not> as_frozen (pf_space p)" and "\<forall>m\<in>set ms. \<exists>dev. platform_device p (ms_device m) = Inr dev"
  shows "(\<exists>p'. result_fold (add_mapping bits) ms p = Inr p') \<longleftrightarrow>
    (\<forall>m\<in>set ms. range_fits bits (ms_base m) (ms_size m) \<and>
       (\<forall>w\<in>set (as_mappings (pf_space p)). ranges_apart (mp_base w) (mp_size w) (ms_base m) (ms_size m))) \<and>
    sorted_wrt (\<lambda>m m'. ranges_apart (ms_base m) (ms_size m) (ms_base m') (ms_size m')) ms"
  using assms
proof (induction ms arbitrary: p)
  case (Cons m ms)
  obtain dev where dev: "platform_device p (ms_device m) = Inr dev" using Cons.prems(3) by auto
  note i = add_mapping_iff [OF Cons.prems(1,2) dev, of bits]
  show ?case
  proof (cases "add_mapping bits m p")
    case (Inl e)
    then show ?thesis using i by auto
  next
    case (Inr q)
    note f = add_mapping_facts [OF Cons.prems(1) Inr]
    have "\<forall>m\<in>set ms. \<exists>dev. platform_device q (ms_device m) = Inr dev" using f Cons.prems(3) by simp
    note ih = Cons.IH [OF _ _ this]
    obtain d where d: "set (as_mappings (pf_space q)) =
        insert \<lparr>mp_base = ms_base m, mp_size = ms_size m, mp_device = d, mp_name = ms_device m\<rparr> (set (as_mappings (pf_space p)))"
      using f by blast
    have ok: "range_fits bits (ms_base m) (ms_size m) \<and>
        (\<forall>w\<in>set (as_mappings (pf_space p)). ranges_apart (mp_base w) (mp_size w) (ms_base m) (ms_size m))"
      using i Inr by blast
    have "(\<exists>p'. result_fold (add_mapping bits) (m # ms) p = Inr p') \<longleftrightarrow> (\<exists>p'. result_fold (add_mapping bits) ms q = Inr p')"
      using Inr by simp
    also have "\<dots> \<longleftrightarrow> (\<forall>m\<in>set ms. range_fits bits (ms_base m) (ms_size m) \<and>
       (\<forall>w\<in>set (as_mappings (pf_space q)). ranges_apart (mp_base w) (mp_size w) (ms_base m) (ms_size m))) \<and>
      sorted_wrt (\<lambda>m m'. ranges_apart (ms_base m) (ms_size m) (ms_base m') (ms_size m')) ms"
      using f Cons.prems(2) by (intro ih) simp_all
    finally show ?thesis using ok unfolding d by auto
  qed
qed simp

lemma add_config_total:
  assumes "smap_wf configs" and "distinct (map ds_id ds)"
    and "\<forall>d\<in>set ds. validate_name (ds_id d) = Inr () \<and> map_of configs (ds_id d) = None \<and> configure reg (ds_type d) (ds_properties d) = Inr (f d)"
  shows "\<exists>configs'. result_fold (add_config reg) ds configs = Inr configs' \<and> (\<forall>d\<in>set ds. map_of configs' (ds_id d) = Some (f d)) \<and>
    (\<forall>k. k \<notin> ds_id ` set ds \<longrightarrow> map_of configs' k = map_of configs k)"
  using assms
proof (induction ds arbitrary: configs)
  case (Cons d ds)
  let ?m = "fst (smap_emplace (ds_id d) (f d) configs)"
  have n: "map_of configs (ds_id d) = None" using Cons.prems(3) by simp
  have ins: "snd (smap_emplace (ds_id d) (f d) configs)" using sm.inserted [OF Cons.prems(1)] n by simp
  have l: "map_of ?m = (map_of configs)(ds_id d \<mapsto> f d)" using sm.lookup_emplace [OF Cons.prems(1), of "ds_id d" "f d"] n by simp
  have a: "add_config reg d configs = Inr ?m" using Cons.prems(3) ins by (simp add: add_config_def case_prod_beta)
  have dd: "ds_id d \<notin> ds_id ` set ds" "distinct (map ds_id ds)" using Cons.prems(2) by auto
  then have "\<forall>e\<in>set ds. validate_name (ds_id e) = Inr () \<and> map_of ?m (ds_id e) = None \<and> configure reg (ds_type e) (ds_properties e) = Inr (f e)"
    using Cons.prems(3) by (auto simp: l) (metis image_eqI)
  from Cons.IH [OF sm.invar_emplace [OF Cons.prems(1)] dd(2) this] show ?case using a dd(1) by (auto simp: l)
qed simp

lemma create_total:
  assumes "\<forall>d\<in>set ds. \<exists>t c create dev. map_of reg (ds_type d) = Some t \<and> map_of configs (ds_id d) = Some c \<and>
    dt_create t = Some create \<and> create c host = Inr (Some dev)"
  shows "\<exists>p'. result_fold (create_device host reg configs) ds p = Inr p'"
  using assms
proof (induction ds arbitrary: p)
  case (Cons d ds)
  obtain q where "create_device host reg configs d p = Inr q" using Cons.prems by (auto simp: create_device_def registry_type_def)
  then show ?case using Cons by auto
qed simp

lemma add_image_skips:
  assumes "\<forall>d\<in>set ds. \<exists>t c. map_of reg (ds_type d) = Some t \<and> map_of configs (ds_id d) = Some c \<and>
    (dt_image_option t = [] \<or> config_text c (dt_image_option t) = Inr [])"
  shows "result_fold (add_image reg configs spec) ds p = Inr p"
  using assms
proof (induction ds)
  case (Cons d ds)
  have "add_image reg configs spec d p = Inr p" using Cons.prems by (auto simp: add_image_def registry_type_def Let_def)
  then show ?case using Cons by simp
qed simp

lemma builtin_registry:
  assumes "register_builtin_devices [] = Inr reg"
  shows "map_of reg ''rom'' = Some rom_type" "map_of reg ''ram'' = Some ram_type"
    "map_of reg ''uart'' = Some uart_type" "map_of reg ''exit'' = Some exit_type"
proof -
  obtain r1 r2 r3 where a: "registry_add ''rom'' rom_type [] = Inr r1" "registry_add ''ram'' ram_type r1 = Inr r2"
    "registry_add ''uart'' uart_type r2 = Inr r3" "registry_add ''exit'' exit_type r3 = Inr reg"
    using assms by (auto simp: register_builtin_devices_def)
  note 1 = registry_add_ok [OF _ a(1)] and 2 = registry_add_ok [OF _ a(2)] and 3 = registry_add_ok [OF _ a(3)] and 4 = registry_add_ok [OF _ a(4)]
  have "map_of reg = [''rom'' \<mapsto> rom_type, ''ram'' \<mapsto> ram_type, ''uart'' \<mapsto> uart_type, ''exit'' \<mapsto> exit_type]"
    using 1 2 3 4 empty_registry_ok by simp
  then show "map_of reg ''rom'' = Some rom_type" "map_of reg ''ram'' = Some ram_type"
    "map_of reg ''uart'' = Some uart_type" "map_of reg ''exit'' = Some exit_type" by simp_all
qed

lemma decimal_constants: "parse_unsigned ''16'' = Inr 16" "parse_unsigned ''1024'' = Inr 1024"
  by (simp_all add: parse_unsigned_def from_chars_def digit_value_def)

text \<open>A memory of the preset: its size option is its size in decimal.\<close>

lemma preset_memory:
  assumes "registry_ok reg" and "map_of reg name = Some t" and "dt_options t = memory_options"
  shows "(\<exists>c. configure reg name [(''size'', show_dec (unat sz))] = Inr c) \<longleftrightarrow> 0 < unat sz"
    and "configure reg name [(''size'', show_dec (unat sz))] = Inr c \<Longrightarrow> config_number c ''size'' = Inr sz \<and> config_text c ''image'' = Inr []"
proof -
  let ?props = "[(''size'', show_dec (unat sz))]"
  have p: "parse_unsigned (show_dec (unat sz)) = Inr sz" using parse_show_dec [of "unat sz"] unat_u64_less [of sz] by simp
  have o: "hd memory_options \<in> set (dt_options t)" "last memory_options \<in> set (dt_options t)"
    by (simp_all add: assms(3) memory_options_def)
  have n: "op_name (hd memory_options) = ''size''" "op_name (last memory_options) = ''image''"
    "option_value ?props (hd memory_options) = show_dec (unat sz)" "option_value ?props (last memory_options) = []"
    by (simp_all add: memory_options_def default_option_def option_value_def)
  have m: "sz \<le> 0xFFFFFFFFFFFFFFFF" unfolding word_le_nat_alt using unat_u64_less [of sz] by simp
  have "sz \<ge> 1 \<longleftrightarrow> 0 < unat sz" by (simp add: word_le_nat_alt Suc_le_eq)
  then have "(\<forall>opt\<in>set memory_options. value_ok opt (option_value ?props opt)) \<longleftrightarrow> 0 < unat sz"
    using p m by (simp add: memory_options_def default_option_def value_ok_def option_value_def)
  moreover have "fst ` set ?props \<subseteq> op_name ` set memory_options" by (simp add: memory_options_def default_option_def)
  ultimately show "(\<exists>c. configure reg name ?props = Inr c) \<longleftrightarrow> 0 < unat sz"
    unfolding configure_iff [OF assms(1,2)] assms(3) by blast
  assume c: "configure reg name ?props = Inr c"
  show "config_number c ''size'' = Inr sz \<and> config_text c ''image'' = Inr []"
    using configure_text(1) [OF assms(1,2) c o(1)] configure_text(1) [OF assms(1,2) c o(2)] p by (simp add: n config_number_def)
qed

lemma preset_uart:
  assumes "registry_ok reg" and "map_of reg name = Some uart_type"
  obtains c where "configure reg name [] = Inr c" "config_text c ''input'' = Inr ''-''" "config_text c ''output'' = Inr ''-''"
    "config_number c ''character-cycles'' = Inr 16" "config_number c ''input-poll-cycles'' = Inr 1024"
proof -
  have "\<forall>opt\<in>set uart_options. value_ok opt (option_value [] opt)"
    by (simp add: uart_options_def default_option_def value_ok_def option_value_def decimal_constants)
  then obtain c where c: "configure reg name [] = Inr c" unfolding configure_iff [OF assms] uart_type_def by auto
  have t: "config_text c (op_name opt) = Inr (op_default_value opt)" if "opt \<in> set uart_options" for opt
    using configure_text(1) [OF assms c, of opt] that by (simp add: uart_type_def option_value_def)
  have "config_text c ''input'' = Inr ''-''" "config_text c ''output'' = Inr ''-''"
    "config_text c ''character-cycles'' = Inr ''16''" "config_text c ''input-poll-cycles'' = Inr ''1024''"
    using t [of "uart_options ! 0"] t [of "uart_options ! 1"] t [of "uart_options ! 2"] t [of "uart_options ! 3"]
    by (simp_all add: uart_options_def default_option_def)
  then show ?thesis using that c by (simp add: config_number_def decimal_constants)
qed

lemma preset_names: "validate_name ''rom'' = Inr ()" "validate_name ''ram'' = Inr ()" "validate_name ''uart'' = Inr ()" "validate_name ''exit'' = Inr ()"
  by (code_simp, code_simp, code_simp, code_simp)

definition preset_windows :: "default_map \<Rightarrow> (u64 \<times> u64) list" where
  "preset_windows m = [(dm_rom_base m, dm_rom_size m), (dm_ram_base m, dm_ram_size m),
     (dm_uart_base m, dm_uart_size m), (dm_exit_base m, dm_exit_size m)]"

definition preset_ok :: "nat \<Rightarrow> default_map \<Rightarrow> bool" where
  "preset_ok bits m \<longleftrightarrow> list_all (\<lambda>(b, s). range_fits bits b s) (preset_windows m) \<and>
     sorted_wrt (\<lambda>(b, s) (b', s'). ranges_apart b s b' s') (preset_windows m)"

lemma preset_mappings:
  "sp_mappings (default_platform m) = map2 (\<lambda>n (b, s). \<lparr>ms_device = n, ms_base = b, ms_size = s\<rparr>)
     [''rom'', ''ram'', ''uart'', ''exit''] (preset_windows m)"
  by (simp add: default_platform_def preset_windows_def)

text \<open>Up to the windows, construction of the preset fails only for an empty memory.\<close>

lemma preset_devices:
  assumes "register_builtin_devices [] = Inr reg" and "ho_open_input host ''-'' = Inr inp" and "ho_open_output host ''-'' = Inr ()"
    and "0 < unat (dm_rom_size m)" and "0 < unat (dm_ram_size m)"
  obtains configs p1 where "result_fold (add_config reg) (sp_devices (default_platform m)) [] = Inr configs"
    "result_fold (create_device host reg configs) (sp_devices (default_platform m)) empty_platform = Inr p1"
    "\<And>p. result_fold (add_image reg configs (default_platform m)) (sp_devices (default_platform m)) p = Inr p"
proof -
  have ok: "registry_ok reg" using register_builtin_ok [OF _ _ assms(1)] empty_registry_ok by blast
  note r = builtin_registry [OF assms(1)]
  let ?ds = "sp_devices (default_platform m)"
  obtain c1 where c1: "configure reg ''rom'' [(''size'', show_dec (unat (dm_rom_size m)))] = Inr c1"
    using preset_memory(1) [OF ok r(1), of "dm_rom_size m"] assms(4) by (auto simp: rom_type_def)
  obtain c2 where c2: "configure reg ''ram'' [(''size'', show_dec (unat (dm_ram_size m)))] = Inr c2"
    using preset_memory(1) [OF ok r(2), of "dm_ram_size m"] assms(5) by (auto simp: ram_type_def)
  obtain c3 where c3: "configure reg ''uart'' [] = Inr c3" "config_text c3 ''input'' = Inr ''-''" "config_text c3 ''output'' = Inr ''-''"
    "config_number c3 ''character-cycles'' = Inr 16" "config_number c3 ''input-poll-cycles'' = Inr 1024"
    by (rule preset_uart [OF ok r(3)])
  obtain c4 where c4: "configure reg ''exit'' [] = Inr c4" using configure_iff [OF ok r(4), of "[]"] by (auto simp: exit_type_def)
  let ?f = "\<lambda>d. if ds_id d = ''rom'' then c1 else if ds_id d = ''ram'' then c2 else if ds_id d = ''uart'' then c3 else c4"
  have "\<forall>d\<in>set ?ds. validate_name (ds_id d) = Inr () \<and> map_of [] (ds_id d) = None \<and> configure reg (ds_type d) (ds_properties d) = Inr (?f d)"
    using c1 c2 c3(1) c4 preset_names by (simp add: default_platform_def)
  then obtain configs where cf: "result_fold (add_config reg) ?ds [] = Inr configs" "\<forall>d\<in>set ?ds. map_of configs (ds_id d) = Some (?f d)"
    using add_config_total [OF sm.invar_empty, of ?ds reg ?f] by (auto simp: default_platform_def)
  have m: "map_of configs ''rom'' = Some c1" "map_of configs ''ram'' = Some c2" "map_of configs ''uart'' = Some c3" "map_of configs ''exit'' = Some c4"
    using cf(2) by (simp_all add: default_platform_def)
  note t1 = preset_memory(2) [OF ok r(1) _ c1] and t2 = preset_memory(2) [OF ok r(2) _ c2]
  have cr: "\<exists>d. create_rom c1 host = Inr (Some d)" "\<exists>d. create_ram c2 host = Inr (Some d)" "\<exists>d. create_exit c4 host = Inr (Some d)"
    using t1 t2 assms(4,5) by (simp_all add: create_rom_def create_ram_def create_exit_def rom_new_def ram_new_def rom_type_def ram_type_def)
  have cu: "\<exists>d. create_uart c3 host = Inr (Some d)"
    using c3 assms(2,3) by (cases inp) (simp add: create_uart_def Let_def uart_set_character_cycles_def uart_set_input_poll_cycles_def)
  obtain p1 where p1: "result_fold (create_device host reg configs) ?ds empty_platform = Inr p1"
    using create_total [of ?ds reg configs host empty_platform] r m cr cu
    by (auto simp: default_platform_def rom_type_def ram_type_def uart_type_def exit_type_def)
  have "result_fold (add_image reg configs (default_platform m)) ?ds p = Inr p" for p
    using r m t1 t2 by (intro add_image_skips) (auto simp: default_platform_def rom_type_def ram_type_def uart_type_def exit_type_def)
  then show ?thesis using that cf(1) p1 by blast
qed

lemma preset_platform_iff:
  assumes "register_builtin_devices [] = Inr reg" and "ho_open_input host ''-'' = Inr inp" and "ho_open_output host ''-'' = Inr ()"
    and "bits = 32 \<or> bits = 64"
  shows "(\<exists>p. platform_new host reg (default_platform m) bits = Inr p) \<longleftrightarrow> preset_ok bits m"
proof (cases "0 < unat (dm_rom_size m) \<and> 0 < unat (dm_ram_size m)")
  case True
  let ?spec = "default_platform m"
  obtain configs p1 where cf: "result_fold (add_config reg) (sp_devices ?spec) [] = Inr configs"
    and p1: "result_fold (create_device host reg configs) (sp_devices ?spec) empty_platform = Inr p1"
    and im: "\<And>p. result_fold (add_image reg configs ?spec) (sp_devices ?spec) p = Inr p"
    by (rule preset_devices [OF assms(1-3), of m]) (use True in auto)
  have fo: "factories_ok reg" using register_builtin_ok [OF _ _ assms(1)] empty_registry_ok by blast
  have "distinct (map ds_id (sp_devices ?spec))" by (simp add: default_platform_def)
  then have c: "devs_ok p1" "length (pf_heap p1) = length (sp_devices ?spec)" "pf_order p1 = []" "pf_space p1 = as_new"
    "\<forall>i<length (sp_devices ?spec). map_of (pf_devices p1) (ds_id (sp_devices ?spec ! i)) = Some i"
    using create_fold [OF fo empty_devs_ok _ _ p1] by (simp_all add: empty_platform_def)
  have "\<forall>w\<in>set (sp_mappings ?spec). \<exists>dev. platform_device p1 (ms_device w) = Inr dev"
    using c(5) [rule_format, of 0] c(5) [rule_format, of 1] c(5) [rule_format, of 2] c(5) [rule_format, of 3]
    by (simp add: default_platform_def platform_device_def)
  then have maps: "(\<exists>p2. result_fold (add_mapping bits) (sp_mappings ?spec) p1 = Inr p2) \<longleftrightarrow> preset_ok bits m"
    by (subst add_mapping_fold_iff) (simp_all add: c(4) as_new_def as_wf_def preset_mappings preset_windows_def preset_ok_def)
  have "\<exists>p5. platform_connect ?spec (p2\<lparr>pf_space := as_freeze (pf_space p2)\<rparr>) = Inr p5"
    if p2: "result_fold (add_mapping bits) (sp_mappings ?spec) p1 = Inr p2" for p2
  proof -
    obtain sp where sp: "p2 = p1\<lparr>pf_space := sp\<rparr>"
      using add_mapping_fold [OF _ _ c(1) _ p2] by (auto simp: c(4) as_new_def as_wf_def devices_ok_def)
    let ?q = "p2\<lparr>pf_space := as_freeze (pf_space p2)\<rparr>"
    have q: "devs_ok ?q" "pf_order ?q = []" "length (sp_devices ?spec) = length (pf_heap ?q)" "length (sp_connections ?spec) < 2 ^ 32"
      "\<forall>i<length (sp_devices ?spec). platform_device ?q (ds_id (sp_devices ?spec ! i)) = Inr i"
      using c by (simp_all add: sp devs_ok_def platform_device_def) (simp add: default_platform_def)
    have w: "result_fold connect_one (sp_connections ?spec) \<lparr>wi_platform = ?q, wi_successors = (\<lambda>_. []), wi_indegree = (\<lambda>_. 0)\<rparr> =
        Inr \<lparr>wi_platform = ?q, wi_successors = (\<lambda>_. []), wi_indegree = (\<lambda>_. 0)\<rparr>"
      by (simp add: default_platform_def)
    have "acyclic (set (map (connection_edge ?q) (sp_connections ?spec)))" by (simp add: default_platform_def acyclic_def)
    then show ?thesis using platform_connect_eq [OF q(1,2,4,3,5) w] by auto
  qed
  then have "(\<exists>p. platform_new host reg ?spec bits = Inr p) \<longleftrightarrow> (\<exists>p2. result_fold (add_mapping bits) (sp_mappings ?spec) p1 = Inr p2)"
    using assms(4) by (auto simp: platform_new_def cf p1 im Let_def)
  then show ?thesis using maps by simp
next
  case False
  have ok: "registry_ok reg" using register_builtin_ok [OF _ _ assms(1)] empty_registry_ok by blast
  note r = builtin_registry [OF assms(1)]
  have "\<not> (\<exists>configs. result_fold (add_config reg) (sp_devices (default_platform m)) [] = Inr configs)"
    using False preset_memory(1) [OF ok r(1), of "dm_rom_size m"] preset_memory(1) [OF ok r(2), of "dm_ram_size m"]
    by (auto simp: default_platform_def add_config_def rom_type_def ram_type_def)
  then have "\<not> (\<exists>p. platform_new host reg (default_platform m) bits = Inr p)" by (auto simp: platform_new_def)
  moreover have "\<not> preset_ok bits m" using False by (auto simp: preset_ok_def preset_windows_def range_fits_def)
  ultimately show ?thesis by simp
qed

text \<open>C26: the preset platform comes up exactly for valid address maps. With the built-in devices and a host that opens the
  standard streams, construction succeeds if and only if every window is non-empty and ends below \<open>2\<^sup>6\<^sup>4\<close> (on a 32-bit
  bus, within the first \<open>2\<^sup>3\<^sup>2\<close> addresses) and no two windows share an address.\<close>

theorem preset_platform_constructs:
  assumes "register_builtin_devices [] = Inr reg" and "ho_open_input host ''-'' = Inr inp" and "ho_open_output host ''-'' = Inr ()"
    and "bits = 32 \<or> bits = 64"
  shows "(\<exists>p. platform_new host reg (default_platform m) bits = Inr p) \<longleftrightarrow> preset_ok bits m"
  by (rule preset_platform_iff [OF assms])

section \<open>Examples\<close>

definition example_host :: host_services where
  "example_host = \<lparr>ho_open_input = (\<lambda>_. Inr (False, [])), ho_open_output = (\<lambda>_. Inr ()), ho_mmap = (\<lambda>_. False)\<rparr>"

definition example_registry :: device_registry where
  "example_registry = projr (register_builtin_devices [])"

lemma example_registry_ok:
  "register_builtin_devices [] = Inr example_registry" "registry_ok example_registry" "factories_ok example_registry"
proof -
  have "\<not> isl (register_builtin_devices [])" by code_simp
  then show r: "register_builtin_devices [] = Inr example_registry" by (simp add: example_registry_def)
  show "registry_ok example_registry" "factories_ok example_registry"
    using register_builtin_ok [OF _ _ r] empty_registry_ok by blast+
qed

lemma example_host_opens: "ho_open_input example_host ''-'' = Inr (False, [])" "ho_open_output example_host ''-'' = Inr ()"
  by (simp_all add: example_host_def)

lemma preset_map_ok: "preset_ok 32 preset_map"
  by (simp add: preset_ok_def preset_windows_def preset_map_def range_fits_def ranges_apart_def)

theorem preset_platform_constructs_witness:
  "\<exists>p. platform_new example_host example_registry (default_platform preset_map) 32 = Inr p"
  using preset_platform_constructs [OF example_registry_ok(1) example_host_opens, of 32 preset_map] preset_map_ok by simp

theorem platform_new_wellformed_witness:
  "\<exists>p. platform_new example_host example_registry (default_platform preset_map) 32 = Inr p \<and> platform_wf p \<and>
     platform_device p ''uart'' = Inr 2"
proof -
  obtain p where p: "platform_new example_host example_registry (default_platform preset_map) 32 = Inr p"
    using preset_platform_iff [OF example_registry_ok(1) example_host_opens, of 32 preset_map] preset_map_ok by auto
  have c: "length (sp_connections (default_platform preset_map)) < 2 ^ 32" by (simp add: default_platform_def)
  note w = platform_new_wellformed [OF example_registry_ok(2,3) c p]
  have "\<forall>i<length (sp_devices (default_platform preset_map)). platform_device p (ds_id (sp_devices (default_platform preset_map) ! i)) = Inr i"
    using w by blast
  from this [rule_format, of 2] have "platform_device p (ds_id (sp_devices (default_platform preset_map) ! 2)) = Inr 2"
    by (simp add: default_platform_def)
  then show ?thesis using p w by (simp add: default_platform_def)
qed

text \<open>An interrupt controller that drives its own source.\<close>

definition example_loop_platform :: platform where
  "example_loop_platform = empty_platform\<lparr>pf_devices := [(''plic'', 0)], pf_heap := [DPlic sideband_plic]\<rparr>"

definition example_loop_spec :: platform_spec where
  "example_loop_spec = \<lparr>sp_devices = [\<lparr>ds_id = ''plic'', ds_type = ''riscv-plic'', ds_properties = []\<rparr>], sp_mappings = [],
     sp_connections = [\<lparr>cs_source = ''plic.context0'', cs_destination = ''plic.source1''\<rparr>]\<rparr>"

theorem connect_rejects_cycles_witness:
  "platform_connect example_loop_spec example_loop_platform = Inl (InvalidArgument ''sideband connection cycle'')"
proof -
  let ?p = example_loop_platform and ?c = "\<lparr>cs_source = ''plic.context0'', cs_destination = ''plic.source1''\<rparr>"
  let ?w = "\<lparr>wi_platform = ?p, wi_successors = (\<lambda>_. []), wi_indegree = (\<lambda>_. 0)\<rparr>"
  have e: "endpoint ''plic.context0'' = Inr (''plic'', ''context0'')" "endpoint ''plic.source1'' = Inr (''plic'', ''source1'')"
    by (code_simp, code_simp)
  have d: "platform_device ?p ''plic'' = Inr 0" "pf_heap ?p = [DPlic sideband_plic]" "pf_order ?p = []"
    by (simp_all add: example_loop_platform_def platform_device_def empty_platform_def)
  have po: "port_index ''context0'' ''context'' (Suc 0) = Some 0" by (simp add: port_index_def from_chars_def digit_value_def)
  have i: "dev_input ''source1'' (DPlic sideband_plic) = Some \<lparr>in_width = 1, in_source = None\<rparr>"
    by (simp add: sideband_plic_facts)
  have o: "platform_output ?p ''plic.context0'' 1 = Inr (0, ''context0'')"
    by (simp add: platform_output_def e d plic_output_def sideband_plic_facts po)
  have "\<exists>w. connect_one ?c ?w = Inr w" by (simp add: connect_one_def Let_def e d i o [simplified] del: dev_input.simps)
  then obtain w where "connect_one ?c ?w = Inr w" by blast
  then have w: "result_fold connect_one (sp_connections example_loop_spec) ?w = Inr w" by (simp add: example_loop_spec_def)
  have ok: "devs_ok ?p" using sideband_plic_facts
    by (auto simp: devs_ok_def smap_wf_def example_loop_platform_def heap_wf_def input_sources_def split: if_splits)
  have edge: "connection_edge ?p ?c = (0, 0)" by (simp add: connection_edge_def endpoint_device_def e d)
  have "\<not> acyclic (set (map (connection_edge ?p) (sp_connections example_loop_spec)))"
    by (simp add: example_loop_spec_def edge acyclic_def)
  moreover have "length (sp_connections example_loop_spec) < 2 ^ 32" "length (sp_devices example_loop_spec) = length (pf_heap ?p)"
    "\<forall>i<length (sp_devices example_loop_spec). platform_device ?p (ds_id (sp_devices example_loop_spec ! i)) = Inr i"
    by (simp_all add: example_loop_spec_def d)
  ultimately show ?thesis using connect_rejects_cycles [OF ok d(3) _ _ _ w] by simp
qed

end
