(* ===== verification/Packed.thy ===== *)
theory Packed
  imports Axi_Prelude
begin

text \<open>
  The packed signal accessors of \<^verbatim>\<open>packed.hpp\<close>. A signal of the generated model has one of the integral
  types of Verilator or is an array of 32-bit words; an access past the end of such an array is undefined
  behaviour in C++. The bit-level meaning \<open>pbit\<close> of a signal is the specification: the word-wise loops of
  \<^verbatim>\<open>read_u64\<close> and \<^verbatim>\<open>write_u64\<close> read and write exactly the addressed bits.
\<close>

section \<open>Signals and words\<close>

datatype packed = CData u8 | SData u16 | IData u32 | QData u64 | VlWide "u32 list"

fun packed_word :: "packed \<Rightarrow> nat \<Rightarrow> u32 result" where
  "packed_word (CData v) i = (if i * 32 \<ge> 8 then Inr 0 else Inr (drop_bit (i * 32) (ucast v)))"
| "packed_word (SData v) i = (if i * 32 \<ge> 16 then Inr 0 else Inr (drop_bit (i * 32) (ucast v)))"
| "packed_word (IData v) i = (if i * 32 \<ge> 32 then Inr 0 else Inr (drop_bit (i * 32) v))"
| "packed_word (QData v) i = (if i * 32 \<ge> 64 then Inr 0 else Inr (ucast (drop_bit (i * 32) v)))"
| "packed_word (VlWide ws) i = (if i < length ws then Inr (ws ! i) else Inl (UndefinedBehaviour ''packed signal word index''))"

text \<open>The integral branch of \<^verbatim>\<open>set_word\<close> at the type \<^verbatim>\<open>Unsigned\<close>.\<close>

definition insert_word :: "nat \<Rightarrow> u32 \<Rightarrow> 'u::len word \<Rightarrow> 'u word" where
  "insert_word i v current =
     (let shift = i * 32; mask = push_bit shift (0xFFFFFFFF :: 'u word)
      in (current AND NOT mask) OR push_bit shift (ucast v))"

fun set_word :: "packed \<Rightarrow> nat \<Rightarrow> u32 \<Rightarrow> packed result" where
  "set_word (CData x) i v =
     (if i * 32 \<ge> 8 then Inl (OutOfRange ''packed signal word index'') else Inr (CData (ucast (insert_word i v (ucast x :: u32)))))"
| "set_word (SData x) i v =
     (if i * 32 \<ge> 16 then Inl (OutOfRange ''packed signal word index'') else Inr (SData (ucast (insert_word i v (ucast x :: u32)))))"
| "set_word (IData x) i v =
     (if i * 32 \<ge> 32 then Inl (OutOfRange ''packed signal word index'') else Inr (IData (insert_word i v x)))"
| "set_word (QData x) i v =
     (if i * 32 \<ge> 64 then Inl (OutOfRange ''packed signal word index'') else Inr (QData (insert_word i v x)))"
| "set_word (VlWide ws) i v =
     (if i < length ws then Inr (VlWide (ws[i := v])) else Inl (UndefinedBehaviour ''packed signal word index''))"

section \<open>Bits and fields\<close>

definition packed_bit :: "packed \<Rightarrow> nat \<Rightarrow> bool result" where
  "packed_bit sig index =
     result_bind (packed_word sig (index div 32)) (\<lambda>w. Inr (drop_bit (index mod 32) w AND 1 \<noteq> 0))"

definition packed_set_bit :: "packed \<Rightarrow> nat \<Rightarrow> bool \<Rightarrow> packed result" where
  "packed_set_bit sig index b =
     (let word_index = index div 32
      in result_bind (packed_word sig word_index) (\<lambda>current.
           let mask = push_bit (index mod 32) 1
           in set_word sig word_index (if b then current OR mask else current AND NOT mask)))"

function read_u64_loop :: "packed \<Rightarrow> nat \<Rightarrow> nat \<Rightarrow> nat \<Rightarrow> u64 \<Rightarrow> u64 result" where
  "read_u64_loop sig lsb width copied res =
     (if copied < width then
        let source_bit = lsb + copied;
            offset = source_bit mod 32;
            count = min (width - copied) (32 - offset);
            mask = (if count = 32 then 0xFFFFFFFF else push_bit count 1 - 1 :: u64)
        in result_bind (packed_word sig (source_bit div 32)) (\<lambda>w.
             let part = ucast (drop_bit offset w) AND mask
             in read_u64_loop sig lsb width (copied + count) (res OR push_bit copied part))
      else Inr res)"
  by pat_completeness auto
termination by (relation "measure (\<lambda>(sig, lsb, width, copied, res). width - copied)") auto

definition read_u64 :: "packed \<Rightarrow> nat \<Rightarrow> nat \<Rightarrow> u64 result" where
  "read_u64 sig lsb width =
     (if width > 64 then Inl (InvalidArgument ''read_u64 width exceeds 64 bits'') else read_u64_loop sig lsb width 0 0)"

function write_u64_loop :: "nat \<Rightarrow> nat \<Rightarrow> u64 \<Rightarrow> nat \<Rightarrow> packed \<Rightarrow> packed result" where
  "write_u64_loop lsb width v copied sig =
     (if copied < width then
        let destination_bit = lsb + copied;
            offset = destination_bit mod 32;
            count = min (width - copied) (32 - offset);
            low_mask = (if count = 32 then 0xFFFFFFFF else ucast (push_bit count (1 :: u64) - 1) :: u32);
            mask = push_bit offset low_mask
        in result_bind (packed_word sig (destination_bit div 32)) (\<lambda>current.
             let current' = (current AND NOT mask) OR (push_bit offset (ucast (drop_bit copied v)) AND mask)
             in result_bind (set_word sig (destination_bit div 32) current')
                  (\<lambda>sig'. write_u64_loop lsb width v (copied + count) sig'))
      else Inr sig)"
  by pat_completeness auto
termination by (relation "measure (\<lambda>(lsb, width, v, copied, sig). width - copied)") auto

definition write_u64 :: "packed \<Rightarrow> nat \<Rightarrow> nat \<Rightarrow> u64 \<Rightarrow> packed result" where
  "write_u64 sig lsb width v =
     (if width > 64 then Inl (InvalidArgument ''write_u64 width exceeds 64 bits'') else write_u64_loop lsb width v 0 sig)"

definition read_bytes :: "nat \<Rightarrow> packed \<Rightarrow> nat \<Rightarrow> u8 list result" where
  "read_bytes n sig lsb = result_map (\<lambda>i. result_bind (read_u64 sig (lsb + i * 8) 8) (\<lambda>v. Inr (ucast v))) [0..<n]"

definition write_bytes :: "packed \<Rightarrow> nat \<Rightarrow> u8 list \<Rightarrow> packed result" where
  "write_bytes sig lsb bytes = result_fold (\<lambda>i sig. write_u64 sig (lsb + i * 8) 8 (ucast (bytes ! i))) [0..<length bytes] sig"

declare read_u64_loop.simps [simp del] write_u64_loop.simps [simp del]

section \<open>The bits of a signal\<close>

fun packed_bits :: "packed \<Rightarrow> nat" where
  "packed_bits (CData v) = 8"
| "packed_bits (SData v) = 16"
| "packed_bits (IData v) = 32"
| "packed_bits (QData v) = 64"
| "packed_bits (VlWide ws) = 32 * length ws"

fun pbit :: "packed \<Rightarrow> nat \<Rightarrow> bool" where
  "pbit (CData v) k = bit v k"
| "pbit (SData v) k = bit v k"
| "pbit (IData v) k = bit v k"
| "pbit (QData v) k = bit v k"
| "pbit (VlWide ws) k = (k < 32 * length ws \<and> bit (ws ! (k div 32)) (k mod 32))"

fun same_type :: "packed \<Rightarrow> packed \<Rightarrow> bool" where
  "same_type (CData _) (CData _) = True"
| "same_type (SData _) (SData _) = True"
| "same_type (IData _) (IData _) = True"
| "same_type (QData _) (QData _) = True"
| "same_type (VlWide a) (VlWide b) = (length a = length b)"
| "same_type _ _ = False"

lemma same_type_refl [simp]: "same_type s s"
  by (cases s) simp_all

lemma same_type_trans [trans]: "same_type a b \<Longrightarrow> same_type b c \<Longrightarrow> same_type a c"
  by (cases a; cases b; cases c) simp_all

lemma same_type_bits: "same_type a b \<Longrightarrow> packed_bits b = packed_bits a"
  by (cases a; cases b) simp_all

lemma pbit_range: "pbit s k \<Longrightarrow> k < packed_bits s"
  by (cases s) (auto dest: bit_imp_le_length)

lemma packed_word_bit:
  assumes "32 * i < packed_bits s"
  shows "\<exists>w. packed_word s i = Inr w \<and> (\<forall>j<32. bit w j = pbit s (32 * i + j))"
proof (cases s)
  case (QData v)
  then have "i = 0 \<or> i = 1" using assms by auto
  then show ?thesis using QData by (auto simp: bit_simps)
next
  case (VlWide ws)
  have "(32 * i + j) div 32 = i" "(32 * i + j) mod 32 = j" if "j < 32" for j using that by simp_all
  then show ?thesis using VlWide assms by auto
qed (use assms in \<open>auto simp: bit_simps\<close>)

lemma insert_word_bit:
  fixes x :: "'u::len word"
  assumes "32 \<le> LENGTH('u)"
  shows "bit (insert_word i v x) k = (k < LENGTH('u) \<and> (if k div 32 = i then bit v (k mod 32) else bit x k))"
proof -
  have m: "(0xFFFFFFFF :: 'u word) = mask 32" by (simp add: mask_eq_exp_minus_1)
  have "k div 32 = i \<longleftrightarrow> i * 32 \<le> k \<and> k - i * 32 < 32" by auto
  moreover have "k - i * 32 = k mod 32" if "k div 32 = i" using that by (metis minus_div_mult_eq_mod)
  ultimately show ?thesis
    unfolding insert_word_def Let_def m using assms
    by (auto simp: bit_simps dest: bit_imp_le_length)
qed

lemma set_word_bit:
  assumes "32 * i < packed_bits s"
  shows "\<exists>s'. set_word s i v = Inr s' \<and> same_type s s' \<and>
    (\<forall>k. pbit s' k = (k < packed_bits s \<and> (if k div 32 = i then bit v (k mod 32) else pbit s k)))"
proof (cases s)
  case (CData x)
  then show ?thesis using assms by (auto simp: bit_simps insert_word_bit dest: bit_imp_le_length)
next
  case (SData x)
  then show ?thesis using assms by (auto simp: bit_simps insert_word_bit dest: bit_imp_le_length)
next
  case (IData x)
  then show ?thesis using assms by (auto simp: insert_word_bit dest: bit_imp_le_length)
next
  case (QData x)
  then show ?thesis using assms by (auto simp: insert_word_bit dest: bit_imp_le_length)
next
  case (VlWide ws)
  have "k div 32 < length ws" if "k < 32 * length ws" for k using that by auto
  then show ?thesis using assms VlWide by (auto simp: nth_list_update)
qed

section \<open>Fields\<close>

lemma field_masks:
  assumes "c \<le> 32"
  shows "(if c = 32 then 0xFFFFFFFF else push_bit c 1 - 1 :: u64) = mask c"
    and "(if c = 32 then 0xFFFFFFFF else ucast (push_bit c (1 :: u64) - 1) :: u32) = mask c"
proof -
  have "(push_bit c 1 - 1 :: u64) = mask c" by (simp add: mask_eq_exp_minus_1 push_bit_eq_mult)
  moreover have "ucast (mask c :: u64) = (mask c :: u32)" using assms by (auto intro!: bit_word_eqI simp: bit_simps)
  ultimately show "(if c = 32 then 0xFFFFFFFF else push_bit c 1 - 1 :: u64) = mask c"
    and "(if c = 32 then 0xFFFFFFFF else ucast (push_bit c (1 :: u64) - 1) :: u32) = mask c"
    by (auto simp: mask_eq_exp_minus_1)
qed

text \<open>The chunk of one iteration: it stays within one word of the signal.\<close>

lemma chunk:
  fixes lsb copied width :: nat
  defines "c \<equiv> min (width - copied) (32 - (lsb + copied) mod 32)"
  assumes "copied < width"
  shows "0 < c" "c \<le> 32" "copied + c \<le> width" "(lsb + copied) mod 32 + c \<le> 32"
    "j < c \<Longrightarrow> 32 * ((lsb + copied) div 32) + ((lsb + copied) mod 32 + j) = lsb + copied + j"
  using assms by auto

lemma append_bits:
  fixes res :: u64 and w :: u32
  shows "bit (res OR push_bit n (ucast (drop_bit k w) AND mask c)) j =
    (bit res j \<or> (n \<le> j \<and> j < n + c \<and> j < 64 \<and> bit w (k + (j - n))))"
  by (auto simp: bit_simps dest: bit_imp_le_length)

lemma read_u64_loop_bits:
  assumes "copied \<le> width" "width \<le> 64" "lsb + width \<le> packed_bits s" "\<And>j. bit res j = (j < copied \<and> pbit s (lsb + j))"
  shows "\<exists>r. read_u64_loop s lsb width copied res = Inr r \<and> (\<forall>j. bit r j = (j < width \<and> pbit s (lsb + j)))"
  using assms
proof (induction "width - copied" arbitrary: copied res rule: less_induct)
  case less
  show ?case
  proof (cases "copied < width")
    case False
    then show ?thesis using less.prems by (simp add: read_u64_loop.simps)
  next
    case True
    let ?o = "(lsb + copied) mod 32"
    let ?c = "min (width - copied) (32 - ?o)"
    note ch = chunk [OF True, where lsb = lsb]
    have "32 * ((lsb + copied) div 32) < packed_bits s" using True less.prems(3) ch(5) [where j = 0] ch(1) by linarith
    from packed_word_bit [OF this] obtain w where w: "packed_word s ((lsb + copied) div 32) = Inr w"
      "\<And>j. j < 32 \<Longrightarrow> bit w j = pbit s (32 * ((lsb + copied) div 32) + j)" by blast
    let ?res = "res OR push_bit copied (ucast (drop_bit ?o w) AND mask ?c)"
    have bits: "bit ?res j = (j < copied + ?c \<and> pbit s (lsb + j))" for j
    proof -
      have "bit w (?o + (j - copied)) = pbit s (lsb + j)" if "copied \<le> j" "j < copied + ?c"
      proof -
        have "j - copied < ?c" using that by linarith
        moreover from this have "?o + (j - copied) < 32" using ch(4) by linarith
        ultimately show ?thesis using w(2) [of "?o + (j - copied)"] ch(5) [of "j - copied"] that(1) by simp
      qed
      moreover have "j < 64" if "j < copied + ?c" using that ch(3) less.prems(2) by linarith
      ultimately show ?thesis unfolding append_bits less.prems(4) by (auto simp del: min_less_iff_conj)
    qed
    have "read_u64_loop s lsb width copied res = read_u64_loop s lsb width (copied + ?c) ?res"
      using True w(1) field_masks(1) [OF ch(2)] by (subst read_u64_loop.simps) (simp add: Let_def)
    moreover have "width - (copied + ?c) < width - copied" using True ch(1) by linarith
    ultimately show ?thesis using less.hyps [OF _ ch(3) less.prems(2,3) bits] by simp
  qed
qed

lemma read_u64_bits:
  assumes "width \<le> 64" "lsb + width \<le> packed_bits s"
  shows "\<exists>r. read_u64 s lsb width = Inr r \<and> (\<forall>j. bit r j = (j < width \<and> pbit s (lsb + j)))"
  using read_u64_loop_bits [of 0 width lsb s 0] assms by (simp add: read_u64_def)

lemma merge_bits:
  fixes w :: u32 and v :: u64 and k c n q :: nat
  assumes "q < 32"
  shows "bit ((w AND NOT (push_bit k (mask c))) OR (push_bit k (ucast (drop_bit n v)) AND push_bit k (mask c))) q =
    (if k \<le> q \<and> q < k + c then bit v (n + (q - k)) else bit w q)"
  using assms by (auto simp: bit_simps)

lemma write_u64_loop_bits:
  assumes "copied \<le> width" "width \<le> 64" "lsb + width \<le> packed_bits s"
  shows "\<exists>s'. write_u64_loop lsb width v copied s = Inr s' \<and> same_type s s' \<and>
    (\<forall>k. pbit s' k = (if lsb + copied \<le> k \<and> k < lsb + width then bit v (k - lsb) else pbit s k))"
  using assms
proof (induction "width - copied" arbitrary: copied s rule: less_induct)
  case less
  show ?case
  proof (cases "copied < width")
    case False
    then show ?thesis using less.prems by (auto simp: write_u64_loop.simps)
  next
    case True
    let ?d = "lsb + copied"
    let ?o = "?d mod 32" and ?i = "?d div 32"
    let ?c = "min (width - copied) (32 - ?o)"
    note ch = chunk [OF True, where lsb = lsb]
    have r: "32 * ?i < packed_bits s" using True less.prems(3) ch(5) [where j = 0] ch(1) by linarith
    from packed_word_bit [OF r] obtain w where w: "packed_word s ?i = Inr w" "\<And>j. j < 32 \<Longrightarrow> bit w j = pbit s (32 * ?i + j)" by blast
    let ?m = "push_bit ?o (mask ?c :: u32)"
    let ?w = "(w AND NOT ?m) OR (push_bit ?o (ucast (drop_bit copied v)) AND ?m)"
    obtain s1 where s1: "set_word s ?i ?w = Inr s1" "same_type s s1"
      "\<And>k. pbit s1 k = (k < packed_bits s \<and> (if k div 32 = ?i then bit ?w (k mod 32) else pbit s k))"
      using set_word_bit [OF r, of ?w] by blast
    have bits: "pbit s1 k = (if ?d \<le> k \<and> k < ?d + ?c then bit v (k - lsb) else pbit s k)" for k
    proof (cases "k div 32 = ?i")
      case True
      then have k: "k = 32 * ?i + k mod 32" by (metis mult_div_mod_eq)
      have d: "?d = 32 * ?i + ?o" by simp
      have in_chunk: "?o \<le> k mod 32 \<and> k mod 32 < ?o + ?c \<longleftrightarrow> ?d \<le> k \<and> k < ?d + ?c" using k d by linarith
      have old: "bit w (k mod 32) = pbit s k" using w(2) [of "k mod 32"] k by simp
      have pos: "copied + (k mod 32 - ?o) = k - lsb" if "?d \<le> k" using that k d by linarith
      have "k < packed_bits s" if "?d \<le> k \<and> k < ?d + ?c" using that ch(3) less.prems(3) by linarith
      moreover have "bit ?w (k mod 32) = (if ?d \<le> k \<and> k < ?d + ?c then bit v (k - lsb) else bit w (k mod 32))"
        using merge_bits [of "k mod 32" w ?o ?c copied v] in_chunk pos by (auto simp del: min_less_iff_conj)
      ultimately show ?thesis using s1(3) [of k] True old pbit_range [of s k] by auto
    next
      case False
      have "\<not> (?d \<le> k \<and> k < ?d + ?c)"
      proof
        assume a: "?d \<le> k \<and> k < ?d + ?c"
        have "k = 32 * ?i + (?o + (k - ?d))" "?o + (k - ?d) < 32" using a ch(4) by simp_all linarith
        then have "k div 32 = ?i" by (metis div_mult_self4 div_less add_0_right zero_neq_numeral add.commute)
        then show False using False by simp
      qed
      then show ?thesis using False s1(3) [of k] pbit_range [of s k] by auto
    qed
    have "write_u64_loop lsb width v copied s = write_u64_loop lsb width v (copied + ?c) s1"
      using True w(1) s1(1) field_masks(2) [OF ch(2)] by (subst write_u64_loop.simps) (simp add: Let_def)
    moreover have "width - (copied + ?c) < width - copied" using True ch(1) by linarith
    moreover have "lsb + width \<le> packed_bits s1" using less.prems(3) same_type_bits [OF s1(2)] by simp
    ultimately obtain s' where s': "write_u64_loop lsb width v copied s = Inr s'" "same_type s1 s'"
      "\<And>k. pbit s' k = (if lsb + (copied + ?c) \<le> k \<and> k < lsb + width then bit v (k - lsb) else pbit s1 k)"
      using less.hyps [OF _ ch(3) less.prems(2)] by metis
    have "pbit s' k = (if ?d \<le> k \<and> k < lsb + width then bit v (k - lsb) else pbit s k)" for k
      using s'(3) [of k] bits [of k] ch(3) by auto
    then show ?thesis using s'(1) same_type_trans [OF s1(2) s'(2)] by blast
  qed
qed

lemma write_u64_bits:
  assumes "width \<le> 64" "lsb + width \<le> packed_bits s"
  shows "\<exists>s'. write_u64 s lsb width v = Inr s' \<and> same_type s s' \<and>
    (\<forall>k. pbit s' k = (if lsb \<le> k \<and> k < lsb + width then bit v (k - lsb) else pbit s k))"
  using write_u64_loop_bits [of 0 width lsb s v] assms by (simp add: write_u64_def)

lemma packed_bit_pbit: "k < packed_bits s \<Longrightarrow> packed_bit s k = Inr (pbit s k)"
proof -
  assume k: "k < packed_bits s"
  then have "32 * (k div 32) < packed_bits s" by (meson le_less_trans times_div_less_eq_dividend)
  then obtain w where "packed_word s (k div 32) = Inr w" "bit w (k mod 32) = pbit s k"
    using packed_word_bit [of "k div 32" s] by auto
  then show ?thesis by (simp add: packed_bit_def and_one_eq bit_iff_odd_drop_bit odd_iff_mod_2_eq_one)
qed

lemma packed_set_bit_pbit:
  assumes k: "k < packed_bits s"
  shows "\<exists>s'. packed_set_bit s k b = Inr s' \<and> same_type s s' \<and> (\<forall>i. pbit s' i = (if i = k then b else pbit s i))"
proof -
  have r: "32 * (k div 32) < packed_bits s" using k by (meson le_less_trans times_div_less_eq_dividend)
  obtain w where w: "packed_word s (k div 32) = Inr w" "\<And>j. j < 32 \<Longrightarrow> bit w j = pbit s (32 * (k div 32) + j)"
    using packed_word_bit [OF r] by blast
  let ?w = "if b then w OR push_bit (k mod 32) 1 else w AND NOT (push_bit (k mod 32) 1)"
  obtain s' where s': "set_word s (k div 32) ?w = Inr s'" "same_type s s'"
    "\<And>i. pbit s' i = (i < packed_bits s \<and> (if i div 32 = k div 32 then bit ?w (i mod 32) else pbit s i))"
    using set_word_bit [OF r] by blast
  have wb: "bit ?w j = (if j = k mod 32 then b else bit w j)" if "j < 32" for j using that by (auto simp: bit_simps)
  have "pbit s' i = (if i = k then b else pbit s i)" for i
  proof (cases "i div 32 = k div 32")
    case True
    then have i: "i = 32 * (k div 32) + i mod 32" by (metis mult_div_mod_eq)
    then have "bit w (i mod 32) = pbit s i" using w(2) [of "i mod 32"] by simp
    moreover have "i = k \<longleftrightarrow> i mod 32 = k mod 32" using True by (metis mult_div_mod_eq)
    ultimately show ?thesis using s'(3) [of i] True wb [of "i mod 32"] k pbit_range [of s i] by auto
  next
    case False
    then show ?thesis using s'(3) [of i] pbit_range [of s i] by auto
  qed
  then show ?thesis using w(1) s'(1,2) by (auto simp: packed_set_bit_def Let_def)
qed

lemma lane_of:
  fixes p w k :: nat
  assumes "p * w \<le> k" "k < p * w + w"
  shows "k div w = p" "k mod w = k - p * w"
proof -
  show q: "k div w = p" using assms by (intro div_nat_eqI) (simp_all add: ac_simps)
  show "k mod w = k - p * w" using q by (metis minus_div_mult_eq_mod)
qed

section \<open>The contract of a bit store\<close>

text \<open>What the binding relies on: reading a field delivers its bits, writing one sets its bits and no others.
  Two stores are of the same \<open>kind\<close> if they have the same C++ type.\<close>

locale field_store =
  fixes get :: "'s \<Rightarrow> nat \<Rightarrow> nat \<Rightarrow> u64 result"
    and put :: "'s \<Rightarrow> nat \<Rightarrow> nat \<Rightarrow> u64 \<Rightarrow> 's result"
    and cell :: "'s \<Rightarrow> nat \<Rightarrow> bool"
    and extent :: "'s \<Rightarrow> nat"
    and kind :: "'s \<Rightarrow> 's \<Rightarrow> bool"
  assumes get_law: "w \<le> 64 \<Longrightarrow> l + w \<le> extent s \<Longrightarrow> \<exists>r. get s l w = Inr r \<and> (\<forall>j. bit r j = (j < w \<and> cell s (l + j)))"
    and put_law: "w \<le> 64 \<Longrightarrow> l + w \<le> extent s \<Longrightarrow> \<exists>s'. put s l w v = Inr s' \<and> kind s s' \<and>
      (\<forall>k. cell s' k = (if l \<le> k \<and> k < l + w then bit v (k - l) else cell s k))"
    and kind_refl: "kind s s"
    and kind_trans: "kind a b \<Longrightarrow> kind b c \<Longrightarrow> kind a c"
    and kind_extent: "kind a b \<Longrightarrow> extent b = extent a"
begin

lemma get_eqI:
  assumes "w \<le> 64" "l + w \<le> extent s" "\<And>j. bit v j = (j < w \<and> cell s (l + j))"
  shows "get s l w = Inr v"
proof -
  obtain r where r: "get s l w = Inr r" "\<And>j. bit r j = (j < w \<and> cell s (l + j))" using get_law [OF assms(1,2)] by blast
  have "r = v" by (rule bit_eqI) (simp add: r(2) assms(3))
  then show ?thesis using r(1) by simp
qed

lemma put_get:
  assumes "w \<le> 64" "l + w \<le> extent s"
  shows "\<exists>s'. put s l w v = Inr s' \<and> kind s s' \<and> get s' l w = Inr (take_bit w v) \<and>
    (\<forall>l' w'. w' \<le> 64 \<longrightarrow> l' + w' \<le> extent s \<longrightarrow> l' + w' \<le> l \<or> l + w \<le> l' \<longrightarrow> get s' l' w' = get s l' w')"
proof -
  obtain s' where s': "put s l w v = Inr s'" "kind s s'"
    "\<And>k. cell s' k = (if l \<le> k \<and> k < l + w then bit v (k - l) else cell s k)" using put_law [OF assms] by blast
  have "get s' l w = Inr (take_bit w v)"
    by (rule get_eqI) (use assms kind_extent [OF s'(2)] in \<open>auto simp: s'(3) bit_simps dest: bit_imp_le_length\<close>)
  moreover have "get s' l' w' = get s l' w'" if w': "w' \<le> 64" "l' + w' \<le> extent s" "l' + w' \<le> l \<or> l + w \<le> l'" for l' w'
  proof -
    obtain r where r: "get s l' w' = Inr r" "\<And>j. bit r j = (j < w' \<and> cell s (l' + j))" using get_law [OF w'(1,2)] by blast
    have "get s' l' w' = Inr r"
      by (rule get_eqI) (use w' kind_extent [OF s'(2)] in \<open>auto simp: s'(3) r(2)\<close>)
    then show ?thesis using r(1) by simp
  qed
  ultimately show ?thesis using s'(1,2) by blast
qed

text \<open>An array of \<open>n\<close> fields of width \<open>w\<close>, written in order.\<close>

lemma put_fields:
  assumes "w \<le> 64" "0 < w" "l + n * w \<le> extent s"
  shows "\<exists>s'. result_fold (\<lambda>i s. put s (l + i * w) w (v i)) [0..<n] s = Inr s' \<and> kind s s' \<and>
    (\<forall>k. cell s' k = (if l \<le> k \<and> k < l + n * w then bit (v ((k - l) div w)) ((k - l) mod w) else cell s k))"
  using assms(3)
proof (induction n)
  case 0
  then show ?case by (auto simp: kind_refl)
next
  case (Suc n)
  then have "l + n * w \<le> extent s" by simp
  then obtain s1 where s1: "result_fold (\<lambda>i s. put s (l + i * w) w (v i)) [0..<n] s = Inr s1" "kind s s1"
    "\<And>k. cell s1 k = (if l \<le> k \<and> k < l + n * w then bit (v ((k - l) div w)) ((k - l) mod w) else cell s k)"
    using Suc.IH by blast
  have "l + n * w + w \<le> extent s1" using Suc.prems kind_extent [OF s1(2)] by simp
  then obtain s2 where s2: "put s1 (l + n * w) w (v n) = Inr s2" "kind s1 s2"
    "\<And>k. cell s2 k = (if l + n * w \<le> k \<and> k < l + n * w + w then bit (v n) (k - (l + n * w)) else cell s1 k)"
    using put_law [OF assms(1)] by blast
  have "cell s2 k = (if l \<le> k \<and> k < l + Suc n * w then bit (v ((k - l) div w)) ((k - l) mod w) else cell s k)" for k
  proof (cases "l + n * w \<le> k \<and> k < l + n * w + w")
    case True
    then have "n * w \<le> k - l" "k - l < n * w + w" by linarith+
    from lane_of [OF this] have "(k - l) div w = n" "(k - l) mod w = k - (l + n * w)" by simp_all
    then show ?thesis using True s2(3) [of k] by auto
  next
    case False
    then show ?thesis using s2(3) [of k] s1(3) [of k] by auto
  qed
  then show ?case using s1(1) s2(1) kind_trans [OF s1(2) s2(2)] by (auto simp: result_fold_append)
qed

end

interpretation pk: field_store read_u64 write_u64 pbit packed_bits same_type
  by unfold_locales
    (rule read_u64_bits write_u64_bits same_type_refl same_type_trans same_type_bits; assumption)+

section \<open>Byte arrays\<close>

lemma write_bytes_bits:
  assumes "l + length bs * 8 \<le> packed_bits s"
  shows "\<exists>s'. write_bytes s l bs = Inr s' \<and> same_type s s' \<and>
    (\<forall>k. pbit s' k = (if l \<le> k \<and> k < l + length bs * 8 then bit (bs ! ((k - l) div 8)) ((k - l) mod 8) else pbit s k))"
proof -
  obtain s' where s': "write_bytes s l bs = Inr s'" "same_type s s'"
    "\<And>k. pbit s' k = (if l \<le> k \<and> k < l + length bs * 8 then bit (ucast (bs ! ((k - l) div 8)) :: u64) ((k - l) mod 8) else pbit s k)"
    using pk.put_fields [where w = 8 and l = l and n = "length bs" and s = s and v = "\<lambda>i. ucast (bs ! i)"] assms
    unfolding write_bytes_def by auto
  have "bit (ucast (b :: u8) :: u64) (i mod 8) = bit b (i mod 8)" for b and i :: nat
    using mod_less_divisor [of 8 i] by (simp add: bit_ucast_iff less_trans [of "i mod 8" 8 64])
  then show ?thesis using s' by metis
qed

lemma read_bytes_bits:
  assumes "l + n * 8 \<le> packed_bits s"
  shows "\<exists>bs. read_bytes n s l = Inr bs \<and> length bs = n \<and> (\<forall>i<n. \<forall>j<8. bit (bs ! i) j = pbit s (l + i * 8 + j))"
proof -
  let ?f = "\<lambda>i. result_bind (read_u64 s (l + i * 8) 8) (\<lambda>v. Inr (ucast v :: u8))"
  have "\<exists>b. ?f i = Inr b \<and> (\<forall>j<8. bit b j = pbit s (l + i * 8 + j))" if "i < n" for i
  proof -
    have "l + i * 8 + 8 \<le> packed_bits s" using that assms by linarith
    then obtain r where "read_u64 s (l + i * 8) 8 = Inr r" "\<And>j. bit r j = (j < 8 \<and> pbit s (l + i * 8 + j))"
      using read_u64_bits [of 8 "l + i * 8" s] by auto
    then show ?thesis by (auto simp: bit_simps)
  qed
  then obtain b where b: "\<And>i. i < n \<Longrightarrow> ?f i = Inr (b i) \<and> (\<forall>j<8. bit (b i) j = pbit s (l + i * 8 + j))" by metis
  have "read_bytes n s l = Inr (map b [0..<n])"
    unfolding read_bytes_def result_map_Inr_iff using b by (simp add: list_all2_conv_all_nth)
  then show ?thesis using b by (intro exI [of _ "map b [0..<n]"]) simp
qed

section \<open>Properties\<close>

text \<open>C18: fields of a packed signal are independent storage. Writing a field of at most 64 bits anywhere inside a signal,
  also across its 32-bit words, never throws and stays inside the array; reading the field back gives the
  written value cut to its width, every disjoint field reads as before, and the signal keeps its type.\<close>

theorem packed_field_roundtrip:
  assumes "width \<le> 64" and "lsb + width \<le> packed_bits s"
  shows "\<exists>s'. write_u64 s lsb width v = Inr s' \<and> same_type s s' \<and> read_u64 s' lsb width = Inr (take_bit width v) \<and>
    (\<forall>lsb' width'. width' \<le> 64 \<longrightarrow> lsb' + width' \<le> packed_bits s \<longrightarrow> lsb' + width' \<le> lsb \<or> lsb + width \<le> lsb' \<longrightarrow>
       read_u64 s' lsb' width' = read_u64 s lsb' width')"
  by (rule pk.put_get [OF assms])

theorem packed_field_roundtrip_witness:
  "\<exists>s'. write_u64 (VlWide [1, 2, 3]) 20 50 0x123456789ABCDEF = Inr s' \<and> read_u64 s' 20 50 = Inr (take_bit 50 0x123456789ABCDEF)
     \<and> read_u64 s' 0 20 = read_u64 (VlWide [1, 2, 3]) 0 20"
proof -
  have "20 + 50 \<le> packed_bits (VlWide [1, 2, 3])" by simp
  from packed_field_roundtrip [OF _ this, of "0x123456789ABCDEF"] obtain s' where
    s': "write_u64 (VlWide [1, 2, 3]) 20 50 0x123456789ABCDEF = Inr s'"
      "read_u64 s' 20 50 = Inr (take_bit 50 0x123456789ABCDEF)"
      "\<forall>lsb' width'. width' \<le> 64 \<longrightarrow> lsb' + width' \<le> packed_bits (VlWide [1, 2, 3]) \<longrightarrow> lsb' + width' \<le> 20 \<or> 20 + 50 \<le> lsb' \<longrightarrow>
       read_u64 s' lsb' width' = read_u64 (VlWide [1, 2, 3]) lsb' width'" by auto
  from s'(3) [rule_format, of 20 0] have "read_u64 s' 0 20 = read_u64 (VlWide [1, 2, 3]) 0 20" by simp
  then show ?thesis using s'(1,2) by blast
qed

end
