(* ===== verification/Verilated_Binding.thy ===== *)
theory Verilated_Binding
  imports Fabric_Invariant Packed
begin

text \<open>
  \<^verbatim>\<open>VerilatedAxiBinding\<close> of \<^verbatim>\<open>verilated_binding.hpp\<close>: \<^verbatim>\<open>sample\<close> unpacks the AXI outputs of the design under test into
  \<^verbatim>\<open>MasterSignals\<close>, \<^verbatim>\<open>drive\<close> packs \<^verbatim>\<open>SlaveSignals\<close> into its inputs. The class \<^verbatim>\<open>Top\<close> is generated by Verilator; the record
  \<open>axi_pins\<close> holds the members the binding accesses, and \<open>pins_ok\<close> states their types: a packed port of \<open>n\<close> bits is
  the smallest of the integral types that holds it, or an array of 32-bit words.
\<close>

section \<open>The pins of the design\<close>

record axi_pins =
  t_aw_valid :: packed
  t_aw_id :: packed
  t_aw_addr :: packed
  t_aw_len :: packed
  t_aw_size :: packed
  t_aw_burst :: packed
  t_aw_lock :: packed
  t_aw_cache :: packed
  t_aw_prot :: packed
  t_w_valid :: packed
  t_w_data :: packed
  t_w_strb :: packed
  t_w_last :: packed
  t_b_ready :: packed
  t_ar_valid :: packed
  t_ar_id :: packed
  t_ar_addr :: packed
  t_ar_len :: packed
  t_ar_size :: packed
  t_ar_burst :: packed
  t_ar_lock :: packed
  t_ar_cache :: packed
  t_ar_prot :: packed
  t_r_ready :: packed
  t_aw_ready :: packed
  t_w_ready :: packed
  t_b_valid :: packed
  t_b_id :: packed
  t_b_resp :: packed
  t_ar_ready :: packed
  t_r_valid :: packed
  t_r_id :: packed
  t_r_data :: packed
  t_r_resp :: packed
  t_r_last :: packed

section \<open>Sampling\<close>

text \<open>\<^verbatim>\<open>static_cast<Burst>\<close> of a two-bit value.\<close>

definition burst_of_code :: "u64 \<Rightarrow> burst" where
  "burst_of_code c = (if c = 0 then Fixed else if c = 1 then Increment else if c = 2 then Wrap else Reserved)"

text \<open>The statements that fill one \<^verbatim>\<open>AddressPayload\<close>, the same for AW and AR.\<close>

definition sample_address ::
  "fabric_config \<Rightarrow> nat \<Rightarrow> packed \<Rightarrow> packed \<Rightarrow> packed \<Rightarrow> packed \<Rightarrow> packed \<Rightarrow> packed \<Rightarrow> packed \<Rightarrow> packed \<Rightarrow> address_payload result" where
  "sample_address cfg port idp addr len siz burst lock cache prot =
     result_bind (read_u64 idp (port * id_bits cfg) (id_bits cfg)) (\<lambda>v_id.
     result_bind (read_u64 addr (port * address_bits cfg) (address_bits cfg)) (\<lambda>v_addr.
     result_bind (read_u64 len (port * 8) 8) (\<lambda>v_len.
     result_bind (read_u64 siz (port * 3) 3) (\<lambda>v_size.
     result_bind (read_u64 burst (port * 2) 2) (\<lambda>v_burst.
     result_bind (packed_bit lock port) (\<lambda>v_lock.
     result_bind (read_u64 cache (port * 4) 4) (\<lambda>v_cache.
     result_bind (read_u64 prot (port * 3) 3) (\<lambda>v_prot.
     Inr \<lparr>ax_id = v_id, ax_address = v_addr, ax_length = ucast v_len, ax_size = ucast v_size,
          ax_burst = burst_of_code v_burst, ax_lock = v_lock, ax_cache = ucast v_cache, ax_protection = ucast v_prot\<rparr>))))))))"

definition sample_port :: "fabric_config \<Rightarrow> axi_pins \<Rightarrow> nat \<Rightarrow> master_signals result" where
  "sample_port cfg pins port =
     result_bind (packed_bit (t_aw_valid pins) port) (\<lambda>v_aw_valid.
     result_bind (sample_address cfg port (t_aw_id pins) (t_aw_addr pins) (t_aw_len pins) (t_aw_size pins) (t_aw_burst pins)
       (t_aw_lock pins) (t_aw_cache pins) (t_aw_prot pins)) (\<lambda>v_aw.
     result_bind (packed_bit (t_w_valid pins) port) (\<lambda>v_w_valid.
     result_bind (read_bytes (data_bytes cfg) (t_w_data pins) (port * data_bits cfg)) (\<lambda>v_data.
     result_bind (read_u64 (t_w_strb pins) (port * data_bytes cfg) (data_bytes cfg)) (\<lambda>strobe.
     result_bind (packed_bit (t_w_last pins) port) (\<lambda>v_last.
     result_bind (packed_bit (t_b_ready pins) port) (\<lambda>v_b_ready.
     result_bind (packed_bit (t_ar_valid pins) port) (\<lambda>v_ar_valid.
     result_bind (sample_address cfg port (t_ar_id pins) (t_ar_addr pins) (t_ar_len pins) (t_ar_size pins) (t_ar_burst pins)
       (t_ar_lock pins) (t_ar_cache pins) (t_ar_prot pins)) (\<lambda>v_ar.
     result_bind (packed_bit (t_r_ready pins) port) (\<lambda>v_r_ready.
     Inr \<lparr>aw_valid = v_aw_valid, m_aw = v_aw, w_valid = v_w_valid,
          m_w = \<lparr>w_data = v_data, w_strobe = map (\<lambda>lane. ucast (drop_bit lane strobe AND 1)) [0..<data_bytes cfg], w_last = v_last\<rparr>,
          b_ready = v_b_ready, ar_valid = v_ar_valid, m_ar = v_ar, r_ready = v_r_ready\<rparr>))))))))))"

definition sample :: "fabric_config \<Rightarrow> axi_pins \<Rightarrow> master_signals list result" where
  "sample cfg pins = result_map (sample_port cfg pins) [0..<num_ports cfg]"

section \<open>Driving\<close>

definition drive_pins_port :: "fabric_config \<Rightarrow> slave_signals list \<Rightarrow> nat \<Rightarrow> axi_pins \<Rightarrow> axi_pins result" where
  "drive_pins_port cfg values port pins =
     (let v = values ! port
      in result_bind (packed_set_bit (t_aw_ready pins) port (aw_ready v)) (\<lambda>p_aw_ready.
         result_bind (packed_set_bit (t_w_ready pins) port (w_ready v)) (\<lambda>p_w_ready.
         result_bind (packed_set_bit (t_b_valid pins) port (b_valid v)) (\<lambda>p_b_valid.
         result_bind (write_u64 (t_b_id pins) (port * id_bits cfg) (id_bits cfg) (b_id (s_b v))) (\<lambda>p_b_id.
         result_bind (write_u64 (t_b_resp pins) (port * 2) 2 (ucast (response_code (b_response (s_b v))))) (\<lambda>p_b_resp.
         result_bind (packed_set_bit (t_ar_ready pins) port (ar_ready v)) (\<lambda>p_ar_ready.
         result_bind (packed_set_bit (t_r_valid pins) port (r_valid v)) (\<lambda>p_r_valid.
         result_bind (write_u64 (t_r_id pins) (port * id_bits cfg) (id_bits cfg) (r_id (s_r v))) (\<lambda>p_r_id.
         result_bind (write_bytes (t_r_data pins) (port * data_bits cfg) (r_data (s_r v))) (\<lambda>p_r_data.
         result_bind (write_u64 (t_r_resp pins) (port * 2) 2 (ucast (response_code (r_response (s_r v))))) (\<lambda>p_r_resp.
         result_bind (packed_set_bit (t_r_last pins) port (r_last (s_r v))) (\<lambda>p_r_last.
         Inr (pins\<lparr>t_aw_ready := p_aw_ready, t_w_ready := p_w_ready, t_b_valid := p_b_valid, t_b_id := p_b_id,
                  t_b_resp := p_b_resp, t_ar_ready := p_ar_ready, t_r_valid := p_r_valid, t_r_id := p_r_id,
                  t_r_data := p_r_data, t_r_resp := p_r_resp, t_r_last := p_r_last\<rparr>)))))))))))))"

definition drive_pins :: "fabric_config \<Rightarrow> axi_pins \<Rightarrow> slave_signals list \<Rightarrow> axi_pins result" where
  "drive_pins cfg pins values = result_fold (drive_pins_port cfg values) [0..<num_ports cfg] pins"

section \<open>The types of the pins\<close>

definition verilator_signal :: "nat \<Rightarrow> packed" where
  "verilator_signal n =
     (if n \<le> 8 then CData 0 else if n \<le> 16 then SData 0 else if n \<le> 32 then IData 0 else if n \<le> 64 then QData 0
      else VlWide (replicate ((n + 31) div 32) 0))"

lemma verilator_signal_bits: "n \<le> packed_bits (verilator_signal n)"
  by (simp add: verilator_signal_def) linarith

definition output_pins :: "fabric_config \<Rightarrow> axi_pins \<Rightarrow> (nat \<times> packed) list" where
  "output_pins cfg t =
     [(1, t_aw_valid t), (id_bits cfg, t_aw_id t), (address_bits cfg, t_aw_addr t), (8, t_aw_len t), (3, t_aw_size t), (2, t_aw_burst t),
      (1, t_aw_lock t), (4, t_aw_cache t), (3, t_aw_prot t), (1, t_w_valid t), (data_bits cfg, t_w_data t), (data_bytes cfg, t_w_strb t),
      (1, t_w_last t), (1, t_b_ready t), (1, t_ar_valid t), (id_bits cfg, t_ar_id t), (address_bits cfg, t_ar_addr t), (8, t_ar_len t),
      (3, t_ar_size t), (2, t_ar_burst t), (1, t_ar_lock t), (4, t_ar_cache t), (3, t_ar_prot t), (1, t_r_ready t)]"

definition input_pins :: "fabric_config \<Rightarrow> axi_pins \<Rightarrow> (nat \<times> packed) list" where
  "input_pins cfg t =
     [(1, t_aw_ready t), (1, t_w_ready t), (1, t_b_valid t), (id_bits cfg, t_b_id t), (2, t_b_resp t), (1, t_ar_ready t), (1, t_r_valid t),
      (id_bits cfg, t_r_id t), (data_bits cfg, t_r_data t), (2, t_r_resp t), (1, t_r_last t)]"

definition pins_ok :: "fabric_config \<Rightarrow> axi_pins \<Rightarrow> bool" where
  "pins_ok cfg t \<longleftrightarrow> list_all (\<lambda>(w, s). same_type (verilator_signal (num_ports cfg * w)) s) (output_pins cfg t @ input_pins cfg t)"

text \<open>The value on lane \<open>p\<close> of a port of \<open>w\<close>-bit lanes.\<close>

definition lane :: "packed \<Rightarrow> nat \<Rightarrow> nat \<Rightarrow> u64" where
  "lane s w p = horner_sum of_bool 2 (map (pbit s) [p * w..<p * w + w])"

lemma bit_lane: "bit (lane s w p) j = (j < w \<and> j < 64 \<and> pbit s (p * w + j))"
  by (auto simp: lane_def bit_horner_sum_bit_word_iff)

lemma signal_extent:
  assumes "same_type (verilator_signal (n * w)) s" "p < n"
  shows "p * w + w \<le> packed_bits s"
proof -
  have "Suc p * w \<le> n * w" using assms(2) by (intro mult_le_mono1) simp
  then show ?thesis using verilator_signal_bits [of "n * w"] same_type_bits [OF assms(1)] by simp
qed

lemma read_lane:
  assumes "same_type (verilator_signal (n * w)) s" "p < n" "w \<le> 64"
  shows "read_u64 s (p * w) w = Inr (lane s w p)"
  by (rule pk.get_eqI [OF assms(3) signal_extent [OF assms(1,2)]]) (use assms(3) in \<open>auto simp: bit_lane\<close>)

lemma read_lane_bit:
  assumes "same_type (verilator_signal (n * 1)) s" "p < n"
  shows "packed_bit s p = Inr (pbit s p)"
  using packed_bit_pbit [of p s] signal_extent [OF assms] by simp

section \<open>What sampling delivers\<close>

text \<open>The signals of lane \<open>p\<close>, each field from its own lane of its own pin.\<close>

definition address_lanes ::
  "fabric_config \<Rightarrow> nat \<Rightarrow> packed \<Rightarrow> packed \<Rightarrow> packed \<Rightarrow> packed \<Rightarrow> packed \<Rightarrow> packed \<Rightarrow> packed \<Rightarrow> packed \<Rightarrow> address_payload" where
  "address_lanes cfg p idp addr len siz burst lock cache prot =
     \<lparr>ax_id = lane idp (id_bits cfg) p, ax_address = lane addr (address_bits cfg) p, ax_length = ucast (lane len 8 p),
      ax_size = ucast (lane siz 3 p), ax_burst = burst_of_code (lane burst 2 p), ax_lock = pbit lock p,
      ax_cache = ucast (lane cache 4 p), ax_protection = ucast (lane prot 3 p)\<rparr>"

definition master_lanes :: "fabric_config \<Rightarrow> axi_pins \<Rightarrow> nat \<Rightarrow> master_signals" where
  "master_lanes cfg t p =
     \<lparr>aw_valid = pbit (t_aw_valid t) p,
      m_aw = address_lanes cfg p (t_aw_id t) (t_aw_addr t) (t_aw_len t) (t_aw_size t) (t_aw_burst t) (t_aw_lock t) (t_aw_cache t) (t_aw_prot t),
      w_valid = pbit (t_w_valid t) p,
      m_w = \<lparr>w_data = map (\<lambda>i. ucast (lane (t_w_data t) 8 (p * data_bytes cfg + i))) [0..<data_bytes cfg],
             w_strobe = map (\<lambda>i. of_bool (pbit (t_w_strb t) (p * data_bytes cfg + i))) [0..<data_bytes cfg],
             w_last = pbit (t_w_last t) p\<rparr>,
      b_ready = pbit (t_b_ready t) p, ar_valid = pbit (t_ar_valid t) p,
      m_ar = address_lanes cfg p (t_ar_id t) (t_ar_addr t) (t_ar_len t) (t_ar_size t) (t_ar_burst t) (t_ar_lock t) (t_ar_cache t) (t_ar_prot t),
      r_ready = pbit (t_r_ready t) p\<rparr>"

lemma config_widths:
  assumes "config_ok cfg"
  shows "id_bits cfg \<le> 64" "address_bits cfg \<le> 64" "data_bytes cfg \<le> 64" "data_bits cfg = data_bytes cfg * 8" "0 < id_bits cfg"
    "0 < data_bytes cfg"
  using assms by (auto simp: config_ok_def data_bytes_def)

lemma sample_address_lanes:
  assumes "config_ok cfg" "p < n"
    and "list_all (\<lambda>(w, s). same_type (verilator_signal (n * w)) s)
      [(id_bits cfg, idp), (address_bits cfg, addr), (8, len), (3, siz), (2, burst), (1, lock), (4, cache), (3, prot)]"
  shows "sample_address cfg p idp addr len siz burst lock cache prot = Inr (address_lanes cfg p idp addr len siz burst lock cache prot)"
  using assms(2,3) config_widths [OF assms(1)]
  by (simp add: sample_address_def address_lanes_def read_lane [where n = n] read_lane_bit [where n = n])

lemma read_bytes_lanes:
  assumes "same_type (verilator_signal (n * (b * 8))) s" "p < n"
  shows "read_bytes b s (p * (b * 8)) = Inr (map (\<lambda>i. ucast (lane s 8 (p * b + i))) [0..<b])"
proof -
  have "p * (b * 8) + b * 8 \<le> packed_bits s" by (rule signal_extent [OF assms])
  from read_bytes_bits [OF this] obtain bs where bs: "read_bytes b s (p * (b * 8)) = Inr bs" "length bs = b"
    "\<And>i j. i < b \<Longrightarrow> j < 8 \<Longrightarrow> bit (bs ! i) j = pbit s (p * (b * 8) + i * 8 + j)" by blast
  have "bs ! i = ucast (lane s 8 (p * b + i))" if "i < b" for i
  proof (rule bit_word_eqI)
    fix j assume "j < LENGTH(8)"
    then show "bit (bs ! i) j = bit (ucast (lane s 8 (p * b + i)) :: u8) j"
      using bs(3) [OF that, of j] by (simp add: bit_simps bit_lane algebra_simps)
  qed
  then have "bs = map (\<lambda>i. ucast (lane s 8 (p * b + i))) [0..<b]" using bs(2) by (intro nth_equalityI) simp_all
  then show ?thesis using bs(1) by simp
qed

lemma strobe_lane:
  assumes "i < w" "w \<le> 64"
  shows "(ucast (drop_bit i (lane s w p) AND 1) :: u8) = of_bool (pbit s (p * w + i))"
proof -
  have "drop_bit i (lane s w p) AND 1 = of_bool (bit (lane s w p) i)"
    by (simp add: and_one_eq bit_iff_odd_drop_bit odd_iff_mod_2_eq_one)
  then show ?thesis using assms by (simp add: bit_lane)
qed

lemma sample_port_lanes:
  assumes c: "config_ok cfg" and p: "p < num_ports cfg" and ok: "pins_ok cfg t"
  shows "sample_port cfg t p = Inr (master_lanes cfg t p)"
proof -
  note o = ok [unfolded pins_ok_def output_pins_def list_all_append, THEN conjunct1, simplified]
  note w = config_widths [OF c]
  note b = read_lane_bit [where n = "num_ports cfg", OF _ p, simplified]
  have aw: "sample_address cfg p (t_aw_id t) (t_aw_addr t) (t_aw_len t) (t_aw_size t) (t_aw_burst t) (t_aw_lock t) (t_aw_cache t) (t_aw_prot t) =
      Inr (address_lanes cfg p (t_aw_id t) (t_aw_addr t) (t_aw_len t) (t_aw_size t) (t_aw_burst t) (t_aw_lock t) (t_aw_cache t) (t_aw_prot t))"
    by (rule sample_address_lanes [OF c p]) (simp add: o)
  have ar: "sample_address cfg p (t_ar_id t) (t_ar_addr t) (t_ar_len t) (t_ar_size t) (t_ar_burst t) (t_ar_lock t) (t_ar_cache t) (t_ar_prot t) =
      Inr (address_lanes cfg p (t_ar_id t) (t_ar_addr t) (t_ar_len t) (t_ar_size t) (t_ar_burst t) (t_ar_lock t) (t_ar_cache t) (t_ar_prot t))"
    by (rule sample_address_lanes [OF c p]) (simp add: o)
  have d: "read_bytes (data_bytes cfg) (t_w_data t) (p * data_bits cfg) =
      Inr (map (\<lambda>i. ucast (lane (t_w_data t) 8 (p * data_bytes cfg + i))) [0..<data_bytes cfg])"
    unfolding w(4) by (rule read_bytes_lanes [OF _ p]) (use o w(4) in simp)
  have st: "read_u64 (t_w_strb t) (p * data_bytes cfg) (data_bytes cfg) = Inr (lane (t_w_strb t) (data_bytes cfg) p)"
    by (rule read_lane [OF _ p w(3)]) (use o in simp)
  show ?thesis
    using w(3) by (simp add: sample_port_def master_lanes_def aw ar d st o b strobe_lane)
qed

lemma sample_lanes:
  assumes "config_ok cfg" and "pins_ok cfg t"
  shows "sample cfg t = Inr (map (master_lanes cfg t) [0..<num_ports cfg])"
  using sample_port_lanes [OF assms(1) _ assms(2)]
  by (simp add: sample_def result_map_Inr_iff list_all2_conv_all_nth)

section \<open>What driving sets\<close>

text \<open>\<open>lanes_set s0 s w p F\<close>: lanes below \<open>p\<close> hold the bits \<open>F\<close>, the others are as in \<open>s0\<close>.\<close>

definition lanes_set :: "packed \<Rightarrow> packed \<Rightarrow> nat \<Rightarrow> nat \<Rightarrow> (nat \<Rightarrow> nat \<Rightarrow> bool) \<Rightarrow> bool" where
  "lanes_set s0 s w p F \<longleftrightarrow> same_type s0 s \<and> (\<forall>k. pbit s k = (if k < p * w then F (k div w) (k mod w) else pbit s0 k))"

lemma lanes_set_0 [simp]: "lanes_set s s w 0 F"
  by (simp add: lanes_set_def)

lemma lanes_set_Suc:
  assumes "lanes_set s0 s w p F" "same_type s s'" "0 < w"
    "\<And>k. pbit s' k = (if p * w \<le> k \<and> k < p * w + w then F p (k - p * w) else pbit s k)"
  shows "lanes_set s0 s' w (Suc p) F"
proof -
  have "pbit s' k = (if k < Suc p * w then F (k div w) (k mod w) else pbit s0 k)" for k
  proof (cases "p * w \<le> k \<and> k < p * w + w")
    case True
    then have "k div w = p" "k mod w = k - p * w" using lane_of [of p w k] by simp_all
    then show ?thesis using True assms(4) [of k] by simp
  next
    case False
    then show ?thesis using assms(1,4) by (auto simp: lanes_set_def)
  qed
  then show ?thesis using assms(1,2) same_type_trans by (auto simp: lanes_set_def)
qed

lemma lanes_set_pbit: "lanes_set s0 s w n F \<Longrightarrow> p < n \<Longrightarrow> j < w \<Longrightarrow> pbit s (p * w + j) = F p j"
proof -
  assume a: "lanes_set s0 s w n F" "p < n" "j < w"
  have "p * w + j < Suc p * w" "Suc p * w \<le> n * w" using a(2,3) by (simp, intro mult_le_mono1) simp
  then have "p * w + j < n * w" by linarith
  then show ?thesis using a by (simp add: lanes_set_def)
qed

lemma lanes_set_lane: "lanes_set s0 s w n (\<lambda>p. bit (v p)) \<Longrightarrow> p < n \<Longrightarrow> w \<le> 64 \<Longrightarrow> lane s w p = take_bit w (v p)"
  by (rule bit_eqI) (auto simp: bit_lane bit_simps lanes_set_pbit dest: bit_imp_le_length)

lemma put_bit_lane:
  assumes "same_type (verilator_signal (n * 1)) s0" "lanes_set s0 s 1 p (\<lambda>p j. v p)" "p < n"
  shows "\<exists>s'. packed_set_bit s p (v p) = Inr s' \<and> lanes_set s0 s' 1 (Suc p) (\<lambda>p j. v p)"
proof -
  have "same_type s0 s" using assms(2) by (simp add: lanes_set_def)
  then have "p < packed_bits s" using signal_extent [OF assms(1,3)] same_type_bits by fastforce
  from packed_set_bit_pbit [OF this] obtain s' where s': "packed_set_bit s p (v p) = Inr s'" "same_type s s'"
    "\<And>i. pbit s' i = (if i = p then v p else pbit s i)" by blast
  have "lanes_set s0 s' 1 (Suc p) (\<lambda>p j. v p)"
    by (rule lanes_set_Suc [OF assms(2) s'(2)]) (auto simp: s'(3))
  then show ?thesis using s'(1) by blast
qed

lemma put_lane:
  assumes "same_type (verilator_signal (n * w)) s0" "lanes_set s0 s w p (\<lambda>p. bit (v p))" "p < n" "0 < w" "w \<le> 64"
  shows "\<exists>s'. write_u64 s (p * w) w (v p) = Inr s' \<and> lanes_set s0 s' w (Suc p) (\<lambda>p. bit (v p))"
proof -
  have "same_type s0 s" using assms(2) by (simp add: lanes_set_def)
  then have "p * w + w \<le> packed_bits s" using signal_extent [OF assms(1,3)] same_type_bits by simp
  from write_u64_bits [OF assms(5) this] obtain s' where s': "write_u64 s (p * w) w (v p) = Inr s'" "same_type s s'"
    "\<And>k. pbit s' k = (if p * w \<le> k \<and> k < p * w + w then bit (v p) (k - p * w) else pbit s k)" by blast
  show ?thesis using s'(1) lanes_set_Suc [OF assms(2) s'(2) assms(4)] s'(3) by blast
qed

lemma put_bytes_lane:
  assumes "same_type (verilator_signal (n * (b * 8))) s0" "lanes_set s0 s (b * 8) p (\<lambda>p j. bit (v p ! (j div 8)) (j mod 8))"
    "p < n" "0 < b" "length (v p) = b"
  shows "\<exists>s'. write_bytes s (p * (b * 8)) (v p) = Inr s' \<and> lanes_set s0 s' (b * 8) (Suc p) (\<lambda>p j. bit (v p ! (j div 8)) (j mod 8))"
proof -
  have "same_type s0 s" using assms(2) by (simp add: lanes_set_def)
  then have "p * (b * 8) + length (v p) * 8 \<le> packed_bits s" using signal_extent [OF assms(1,3)] same_type_bits assms(5) by simp
  from write_bytes_bits [OF this] obtain s' where s': "write_bytes s (p * (b * 8)) (v p) = Inr s'" "same_type s s'"
    "\<And>k. pbit s' k = (if p * (b * 8) \<le> k \<and> k < p * (b * 8) + b * 8
       then bit (v p ! ((k - p * (b * 8)) div 8)) ((k - p * (b * 8)) mod 8) else pbit s k)" using assms(5) by auto
  show ?thesis using s'(1) lanes_set_Suc [OF assms(2) s'(2) _ s'(3)] assms(4) by simp
qed

text \<open>The state of the loop over the ports: \<open>p\<close> lanes of every input pin hold the values of their ports.\<close>

definition pins_driven :: "fabric_config \<Rightarrow> slave_signals list \<Rightarrow> axi_pins \<Rightarrow> nat \<Rightarrow> axi_pins \<Rightarrow> bool" where
  "pins_driven cfg vs t0 p t \<longleftrightarrow>
     output_pins cfg t = output_pins cfg t0 \<and>
     lanes_set (t_aw_ready t0) (t_aw_ready t) 1 p (\<lambda>i j. aw_ready (vs ! i)) \<and>
     lanes_set (t_w_ready t0) (t_w_ready t) 1 p (\<lambda>i j. w_ready (vs ! i)) \<and>
     lanes_set (t_b_valid t0) (t_b_valid t) 1 p (\<lambda>i j. b_valid (vs ! i)) \<and>
     lanes_set (t_b_id t0) (t_b_id t) (id_bits cfg) p (\<lambda>i. bit (b_id (s_b (vs ! i)))) \<and>
     lanes_set (t_b_resp t0) (t_b_resp t) 2 p (\<lambda>i. bit (ucast (response_code (b_response (s_b (vs ! i)))) :: u64)) \<and>
     lanes_set (t_ar_ready t0) (t_ar_ready t) 1 p (\<lambda>i j. ar_ready (vs ! i)) \<and>
     lanes_set (t_r_valid t0) (t_r_valid t) 1 p (\<lambda>i j. r_valid (vs ! i)) \<and>
     lanes_set (t_r_id t0) (t_r_id t) (id_bits cfg) p (\<lambda>i. bit (r_id (s_r (vs ! i)))) \<and>
     lanes_set (t_r_data t0) (t_r_data t) (data_bytes cfg * 8) p (\<lambda>i j. bit (r_data (s_r (vs ! i)) ! (j div 8)) (j mod 8)) \<and>
     lanes_set (t_r_resp t0) (t_r_resp t) 2 p (\<lambda>i. bit (ucast (response_code (r_response (s_r (vs ! i)))) :: u64)) \<and>
     lanes_set (t_r_last t0) (t_r_last t) 1 p (\<lambda>i j. r_last (s_r (vs ! i)))"

lemma drive_pins_port_step:
  assumes c: "config_ok cfg" and ok: "pins_ok cfg t0" and vs: "slaves_wf cfg vs" and p: "p < num_ports cfg" and d: "pins_driven cfg vs t0 p t"
  shows "\<exists>t'. drive_pins_port cfg vs p t = Inr t' \<and> pins_driven cfg vs t0 (Suc p) t'"
proof -
  note i = ok [unfolded pins_ok_def input_pins_def list_all_append, THEN conjunct2, simplified]
  note w = config_widths [OF c]
  note d' = d [unfolded pins_driven_def]
  have len: "length (r_data (s_r (vs ! p))) = data_bytes cfg" using vs p by (simp add: slaves_wf_def list_all_length)
  have b: "\<exists>s'. packed_set_bit s p (v p) = Inr s' \<and> lanes_set s0 s' 1 (Suc p) (\<lambda>i j. v i)"
    if "same_type (verilator_signal (num_ports cfg)) s0" "lanes_set s0 s 1 p (\<lambda>i j. v i)" for s0 s v
    using put_bit_lane [of "num_ports cfg" s0 s p v] that p by simp
  have f: "\<exists>s'. write_u64 s (p * n) n (v p) = Inr s' \<and> lanes_set s0 s' n (Suc p) (\<lambda>i. bit (v i))"
    if "same_type (verilator_signal (num_ports cfg * n)) s0" "lanes_set s0 s n p (\<lambda>i. bit (v i))" "0 < n" "n \<le> 64" for s0 s n v
    using put_lane [of "num_ports cfg" n s0 s p v] that p by simp
  obtain s1 where s1: "packed_set_bit (t_aw_ready t) p (aw_ready (vs ! p)) = Inr s1"
    "lanes_set (t_aw_ready t0) s1 1 (Suc p) (\<lambda>i j. aw_ready (vs ! i))"
    using b [of "t_aw_ready t0" "t_aw_ready t" "\<lambda>i. aw_ready (vs ! i)"] i d' by auto
  obtain s2 where s2: "packed_set_bit (t_w_ready t) p (w_ready (vs ! p)) = Inr s2"
    "lanes_set (t_w_ready t0) s2 1 (Suc p) (\<lambda>i j. w_ready (vs ! i))"
    using b [of "t_w_ready t0" "t_w_ready t" "\<lambda>i. w_ready (vs ! i)"] i d' by auto
  obtain s3 where s3: "packed_set_bit (t_b_valid t) p (b_valid (vs ! p)) = Inr s3"
    "lanes_set (t_b_valid t0) s3 1 (Suc p) (\<lambda>i j. b_valid (vs ! i))"
    using b [of "t_b_valid t0" "t_b_valid t" "\<lambda>i. b_valid (vs ! i)"] i d' by auto
  obtain s4 where s4: "write_u64 (t_b_id t) (p * id_bits cfg) (id_bits cfg) (b_id (s_b (vs ! p))) = Inr s4"
    "lanes_set (t_b_id t0) s4 (id_bits cfg) (Suc p) (\<lambda>i. bit (b_id (s_b (vs ! i))))"
    using f [of "id_bits cfg" "t_b_id t0" "t_b_id t" "\<lambda>i. b_id (s_b (vs ! i))"] i d' w by auto
  obtain s5 where s5: "write_u64 (t_b_resp t) (p * 2) 2 (ucast (response_code (b_response (s_b (vs ! p))))) = Inr s5"
    "lanes_set (t_b_resp t0) s5 2 (Suc p) (\<lambda>i. bit (ucast (response_code (b_response (s_b (vs ! i)))) :: u64))"
    using f [of 2 "t_b_resp t0" "t_b_resp t" "\<lambda>i. ucast (response_code (b_response (s_b (vs ! i))))"] i d' by auto
  obtain s6 where s6: "packed_set_bit (t_ar_ready t) p (ar_ready (vs ! p)) = Inr s6"
    "lanes_set (t_ar_ready t0) s6 1 (Suc p) (\<lambda>i j. ar_ready (vs ! i))"
    using b [of "t_ar_ready t0" "t_ar_ready t" "\<lambda>i. ar_ready (vs ! i)"] i d' by auto
  obtain s7 where s7: "packed_set_bit (t_r_valid t) p (r_valid (vs ! p)) = Inr s7"
    "lanes_set (t_r_valid t0) s7 1 (Suc p) (\<lambda>i j. r_valid (vs ! i))"
    using b [of "t_r_valid t0" "t_r_valid t" "\<lambda>i. r_valid (vs ! i)"] i d' by auto
  obtain s8 where s8: "write_u64 (t_r_id t) (p * id_bits cfg) (id_bits cfg) (r_id (s_r (vs ! p))) = Inr s8"
    "lanes_set (t_r_id t0) s8 (id_bits cfg) (Suc p) (\<lambda>i. bit (r_id (s_r (vs ! i))))"
    using f [of "id_bits cfg" "t_r_id t0" "t_r_id t" "\<lambda>i. r_id (s_r (vs ! i))"] i d' w by auto
  obtain s9 where s9: "write_bytes (t_r_data t) (p * data_bits cfg) (r_data (s_r (vs ! p))) = Inr s9"
    "lanes_set (t_r_data t0) s9 (data_bytes cfg * 8) (Suc p) (\<lambda>i j. bit (r_data (s_r (vs ! i)) ! (j div 8)) (j mod 8))"
    using put_bytes_lane [of "num_ports cfg" "data_bytes cfg" "t_r_data t0" "t_r_data t" p "\<lambda>i. r_data (s_r (vs ! i))"] i d' w p len by auto
  obtain s10 where s10: "write_u64 (t_r_resp t) (p * 2) 2 (ucast (response_code (r_response (s_r (vs ! p))))) = Inr s10"
    "lanes_set (t_r_resp t0) s10 2 (Suc p) (\<lambda>i. bit (ucast (response_code (r_response (s_r (vs ! i)))) :: u64))"
    using f [of 2 "t_r_resp t0" "t_r_resp t" "\<lambda>i. ucast (response_code (r_response (s_r (vs ! i))))"] i d' by auto
  obtain s11 where s11: "packed_set_bit (t_r_last t) p (r_last (s_r (vs ! p))) = Inr s11"
    "lanes_set (t_r_last t0) s11 1 (Suc p) (\<lambda>i j. r_last (s_r (vs ! i)))"
    using b [of "t_r_last t0" "t_r_last t" "\<lambda>i. r_last (s_r (vs ! i))"] i d' by auto
  show ?thesis
    using d' s1 s2 s3 s4 s5 s6 s7 s8 s9 s10 s11
    by (simp add: drive_pins_port_def Let_def pins_driven_def output_pins_def)
qed

lemma drive_pins_driven:
  assumes "config_ok cfg" and "pins_ok cfg t0" and "slaves_wf cfg vs" and "n \<le> num_ports cfg"
  shows "\<exists>t. result_fold (drive_pins_port cfg vs) [0..<n] t0 = Inr t \<and> pins_driven cfg vs t0 n t"
  using assms(4)
proof (induction n)
  case 0
  then show ?case by (simp add: pins_driven_def)
next
  case (Suc n)
  then obtain t where "result_fold (drive_pins_port cfg vs) [0..<n] t0 = Inr t" "pins_driven cfg vs t0 n t" by auto
  then show ?case using drive_pins_port_step [OF assms(1-3), of n t] Suc.prems by (auto simp: result_fold_append)
qed

section \<open>Properties\<close>

lemma take_response_code: "take_bit 2 (ucast (response_code r) :: u64) = ucast (response_code r)"
  by (cases r) simp_all

lemma driven_pins_ok:
  assumes "pins_ok cfg t0" and "pins_driven cfg vs t0 n t" and "config_ok cfg"
  shows "pins_ok cfg t"
  using assms same_type_trans config_widths(4) [OF assms(3)]
  unfolding pins_ok_def pins_driven_def lanes_set_def input_pins_def list_all_append by (auto intro: same_type_trans)

lemma sample_wf:
  assumes "config_ok cfg"
  shows "inputs_wf cfg (map (master_lanes cfg t) [0..<num_ports cfg])"
  by (simp add: inputs_wf_def beat_wf_def list_all_length master_lanes_def)

lemma pbit_lane1: "lanes_set s0 s 1 n F \<Longrightarrow> p < n \<Longrightarrow> pbit s p = F p 0"
  using lanes_set_pbit [of s0 s 1 n F p 0] by simp

lemma driven_bytes:
  fixes v :: "nat \<Rightarrow> u8 list"
  assumes "lanes_set s0 s (b * 8) n (\<lambda>i j. bit (v i ! (j div 8)) (j mod 8))" "p < n" "i < b"
  shows "lane s 8 (p * b + i) = ucast (v p ! i)"
proof (rule bit_eqI)
  fix j
  have "pbit s ((p * b + i) * 8 + j) = bit (v p ! i) j" if "j < 8"
  proof -
    have "i * 8 + j < b * 8" using assms(3) that by linarith
    from lanes_set_pbit [OF assms(1,2) this] that show ?thesis by (simp add: algebra_simps)
  qed
  then show "bit (lane s 8 (p * b + i)) j = bit (ucast (v p ! i) :: u64) j"
    using bit_imp_le_length [of "v p ! i" j] by (cases "j < 8") (auto simp: bit_lane bit_simps)
qed

text \<open>C16: sampling is exact. If the pins have the types Verilator gives them, \<^verbatim>\<open>sample\<close> neither throws nor accesses a word outside a pin,
  for any number of ports and any of the supported widths; port \<open>p\<close> receives exactly lane \<open>p\<close> of every pin, and the
  sampled signals are inputs the fabric accepts.\<close>

theorem sample_reads_lanes:
  assumes "config_ok cfg" and "pins_ok cfg t"
  shows "\<exists>ms. sample cfg t = Inr ms \<and> inputs_wf cfg ms \<and> (\<forall>p<num_ports cfg. ms ! p = master_lanes cfg t p)"
  using sample_lanes [OF assms] sample_wf [OF assms(1)] by simp

text \<open>C17: driving is exact. \<^verbatim>\<open>drive\<close> neither throws nor writes outside a pin; afterwards lane \<open>p\<close> of every input pin carries the
  value of port \<open>p\<close> (identifiers cut to their width), and the outputs of the design and the types of all pins
  are unchanged.\<close>

theorem drive_sets_lanes:
  assumes "config_ok cfg" and "pins_ok cfg t" and "slaves_wf cfg vs"
  shows "\<exists>t'. drive_pins cfg t vs = Inr t' \<and> pins_ok cfg t' \<and> output_pins cfg t' = output_pins cfg t \<and>
    (\<forall>p<num_ports cfg. let v = vs ! p in
       pbit (t_aw_ready t') p = aw_ready v \<and> pbit (t_w_ready t') p = w_ready v \<and> pbit (t_ar_ready t') p = ar_ready v \<and>
       pbit (t_b_valid t') p = b_valid v \<and> lane (t_b_id t') (id_bits cfg) p = take_bit (id_bits cfg) (b_id (s_b v)) \<and>
       lane (t_b_resp t') 2 p = ucast (response_code (b_response (s_b v))) \<and>
       pbit (t_r_valid t') p = r_valid v \<and> lane (t_r_id t') (id_bits cfg) p = take_bit (id_bits cfg) (r_id (s_r v)) \<and>
       (\<forall>i<data_bytes cfg. lane (t_r_data t') 8 (p * data_bytes cfg + i) = ucast (r_data (s_r v) ! i)) \<and>
       lane (t_r_resp t') 2 p = ucast (response_code (r_response (s_r v))) \<and> pbit (t_r_last t') p = r_last (s_r v))"
proof -
  obtain t' where t': "drive_pins cfg t vs = Inr t'" and d: "pins_driven cfg vs t (num_ports cfg) t'"
    using drive_pins_driven [OF assms, of "num_ports cfg"] by (auto simp: drive_pins_def)
  note d' = d [unfolded pins_driven_def]
  note w = config_widths [OF assms(1)]
  show ?thesis
  proof (intro exI [of _ t'] conjI allI impI)
    show "drive_pins cfg t vs = Inr t'" "pins_ok cfg t'" by (fact t', rule driven_pins_ok [OF assms(2) d assms(1)])
    show "output_pins cfg t' = output_pins cfg t" using d' by simp
    fix p assume p: "p < num_ports cfg"
    have "lane (t_r_data t') 8 (p * data_bytes cfg + i) = ucast (r_data (s_r (vs ! p)) ! i)" if "i < data_bytes cfg" for i
      using driven_bytes [where v = "\<lambda>i. r_data (s_r (vs ! i))", OF _ p that] d' by blast
    then show "let v = vs ! p in
       pbit (t_aw_ready t') p = aw_ready v \<and> pbit (t_w_ready t') p = w_ready v \<and> pbit (t_ar_ready t') p = ar_ready v \<and>
       pbit (t_b_valid t') p = b_valid v \<and> lane (t_b_id t') (id_bits cfg) p = take_bit (id_bits cfg) (b_id (s_b v)) \<and>
       lane (t_b_resp t') 2 p = ucast (response_code (b_response (s_b v))) \<and>
       pbit (t_r_valid t') p = r_valid v \<and> lane (t_r_id t') (id_bits cfg) p = take_bit (id_bits cfg) (r_id (s_r v)) \<and>
       (\<forall>i<data_bytes cfg. lane (t_r_data t') 8 (p * data_bytes cfg + i) = ucast (r_data (s_r v) ! i)) \<and>
       lane (t_r_resp t') 2 p = ucast (response_code (r_response (s_r v))) \<and> pbit (t_r_last t') p = r_last (s_r v)"
      using d' [THEN conjunct2] lanes_set_lane [where w = "id_bits cfg", OF _ p w(1)] lanes_set_lane [where w = 2, OF _ p]
      by (auto simp: Let_def take_response_code pbit_lane1 [OF _ p])
  qed
qed

section \<open>Examples\<close>

text \<open>The pins of a model whose signals are all zero.\<close>

definition zero_pins :: "fabric_config \<Rightarrow> axi_pins" where
  "zero_pins cfg =
     (let z = (\<lambda>w. verilator_signal (num_ports cfg * w)); b = z 1; i = z (id_bits cfg); a = z (address_bits cfg)
      in \<lparr>t_aw_valid = b, t_aw_id = i, t_aw_addr = a, t_aw_len = z 8, t_aw_size = z 3, t_aw_burst = z 2, t_aw_lock = b,
          t_aw_cache = z 4, t_aw_prot = z 3, t_w_valid = b, t_w_data = z (data_bits cfg), t_w_strb = z (data_bytes cfg), t_w_last = b,
          t_b_ready = b, t_ar_valid = b, t_ar_id = i, t_ar_addr = a, t_ar_len = z 8, t_ar_size = z 3, t_ar_burst = z 2, t_ar_lock = b,
          t_ar_cache = z 4, t_ar_prot = z 3, t_r_ready = b, t_aw_ready = b, t_w_ready = b, t_b_valid = b, t_b_id = i, t_b_resp = z 2,
          t_ar_ready = b, t_r_valid = b, t_r_id = i, t_r_data = z (data_bits cfg), t_r_resp = z 2, t_r_last = b\<rparr>)"

lemma zero_pins_ok: "pins_ok cfg (zero_pins cfg)"
  by (simp add: pins_ok_def output_pins_def input_pins_def zero_pins_def Let_def)

definition dual_config :: fabric_config where
  "dual_config = \<lparr>num_ports = 2, address_bits = 64, data_bits = 128, id_bits = 5, address_depth = 2, write_data_depth = 2,
     response_depth = 2, route_depth = 2\<rparr>"

lemma dual_config_ok: "config_ok dual_config"
  by (simp add: config_ok_def dual_config_def)

theorem sample_reads_lanes_witness:
  "\<exists>ms. sample dual_config ((zero_pins dual_config)\<lparr>t_aw_addr := VlWide [1, 2, 3, 4]\<rparr>) = Inr ms \<and>
     ax_address (m_aw (ms ! 1)) = 0x400000003"
proof -
  let ?t = "(zero_pins dual_config)\<lparr>t_aw_addr := VlWide [1, 2, 3, 4]\<rparr>"
  have "pins_ok dual_config ?t"
    using zero_pins_ok [of dual_config]
    by (simp add: pins_ok_def output_pins_def input_pins_def zero_pins_def Let_def verilator_signal_def dual_config_def)
  from sample_reads_lanes [OF dual_config_ok this] obtain ms where ms: "sample dual_config ?t = Inr ms"
    "ms ! 1 = master_lanes dual_config ?t 1" by (auto simp: dual_config_def)
  have "lane (VlWide [1, 2, 3, 4]) 64 1 = 0x400000003" by code_simp
  then show ?thesis using ms by (simp add: master_lanes_def address_lanes_def dual_config_def)
qed

theorem drive_sets_lanes_witness:
  "\<exists>t'. drive_pins dual_config (zero_pins dual_config)
      [default_slave_signals 16, (default_slave_signals 16)\<lparr>aw_ready := True, b_valid := True,
         s_b := default_write_response\<lparr>b_id := 37, b_response := SlaveError\<rparr>\<rparr>] = Inr t' \<and>
     pbit (t_aw_ready t') 1 \<and> \<not> pbit (t_aw_ready t') 0 \<and> lane (t_b_id t') 5 1 = 5 \<and> lane (t_b_resp t') 2 1 = 2"
proof -
  let ?vs = "[default_slave_signals 16, (default_slave_signals 16)\<lparr>aw_ready := True, b_valid := True,
         s_b := default_write_response\<lparr>b_id := 37, b_response := SlaveError\<rparr>\<rparr>]"
  have "slaves_wf dual_config ?vs"
    by (simp add: slaves_wf_def dual_config_def data_bytes_def default_slave_signals_def default_read_data_def)
  from drive_sets_lanes [OF dual_config_ok zero_pins_ok this] obtain t' where t': "drive_pins dual_config (zero_pins dual_config) ?vs = Inr t'"
    and v: "\<And>p. p < 2 \<Longrightarrow> pbit (t_aw_ready t') p = aw_ready (?vs ! p) \<and> lane (t_b_id t') 5 p = take_bit 5 (b_id (s_b (?vs ! p))) \<and>
      lane (t_b_resp t') 2 p = ucast (response_code (b_response (s_b (?vs ! p))))"
    by (auto simp: dual_config_def Let_def)
  have "take_bit 5 (37 :: u64) = 5" by code_simp
  then show ?thesis using t' v [of 0] v [of 1] by (auto simp: default_slave_signals_def)
qed

end
