(* ===== verification/Host_Services.thy ===== *)
theory Host_Services
  imports Axi_Prelude
begin

text \<open>
  \<^verbatim>\<open>HostServices\<close> of \<^verbatim>\<open>platform.cpp\<close>: opening the input and output streams of the UARTs, switching an input terminal to
  raw mode, and restoring it on destruction. The operating system is a parameter: which terminal a file
  descriptor refers to, and whether the terminal calls succeed. The state of a terminal belongs to the
  terminal, not to the descriptor.
\<close>

section \<open>Terminals\<close>

record termios =
  c_lflag :: u32
  c_vmin :: u8
  c_vtime :: u8

definition ICANON :: u32 where "ICANON = 0x2"
definition ECHO :: u32 where "ECHO = 0x8"

definition raw_mode :: "termios \<Rightarrow> termios" where
  "raw_mode original = original\<lparr>c_lflag := c_lflag original AND NOT (ICANON OR ECHO), c_vmin := 0, c_vtime := 0\<rparr>"

record os_calls =
  os_tty :: "nat \<Rightarrow> nat option"
  os_tcgetattr_ok :: "nat \<Rightarrow> bool"
  os_tcsetattr_ok :: "nat \<Rightarrow> bool"
  os_strerror :: string

record terminal =
  tm_descriptor :: nat
  tm_original :: termios

record host_state =
  hs_files :: "nat list"
  hs_terminals :: "terminal list"
  hs_modes :: "nat \<Rightarrow> termios"

definition host_new :: "(nat \<Rightarrow> termios) \<Rightarrow> host_state" where
  "host_new modes = \<lparr>hs_files = [], hs_terminals = [], hs_modes = modes\<rparr>"

text \<open>\<^verbatim>\<open>tcsetattr\<close> through a descriptor.\<close>

definition tcsetattr :: "os_calls \<Rightarrow> nat \<Rightarrow> termios \<Rightarrow> (nat \<Rightarrow> termios) \<Rightarrow> (nat \<Rightarrow> termios) option" where
  "tcsetattr os fd mode modes =
     (case os_tty os fd of
        None \<Rightarrow> None
      | Some y \<Rightarrow> if os_tcsetattr_ok os fd then Some (modes(y := mode)) else None)"

definition guard_terminal :: "os_calls \<Rightarrow> nat \<Rightarrow> host_state \<Rightarrow> host_state" where
  "guard_terminal os fd st =
     (let guarded = list_ex (\<lambda>t. tm_descriptor t = fd) (hs_terminals st)
      in case os_tty os fd of
           None \<Rightarrow> st
         | Some y \<Rightarrow>
             if \<not> guarded \<and> os_tcgetattr_ok os fd
             then (let original = hs_modes st y
                   in case tcsetattr os fd (raw_mode original) (hs_modes st) of
                        None \<Rightarrow> st
                      | Some modes \<Rightarrow> st\<lparr>hs_terminals := hs_terminals st @ [\<lparr>tm_descriptor = fd, tm_original = original\<rparr>], hs_modes := modes\<rparr>)
             else st)"

text \<open>\<^verbatim>\<open>State::open\<close>; \<open>opened\<close> is the descriptor \<^verbatim>\<open>fopen\<close> returns, if any. The standard streams are descriptors 0 and 1.\<close>

definition host_open :: "os_calls \<Rightarrow> string \<Rightarrow> bool \<Rightarrow> nat option \<Rightarrow> host_state \<Rightarrow> nat result \<times> host_state" where
  "host_open os path input opened st =
     (if path \<noteq> ''-'' then
        (case opened of
           None \<Rightarrow> (Inl (RuntimeError (''cannot open '' @ [CHR 0x27] @ path @ [CHR 0x27] @ '': '' @ os_strerror os)), st)
         | Some fd \<Rightarrow>
             (let st1 = st\<lparr>hs_files := hs_files st @ [fd]\<rparr>
              in (Inr fd, if input then guard_terminal os fd st1 else st1)))
      else (let fd = (if input then 0 else 1) in (Inr fd, if input then guard_terminal os fd st else st)))"

definition host_open_input :: "os_calls \<Rightarrow> string \<Rightarrow> nat option \<Rightarrow> host_state \<Rightarrow> nat result \<times> host_state" where
  "host_open_input os path opened st = host_open os path True opened st"

definition host_open_output :: "os_calls \<Rightarrow> string \<Rightarrow> nat option \<Rightarrow> host_state \<Rightarrow> nat result \<times> host_state" where
  "host_open_output os path opened st = host_open os path False opened st"

definition restore_terminal :: "os_calls \<Rightarrow> terminal \<Rightarrow> (nat \<Rightarrow> termios) \<Rightarrow> (nat \<Rightarrow> termios)" where
  "restore_terminal os t modes =
     (case tcsetattr os (tm_descriptor t) (tm_original t) modes of None \<Rightarrow> modes | Some modes' \<Rightarrow> modes')"

definition host_destroy :: "os_calls \<Rightarrow> host_state \<Rightarrow> (nat \<Rightarrow> termios)" where
  "host_destroy os st = fold (restore_terminal os) (hs_terminals st) (hs_modes st)"

text \<open>The calls the device factories make.\<close>

type_synonym open_call = "string \<times> bool \<times> nat option"

definition host_run :: "os_calls \<Rightarrow> open_call list \<Rightarrow> host_state \<Rightarrow> host_state" where
  "host_run os calls st = fold (\<lambda>(path, input, opened) st.
     snd (if input then host_open_input os path opened st else host_open_output os path opened st)) calls st"

section \<open>Restoration\<close>

definition one_descriptor_each :: "os_calls \<Rightarrow> bool" where
  "one_descriptor_each os \<longleftrightarrow> (\<forall>a b y. os_tty os a = Some y \<longrightarrow> os_tty os b = Some y \<longrightarrow> a = b)"

text \<open>Every terminal whose mode may differ is guarded with its original mode.\<close>

definition guarded_all :: "os_calls \<Rightarrow> (nat \<Rightarrow> termios) \<Rightarrow> host_state \<Rightarrow> bool" where
  "guarded_all os m0 st \<longleftrightarrow>
     (\<forall>t\<in>set (hs_terminals st). \<exists>y. os_tty os (tm_descriptor t) = Some y \<and> os_tcsetattr_ok os (tm_descriptor t) \<and> tm_original t = m0 y) \<and>
     (\<forall>y. (\<forall>t\<in>set (hs_terminals st). os_tty os (tm_descriptor t) \<noteq> Some y) \<longrightarrow> hs_modes st y = m0 y)"

lemma guard_terminal_keeps:
  assumes "one_descriptor_each os" "guarded_all os m0 st"
  shows "guarded_all os m0 (guard_terminal os fd st)"
proof (cases "os_tty os fd")
  case None
  then show ?thesis using assms(2) by (simp add: guard_terminal_def Let_def)
next
  case (Some y)
  show ?thesis
  proof (cases "list_ex (\<lambda>t. tm_descriptor t = fd) (hs_terminals st) \<or> \<not> os_tcgetattr_ok os fd \<or> \<not> os_tcsetattr_ok os fd")
    case True
    then show ?thesis using Some assms(2) by (auto simp: guard_terminal_def Let_def tcsetattr_def)
  next
    case False
    then have "\<forall>t\<in>set (hs_terminals st). os_tty os (tm_descriptor t) \<noteq> Some y"
      using assms(1) Some by (auto simp: one_descriptor_each_def list_ex_iff)
    then have "hs_modes st y = m0 y" using assms(2) by (simp add: guarded_all_def)
    then show ?thesis using False Some assms(2) by (auto simp: guard_terminal_def Let_def tcsetattr_def guarded_all_def)
  qed
qed

lemma host_open_keeps:
  assumes "one_descriptor_each os" "guarded_all os m0 st"
  shows "guarded_all os m0 (snd (host_open os path input opened st))"
proof -
  have "guarded_all os m0 (st\<lparr>hs_files := xs\<rparr>)" for xs using assms(2) by (simp add: guarded_all_def)
  then show ?thesis using guard_terminal_keeps [OF assms(1)] assms(2) by (auto simp: host_open_def Let_def split: option.splits)
qed

lemma host_run_keeps:
  assumes "one_descriptor_each os" "guarded_all os m0 st"
  shows "guarded_all os m0 (host_run os calls st)"
  using assms(2)
proof (induction calls arbitrary: st)
  case (Cons c calls)
  obtain path input opened where c: "c = (path, input, opened)" by (cases c) auto
  have "guarded_all os m0 (snd (host_open os path input opened st))" by (rule host_open_keeps [OF assms(1) Cons.prems])
  from Cons.IH [OF this] show ?case by (cases input) (simp_all add: host_run_def c host_open_input_def host_open_output_def)
qed (simp add: host_run_def)

lemma restore_all:
  assumes "\<forall>t\<in>set ts. \<exists>y. os_tty os (tm_descriptor t) = Some y \<and> os_tcsetattr_ok os (tm_descriptor t) \<and> tm_original t = m0 y"
  shows "fold (restore_terminal os) ts modes y = (if \<exists>t\<in>set ts. os_tty os (tm_descriptor t) = Some y then m0 y else modes y)"
  using assms
proof (induction ts arbitrary: modes)
  case (Cons t ts)
  obtain z where z: "os_tty os (tm_descriptor t) = Some z" "os_tcsetattr_ok os (tm_descriptor t)" "tm_original t = m0 z"
    using Cons.prems by auto
  then have "restore_terminal os t modes = modes(z := m0 z)" by (simp add: restore_terminal_def tcsetattr_def)
  then show ?case using Cons z(1) by auto
qed simp

text \<open>C30: terminal modes are restored. Whatever streams the factories open, if every terminal is reached through one descriptor only,
  destroying the host services puts every terminal back into the mode it had at construction.\<close>

theorem terminal_modes_restored:
  assumes "one_descriptor_each os"
  shows "host_destroy os (host_run os calls (host_new m0)) = m0"
proof
  fix y
  let ?st = "host_run os calls (host_new m0)"
  have g: "guarded_all os m0 ?st"
    by (rule host_run_keeps [OF assms]) (simp add: guarded_all_def host_new_def)
  then have "fold (restore_terminal os) (hs_terminals ?st) (hs_modes ?st) y =
      (if \<exists>t\<in>set (hs_terminals ?st). os_tty os (tm_descriptor t) = Some y then m0 y else hs_modes ?st y)"
    by (intro restore_all) (simp add: guarded_all_def)
  then show "host_destroy os ?st y = m0 y"
    using g by (auto simp: host_destroy_def guarded_all_def)
qed

definition cooked :: termios where
  "cooked = \<lparr>c_lflag = 0xA, c_vmin = 1, c_vtime = 0\<rparr>"

definition example_os :: "(nat \<Rightarrow> nat option) \<Rightarrow> os_calls" where
  "example_os tty = \<lparr>os_tty = tty, os_tcgetattr_ok = (\<lambda>_. True), os_tcsetattr_ok = (\<lambda>_. True), os_strerror = []\<rparr>"

theorem terminal_modes_restored_witness:
  "c_lflag (hs_modes (host_run (example_os (\<lambda>fd. if fd = 0 then Some 7 else None)) [(''-'', True, None)] (host_new (\<lambda>_. cooked))) 7) = 0 \<and>
   host_destroy (example_os (\<lambda>fd. if fd = 0 then Some 7 else None))
     (host_run (example_os (\<lambda>fd. if fd = 0 then Some 7 else None)) [(''-'', True, None)] (host_new (\<lambda>_. cooked))) = (\<lambda>_. cooked)"
proof -
  have "one_descriptor_each (example_os (\<lambda>fd. if fd = 0 then Some 7 else None))"
    by (auto simp: one_descriptor_each_def example_os_def split: if_splits)
  moreover have "c_lflag (hs_modes (host_run (example_os (\<lambda>fd. if fd = 0 then Some 7 else None)) [(''-'', True, None)] (host_new (\<lambda>_. cooked))) 7) = 0"
    by (simp add: host_run_def host_open_input_def host_open_def guard_terminal_def tcsetattr_def example_os_def host_new_def Let_def raw_mode_def cooked_def
        ICANON_def ECHO_def)
  ultimately show ?thesis using terminal_modes_restored by blast
qed

text \<open>The hypothesis is needed: a terminal opened as standard input and again by its path is guarded twice, the second time with
  the raw mode as its original, and the modes are restored in the order in which they were saved. The terminal
  is left in raw mode.\<close>

theorem second_descriptor_leaves_raw_mode:
  "host_destroy (example_os (\<lambda>fd. if fd = 0 \<or> fd = 3 then Some 7 else None))
     (host_run (example_os (\<lambda>fd. if fd = 0 \<or> fd = 3 then Some 7 else None)) [(''-'', True, None), (''/dev/tty'', True, Some 3)]
       (host_new (\<lambda>_. cooked))) 7 = raw_mode cooked \<and> raw_mode cooked \<noteq> cooked"
  by (simp add: host_destroy_def restore_terminal_def host_run_def host_open_input_def host_open_def guard_terminal_def tcsetattr_def example_os_def
      host_new_def Let_def raw_mode_def cooked_def ICANON_def ECHO_def)

end
