(* ===== verification/Sim_Options.thy ===== *)
theory Sim_Options
  imports Elf_Images Platform_New Verilated_Binding
begin

text \<open>
  The command line of \<^verbatim>\<open>sim_main.cpp\<close> and the loading of the images it names. \<^verbatim>\<open>strtoull\<close> with base 0 is
  modelled as the C standard defines it; the conversion of decimal fractions to \<^verbatim>\<open>double\<close> is an argument
  (\<^verbatim>\<open>strtod\<close> with its rounding), and so is the content of the files on the host.
\<close>

section \<open>Options\<close>

record options =
  opt_elves :: "string list"
  opt_raw_images :: "string list"
  opt_trace :: "string option"
  opt_max_cycles :: u64
  opt_reset_cycles :: u64
  opt_seed :: u64
  opt_stall_probability :: double
  opt_stats :: bool
  opt_help :: bool

definition default_options :: options where
  "default_options = \<lparr>opt_elves = [], opt_raw_images = [], opt_trace = None, opt_max_cycles = 10000000, opt_reset_cycles = 5,
     opt_seed = 1, opt_stall_probability = Finite 0, opt_stats = False, opt_help = False\<rparr>"

text \<open>\<^verbatim>\<open>strtoull(s, &end, 0)\<close>: the value, the unread rest (\<open>None\<close> if no digits were found, so that \<^verbatim>\<open>end\<close> is the start), and
  whether \<^verbatim>\<open>errno\<close> is \<^verbatim>\<open>ERANGE\<close>. White space and a sign are skipped; a minus sign negates in the unsigned type.\<close>

definition is_space :: "char \<Rightarrow> bool" where
  "is_space c \<longleftrightarrow> (let n = of_char c :: nat in n = 32 \<or> 9 \<le> n \<and> n \<le> 13)"

definition is_digit :: "nat \<Rightarrow> char \<Rightarrow> bool" where
  "is_digit base c = (case digit_value c of None \<Rightarrow> False | Some v \<Rightarrow> v < base)"

definition base_prefix :: "string \<Rightarrow> nat \<times> string" where
  "base_prefix s =
     (if (take 2 s = ''0x'' \<or> take 2 s = ''0X'') \<and> length s > 2 \<and> is_digit 16 (s ! 2) then (16, drop 2 s)
      else if take 1 s = ''0'' then (8, s) else (10, s))"

definition strtoull :: "string \<Rightarrow> u64 \<times> string option \<times> bool" where
  "strtoull text =
     (let s = dropWhile is_space text;
          negative = (take 1 s = ''-'');
          (base, digits) = base_prefix (if take 1 s = ''-'' \<or> take 1 s = ''+'' then drop 1 s else s);
          ds = takeWhile (is_digit base) digits
      in if ds = [] then (0, None, False)
         else case from_chars base 64 ds of
                None \<Rightarrow> (- 1, Some (drop (length ds) digits), True)
              | Some n \<Rightarrow> (if negative then - of_nat n else of_nat n, Some (drop (length ds) digits), False))"

definition parse_count :: "string \<Rightarrow> string \<Rightarrow> u64 result" where
  "parse_count text option_name =
     (if text = [] \<or> hd text = CHR ''-'' then Inl (InvalidArgument (option_name @ '' expects an unsigned integer''))
      else let (v, rest, erange) = strtoull text
           in if erange \<or> rest = None \<or> rest \<noteq> Some []
              then Inl (InvalidArgument (''invalid value for '' @ option_name @ '': '' @ text))
              else Inr v)"

text \<open>The outcome of \<^verbatim>\<open>strtod\<close>: value, unread rest, range error.\<close>

type_synonym strtod = "string \<Rightarrow> double \<times> string option \<times> bool"

fun probability_outside :: "double \<Rightarrow> bool" where
  "probability_outside (Finite p) = (p < 0 \<or> p > 1)"
| "probability_outside Infinite = True"
| "probability_outside NotANumber = False"

definition parse_probability :: "strtod \<Rightarrow> string \<Rightarrow> string \<Rightarrow> double result" where
  "parse_probability strtod text option_name =
     (let (v, rest, erange) = strtod text
      in if erange \<or> rest = None \<or> rest \<noteq> Some [] \<or> probability_outside v
         then Inl (InvalidArgument (''invalid value for '' @ option_name @ '': '' @ text))
         else Inr v)"

text \<open>The branches of the option loop that take an argument.\<close>

definition argument_options :: "string list" where
  "argument_options = [''--elf'', ''--rom-image'', ''--ram-image'', ''--uart-in'', ''--uart-out'', ''--set'', ''--load'', ''--trace'',
     ''--max-cycles'', ''--reset-cycles'', ''--seed'', ''--stall-probability'']"

definition set_property :: "string \<Rightarrow> options \<times> platform_spec \<Rightarrow> (options \<times> platform_spec) result" where
  "set_property assignment st = result_bind (spec_set assignment (snd st)) (\<lambda>spec. Inr (fst st, spec))"

definition apply_option :: "strtod \<Rightarrow> string \<Rightarrow> string \<Rightarrow> options \<times> platform_spec \<Rightarrow> (options \<times> platform_spec) result" where
  "apply_option strtod name a st =
     (let opts = fst st; spec = snd st
      in if name = ''--elf'' then Inr (opts\<lparr>opt_elves := opt_elves opts @ [a]\<rparr>, spec)
         else if name = ''--rom-image'' then set_property (''rom.image='' @ a) st
         else if name = ''--ram-image'' then set_property (''ram.image='' @ a) st
         else if name = ''--uart-in'' then set_property (''uart.input='' @ a) st
         else if name = ''--uart-out'' then set_property (''uart.output='' @ a) st
         else if name = ''--set'' then set_property a st
         else if name = ''--load'' then Inr (opts\<lparr>opt_raw_images := opt_raw_images opts @ [a]\<rparr>, spec)
         else if name = ''--trace'' then Inr (opts\<lparr>opt_trace := Some a\<rparr>, spec)
         else if name = ''--max-cycles'' then result_bind (parse_count a name) (\<lambda>n. Inr (opts\<lparr>opt_max_cycles := n\<rparr>, spec))
         else if name = ''--reset-cycles'' then result_bind (parse_count a name) (\<lambda>n. Inr (opts\<lparr>opt_reset_cycles := n\<rparr>, spec))
         else if name = ''--seed'' then result_bind (parse_count a name) (\<lambda>n. Inr (opts\<lparr>opt_seed := n\<rparr>, spec))
         else result_bind (parse_probability strtod a name) (\<lambda>p. Inr (opts\<lparr>opt_stall_probability := p\<rparr>, spec)))"

fun parse_args :: "strtod \<Rightarrow> string list \<Rightarrow> options \<times> platform_spec \<Rightarrow> (options \<times> platform_spec) result" where
  "parse_args strtod [] st = Inr st"
| "parse_args strtod (name # rest) st =
     (if name = ''--help'' \<or> name = ''-h'' then parse_args strtod rest ((fst st)\<lparr>opt_help := True\<rparr>, snd st)
      else if name \<in> set argument_options then
        (case rest of
           [] \<Rightarrow> Inl (InvalidArgument (name @ '' requires an argument''))
         | a # rest' \<Rightarrow> result_bind (apply_option strtod name a st) (parse_args strtod rest'))
      else if name = ''--stats'' then parse_args strtod rest ((fst st)\<lparr>opt_stats := True\<rparr>, snd st)
      else if take 1 name = ''+'' then parse_args strtod rest st
      else Inl (InvalidArgument (''unknown option: '' @ name)))"

definition parse_options :: "strtod \<Rightarrow> bool \<Rightarrow> string list \<Rightarrow> platform_spec \<Rightarrow> (options \<times> platform_spec) result" where
  "parse_options strtod trace_enabled args spec =
     result_bind (parse_args strtod args (default_options, spec)) (\<lambda>(opts, spec').
       if opt_max_cycles opts = 0 then Inl (InvalidArgument ''--max-cycles must be greater than zero'')
       else if \<not> trace_enabled \<and> opt_trace opts \<noteq> None
       then Inl (InvalidArgument ''--trace requires tracing to be enabled when configuring the target'')
       else Inr (opts, spec'))"

section \<open>Images\<close>

text \<open>The search for the mapping a \<^verbatim>\<open>--load\<close> request names.\<close>

fun named_mapping :: "string \<Rightarrow> mapping list \<Rightarrow> u64 option \<Rightarrow> u64 option result" where
  "named_mapping target [] address = Inr address"
| "named_mapping target (m # ms) address =
     (if mp_name m = target then
        if address \<noteq> None then Inl (InvalidArgument (''ambiguous load target: '' @ target))
        else named_mapping target ms (Some (mp_base m))
      else named_mapping target ms address)"

definition load_request :: "(string \<Rightarrow> u8 list result) \<Rightarrow> address_space \<Rightarrow> heap \<Rightarrow> string \<Rightarrow> load_plan \<Rightarrow> load_plan result" where
  "load_request read_file space h request plan =
     (let target = takeWhile (\<lambda>c. c \<noteq> CHR ''='') request
      in if length target = length request then Inl (InvalidArgument ''--load expects ADDRESS|INSTANCE=FILE'')
         else result_bind (named_mapping target (as_mappings space) None) (\<lambda>named.
              result_bind (case named of None \<Rightarrow> parse_unsigned target | Some a \<Rightarrow> Inr a) (\<lambda>address.
              result_bind (read_file (drop (length target + 1) request)) (\<lambda>img.
                add_raw img address space h plan))))"

definition plan_images ::
  "(string \<Rightarrow> u8 list result) \<Rightarrow> options \<Rightarrow> raw_image list \<Rightarrow> address_space \<Rightarrow> heap \<Rightarrow> load_plan result" where
  "plan_images read_file opts images space h =
     result_bind (result_fold (\<lambda>i plan. result_bind (read_file (ri_path i)) (\<lambda>img. add_raw img (ri_address i) space h plan)) images []) (\<lambda>plan1.
     result_bind (result_fold (load_request read_file space h) (opt_raw_images opts) plan1) (\<lambda>plan2.
     result_fold (\<lambda>path plan. result_bind (read_file path) (\<lambda>img. result_bind (add_elf img space h plan) (\<lambda>(_, plan'). Inr plan')))
       (opt_elves opts) plan2))"

definition load_images :: "(string \<Rightarrow> u8 list result) \<Rightarrow> options \<Rightarrow> platform \<Rightarrow> unit result \<times> platform" where
  "load_images read_file opts p =
     (case bind_exec (read_exec (\<lambda>h. lift_result (plan_images read_file opts (pf_images p) (pf_space p) h)))
             (apply_plan (pf_space p)) (pf_heap p) of
        (r, h) \<Rightarrow> (r, p\<lparr>pf_heap := h\<rparr>))"

section \<open>The option loop\<close>

text \<open>What no option changes in the specification: devices, their types, mappings and connections.\<close>

definition same_layout :: "platform_spec \<Rightarrow> platform_spec \<Rightarrow> bool" where
  "same_layout a b \<longleftrightarrow> map (\<lambda>d. (ds_id d, ds_type d)) (sp_devices b) = map (\<lambda>d. (ds_id d, ds_type d)) (sp_devices a) \<and>
     sp_mappings b = sp_mappings a \<and> sp_connections b = sp_connections a"

fun probability_ok :: "double \<Rightarrow> bool" where
  "probability_ok (Finite p) = (0 \<le> p \<and> p \<le> 1)"
| "probability_ok Infinite = False"
| "probability_ok NotANumber = True"

lemma parse_probability_ok: "parse_probability strtod a name = Inr p \<Longrightarrow> probability_ok p"
  by (cases p) (auto simp: parse_probability_def split: prod.splits if_splits)

lemma spec_device_index: "spec_device ident spec = Inr i \<Longrightarrow> i < length (sp_devices spec)"
  by (auto simp: spec_device_def find_Some_iff split: option.splits)

lemma spec_set_layout: "spec_set a spec = Inr spec' \<Longrightarrow> same_layout spec spec'"
  by (auto simp: spec_set_def same_layout_def Let_def map_update dest!: spec_device_index split: if_splits prod.splits)
    (metis (no_types, lifting) list_update_id map_update nth_map)

lemma apply_option_keeps:
  assumes "apply_option strtod name a st = Inr st'" "same_layout spec (snd st)" "probability_ok (opt_stall_probability (fst st))"
  shows "same_layout spec (snd st') \<and> probability_ok (opt_stall_probability (fst st'))"
  using assms
  by (auto simp: apply_option_def Let_def set_property_def same_layout_def dest!: spec_set_layout dest: parse_probability_ok
      split: if_splits)

lemma parse_args_keeps:
  assumes "parse_args strtod args st = Inr st'" "same_layout spec (snd st)" "probability_ok (opt_stall_probability (fst st))"
  shows "same_layout spec (snd st') \<and> probability_ok (opt_stall_probability (fst st'))"
  using assms
proof (induction strtod args st rule: parse_args.induct)
  case (2 strtod name rest st)
  show ?case
  proof (cases "name \<in> set argument_options \<and> name \<noteq> ''--help'' \<and> name \<noteq> ''-h''")
    case True
    then obtain a rest' st1 where "rest = a # rest'" "apply_option strtod name a st = Inr st1" "parse_args strtod rest' st1 = Inr st'"
      using "2.prems"(1) by (auto split: list.splits)
    then show ?thesis using True 2 apply_option_keeps by auto
  next
    case False
    then show ?thesis using 2 by (auto split: if_splits)
  qed
qed simp

lemma parse_options_layout: "parse_options strtod trace_enabled args spec = Inr (opts, spec') \<Longrightarrow> same_layout spec spec'"
  using parse_args_keeps [of strtod args "(default_options, spec)" "(opts, spec')" spec]
  by (auto simp: parse_options_def same_layout_def default_options_def split: if_splits)

section \<open>Counts\<close>

lemma show_base_first: "0 < n \<Longrightarrow> 2 \<le> b \<Longrightarrow> b \<le> 16 \<Longrightarrow> hd (show_base b n) \<noteq> CHR ''0''"
proof (induction n rule: less_induct)
  case (less n)
  show ?case
  proof (cases "n < b")
    case True
    have "\<forall>d\<in>set [1..<16]. digit_char d \<noteq> CHR ''0''" by code_simp
    then show ?thesis using True less.prems by (subst show_base.simps) simp
  next
    case False
    then have "0 < n div b" "n div b < n" using less.prems by (auto simp: div_greater_zero_iff)
    then show ?thesis using False less by (subst show_base.simps) (simp add: hd_append)
  qed
qed

lemma parse_digits_all: "parse_digits b s acc = Some n \<Longrightarrow> \<forall>c\<in>set s. is_digit b c"
  by (induction b s acc rule: parse_digits.induct) (auto simp: is_digit_def split: option.splits if_splits)

lemma show_base_is_digit: "2 \<le> b \<Longrightarrow> b \<le> 16 \<Longrightarrow> \<forall>c\<in>set (show_base b n). is_digit b c"
  by (rule parse_digits_all [OF parse_digits_show_base])

lemma show_dec_prefix: "base_prefix (show_dec n) = (if n = 0 then 8 else 10, show_dec n)"
proof -
  obtain c cs where c: "show_dec n = c # cs" by (cases "show_dec n") (simp_all add: show_dec_def)
  have "c = CHR ''0'' \<longleftrightarrow> n = 0"
    using show_base_first [of n 10] c show_base.simps [of 10 0] by (auto simp: show_dec_def digit_char_def)
  then show ?thesis using c show_dec_not_hex [of n] by (auto simp: base_prefix_def)
qed

text \<open>White space, an optional minus sign and a decimal number.\<close>

lemma strtoull_dec:
  assumes "n < 2 ^ 64" "\<forall>c\<in>set sp. is_space c"
  shows "strtoull (sp @ show_dec n) = (of_nat n, Some [], False)" "strtoull (sp @ CHR ''-'' # show_dec n) = (- of_nat n, Some [], False)"
proof -
  let ?b = "if n = 0 then 8 else 10 :: nat"
  have d: "\<forall>c\<in>set (show_dec n). is_digit ?b c"
  proof (cases "n = 0")
    case True
    then show ?thesis by (simp add: show_dec_def show_base.simps [of 10 0] is_digit_def digit_char_def digit_value_def)
  next
    case False
    then show ?thesis using show_base_is_digit [of 10 n] by (simp add: show_dec_def)
  qed
  have v: "from_chars ?b 64 (show_dec n) = Some n"
  proof (cases "n = 0")
    case True
    then show ?thesis by (simp add: from_chars_def show_dec_def show_base.simps [of 10 0] digit_char_def digit_value_def)
  next
    case False
    then show ?thesis using from_chars_show_base [of 10 n 64] assms(1) by (simp add: show_dec_def)
  qed
  obtain c cs where c: "show_dec n = c # cs" by (cases "show_dec n") (simp_all add: show_dec_def)
  then have "c \<in> set ''0123456789''" using show_dec_digits [of n] by auto
  then have h: "\<not> is_space c" "c \<noteq> CHR ''-''" "c \<noteq> CHR ''+''" by (auto simp: is_space_def)
  have t: "takeWhile (is_digit ?b) (show_dec n) = show_dec n" using d by (simp add: takeWhile_eq_all_conv)
  have m: "\<not> is_space (CHR ''-'')" by (simp add: is_space_def)
  have drop: "dropWhile is_space (sp @ xs) = dropWhile is_space xs" for xs using assms(2) by (simp add: dropWhile_append3)
  have x: "dropWhile is_space (show_dec n) = show_dec n" "take 1 (show_dec n) \<noteq> ''-''" "take 1 (show_dec n) \<noteq> ''+''"
    using c h by simp_all
  show "strtoull (sp @ show_dec n) = (of_nat n, Some [], False)"
    unfolding strtoull_def drop x(1) using x(2,3) show_dec_prefix [of n] t v c by (simp add: Let_def)
  show "strtoull (sp @ CHR ''-'' # show_dec n) = (- of_nat n, Some [], False)"
    unfolding strtoull_def drop using m show_dec_prefix [of n] t v c by (simp add: Let_def)
qed

section \<open>Images\<close>

text \<open>A file fits into the address space of the host.\<close>

definition files_fit :: "(string \<Rightarrow> u8 list result) \<Rightarrow> bool" where
  "files_fit read_file \<longleftrightarrow> (\<forall>path img. read_file path = Inr img \<longrightarrow> length img < 2 ^ 64)"

lemma add_image_built:
  assumes "files_fit read_file" and "plan_built sp h plan" and "read_file path = Inr img"
  shows "add_raw img address sp h plan = Inr plan' \<Longrightarrow> plan_built sp h plan'"
    and "add_elf img sp h plan = Inr (res, plan') \<Longrightarrow> plan_built sp h plan'"
proof -
  have f: "length img < 2 ^ 64" using assms(1,3) unfolding files_fit_def by blast
  show "add_raw img address sp h plan = Inr plan' \<Longrightarrow> plan_built sp h plan'" by (rule plan_raw [OF assms(2) f])
  show "add_elf img sp h plan = Inr (res, plan') \<Longrightarrow> plan_built sp h plan'" by (rule plan_elf [OF assms(2) f])
qed

lemma plan_images_built:
  assumes f: "files_fit read_file"
    and "plan_images read_file opts images sp h = Inr plan"
  shows "plan_built sp h plan"
proof -
  obtain plan1 plan2 where
    p1: "result_fold (\<lambda>i plan. result_bind (read_file (ri_path i)) (\<lambda>img. add_raw img (ri_address i) sp h plan)) images [] = Inr plan1"
    and p2: "result_fold (load_request read_file sp h) (opt_raw_images opts) plan1 = Inr plan2"
    and p3: "result_fold (\<lambda>path plan. result_bind (read_file path) (\<lambda>img. result_bind (add_elf img sp h plan) (\<lambda>(_, plan'). Inr plan')))
       (opt_elves opts) plan2 = Inr plan"
    using assms(2) by (auto simp: plan_images_def)
  have "plan_built sp h plan1"
    by (rule result_fold_Inr [where P = "plan_built sp h", OF p1 plan_empty]) (auto dest: add_image_built(1) [OF f])
  then have "plan_built sp h plan2"
    by (rule result_fold_Inr [where P = "plan_built sp h", OF p2])
      (auto simp: load_request_def Let_def split: if_splits dest: add_image_built(1) [OF f])
  then show ?thesis
    by (rule result_fold_Inr [where P = "plan_built sp h", OF p3]) (auto dest: add_image_built(2) [OF f])
qed

lemma heap_step_sources: "heap_step h h' \<Longrightarrow> i < length h \<Longrightarrow> dev_sources (h' ! i) = dev_sources (h ! i)"
  by (cases "h ! i"; cases "h' ! i") (auto simp: heap_step_def same_kind_def dest!: spec [of _ i])

lemma platform_wf_step:
  assumes "platform_wf p" "heap_step (pf_heap p) h"
  shows "platform_wf (p\<lparr>pf_heap := h\<rparr>)"
proof -
  have "pf_order p ! j < length (pf_heap p)" if "j < length (pf_order p)" for j
    using assms(1) that nth_mem [OF that] by (auto simp: platform_wf_def)
  then have "dev_sources (h ! (pf_order p ! j)) = dev_sources (pf_heap p ! (pf_order p ! j))" if "j < length (pf_order p)" for j
    using heap_step_sources [OF assms(2)] that by simp
  then show ?thesis using assms by (simp add: platform_wf_def heap_step_def)
qed

lemma apply_plan_step:
  assumes "as_wf sp" and "heap_wf h" and "devices_ok sp h" and "plan_built sp h plan"
  shows "heap_step h (snd (apply_plan sp plan h))"
proof -
  have ok: "\<forall>c\<in>set plan. chunk_ok sp h c" by (rule plan_built_ok [OF assms(4,1-3)])
  then have "list_all chunk_wf plan" by (simp add: list_all_iff chunk_ok_def)
  note e = apply_plan_eq [OF assms(1-3) this]
  show ?thesis using e fold_place_step [OF assms(1-3) ok] by (auto split: sum.splits)
qed

section \<open>Properties\<close>

text \<open>C29: the command line cannot produce an unusable configuration. If \<^verbatim>\<open>parse_options\<close> returns, the cycle limit is positive, a trace
  file is set only in a tracing build, the stall probability is not outside \<open>[0, 1]\<close>, and the platform keeps
  its devices, types, mappings and connections: options only change device properties.\<close>

theorem parse_options_sound:
  assumes "parse_options strtod trace_enabled args spec = Inr (opts, spec')"
  shows "opt_max_cycles opts \<noteq> 0 \<and> (opt_trace opts \<noteq> None \<longrightarrow> trace_enabled) \<and> probability_ok (opt_stall_probability opts) \<and>
    same_layout spec spec'"
proof -
  have p: "parse_args strtod args (default_options, spec) = Inr (opts, spec')" "opt_max_cycles opts \<noteq> 0"
    "opt_trace opts \<noteq> None \<Longrightarrow> trace_enabled" using assms by (auto simp: parse_options_def split: if_splits)
  have "same_layout spec (snd (default_options, spec))" "probability_ok (opt_stall_probability (fst (default_options, spec)))"
    by (simp_all add: same_layout_def default_options_def)
  from parse_args_keeps [OF p(1) this] show ?thesis using p(2,3) by simp
qed

theorem parse_options_sound_witness:
  "\<exists>opts spec'. parse_options (\<lambda>s. (NotANumber, None, False)) False [''--max-cycles'', ''7'', ''+dump'', ''--elf'', ''a.elf''] (default_platform preset_map)
      = Inr (opts, spec') \<and> opt_max_cycles opts = 7 \<and> same_layout (default_platform preset_map) spec'"
proof -
  let ?r = "parse_options (\<lambda>s. (NotANumber, None, False)) False [''--max-cycles'', ''7'', ''+dump'', ''--elf'', ''a.elf''] (default_platform preset_map)"
  have v: "parse_count ''7'' n = Inr 7" for n
    using strtoull_dec(1) [of 7 "[]"] by (simp add: parse_count_def show_dec_def show_base.simps [of 10 7] digit_char_def)
  have e: "?r = Inr (default_options\<lparr>opt_max_cycles := 7, opt_elves := [''a.elf'']\<rparr>, default_platform preset_map)"
    by (simp add: parse_options_def argument_options_def apply_option_def v default_options_def)
  from parse_options_sound [OF this] e show ?thesis by simp
qed

text \<open>Counts on the command line. A decimal number is read back exactly, with or without leading white space; but
  white space before a minus sign defeats the check of the first character, and the negated number is
  accepted modulo \<open>2\<^sup>6\<^sup>4\<close>, so that \<^verbatim>\<open>--max-cycles " -1"\<close> is the largest count instead of an error.\<close>

theorem parse_count_signs:
  assumes "\<forall>c\<in>set sp. is_space c"
  shows "parse_count (sp @ show_dec (unat n)) name = Inr n \<and>
    (parse_count (sp @ ''-'' @ show_dec (unat n)) name = (if sp = [] then Inl (InvalidArgument (name @ '' expects an unsigned integer'')) else Inr (- n)))"
proof -
  have b: "unat n < 2 ^ 64" by (rule unat_u64_less)
  have "hd (sp @ show_dec (unat n)) \<noteq> CHR ''-''" "sp @ show_dec (unat n) \<noteq> []" "sp \<noteq> [] \<Longrightarrow> hd (sp @ xs) \<noteq> CHR ''-''" for xs
  proof -
    obtain c cs where c: "show_dec (unat n) = c # cs" by (cases "show_dec (unat n)") (simp_all add: show_dec_def)
    then have "c \<in> set ''0123456789''" using show_dec_digits [of "unat n"] by auto
    then have d: "c \<noteq> CHR ''-''" by auto
    show s: "sp \<noteq> [] \<Longrightarrow> hd (sp @ xs) \<noteq> CHR ''-''" for xs using assms by (cases sp) (auto simp: is_space_def)
    show "hd (sp @ show_dec (unat n)) \<noteq> CHR ''-''" using s d c by (cases sp) auto
    show "sp @ show_dec (unat n) \<noteq> []" using c by simp
  qed
  moreover have "strtoull (sp @ show_dec (unat n)) = (n, Some [], False)" "strtoull (sp @ ''-'' @ show_dec (unat n)) = (- n, Some [], False)"
    using strtoull_dec [OF b assms] by simp_all
  ultimately show ?thesis by (cases "sp = []") (simp_all add: parse_count_def)
qed

theorem parse_count_signs_witness: "parse_count '' -1'' ''--max-cycles'' = Inr 0xFFFFFFFFFFFFFFFF"
proof -
  have "\<forall>c\<in>set '' ''. is_space c" by (simp add: is_space_def)
  from parse_count_signs [OF this, of 1 "''--max-cycles''"] show ?thesis
    by (simp add: show_dec_def show_base.simps [of 10 "Suc 0"] digit_char_def)
qed

lemma load_images_outcome:
  assumes "platform_wf p" and "as_wf (pf_space p)" and "devices_ok (pf_space p) (pf_heap p)"
    and "files_fit read_file"
  shows "case load_images read_file opts p of
      (Inl e, p') \<Rightarrow> p' = p
    | (Inr _, p') \<Rightarrow> platform_wf p' \<and> (\<exists>plan. plan_images read_file opts (pf_images p) (pf_space p) (pf_heap p) = Inr plan \<and>
        (\<forall>c\<in>set plan. \<forall>i<unat (es_memory_size (ck_segment c)).
          bus_byte (pf_space p) (pf_heap p') (unat (es_load_address (ck_segment c)) + i) = Some (if i < length (ck_data c) then ck_data c ! i else 0)))"
proof -
  have wf: "heap_wf (pf_heap p)" using assms(1) by (simp add: platform_wf_def)
  show ?thesis
  proof (cases "plan_images read_file opts (pf_images p) (pf_space p) (pf_heap p)")
    case (Inl e)
    then show ?thesis by (simp add: load_images_def exec_defs)
  next
    case (Inr plan)
    have b: "plan_built (pf_space p) (pf_heap p) plan" by (rule plan_images_built [OF assms(4) Inr])
    have l: "load_images read_file opts p = (case apply_plan (pf_space p) plan (pf_heap p) of (r, h) \<Rightarrow> (r, p\<lparr>pf_heap := h\<rparr>))"
      by (simp add: load_images_def bind_exec_def read_exec_def lift_result_def Inr)
    show ?thesis
      using image_plan_stores [OF assms(2) wf assms(3) b] apply_plan_step [OF assms(2) wf assms(3) b] platform_wf_step [OF assms(1)] Inr
      unfolding l by (auto split: prod.splits sum.splits)
  qed
qed


lemma example_platform:
  obtains p where "platform_new example_host example_registry (default_platform preset_map) 32 = Inr p" "platform_wf p"
    "as_wf (pf_space p)" "devices_ok (pf_space p) (pf_heap p)"
proof -
  obtain p where p: "platform_new example_host example_registry (default_platform preset_map) 32 = Inr p"
    using preset_platform_iff [OF example_registry_ok(1) example_host_opens, of 32 preset_map] preset_map_ok by auto
  have "length (sp_connections (default_platform preset_map)) < 2 ^ 32" by (simp add: default_platform_def)
  from platform_new_wf [OF example_registry_ok(2,3) this p] show ?thesis using that [OF p] by blast
qed


end
