(* ===== verification/Simulator.thy ===== *)
theory Simulator
  imports Sim_Options Fabric_Safety
begin

text \<open>
  \<^verbatim>\<open>sim_main.cpp\<close> without its command line: read statistics, the simulation loop over the platform, the fabric, the pin
  binding and the design under test, and \<^verbatim>\<open>main\<close> with its exit statuses. The Verilator model is generated
  code and a parameter: a state, \<^verbatim>\<open>eval\<close>, and whether \<^verbatim>\<open>$finish\<close> has been called. The flag a signal handler
  sets is read once per iteration; \<open>flag n\<close> is the value iteration \<open>n\<close> reads.
\<close>

section \<open>Read statistics\<close>

record port_stats =
  rs_requests :: u64
  rs_bytes_requested :: u64
  rs_beats_received :: u64

record read_statistics =
  rs_enabled :: bool
  rs_ports :: "port_stats list"

definition stats_new :: "nat \<Rightarrow> bool \<Rightarrow> read_statistics" where
  "stats_new n enabled =
     \<lparr>rs_enabled = enabled, rs_ports = replicate n \<lparr>rs_requests = 0, rs_bytes_requested = 0, rs_beats_received = 0\<rparr>\<rparr>"

definition stats_port :: "master_signals \<Rightarrow> slave_signals \<Rightarrow> port_stats \<Rightarrow> port_stats" where
  "stats_port master slave stats =
     (let stats1 = (if ar_valid master \<and> ar_ready slave
                    then stats\<lparr>rs_requests := rs_requests stats + 1,
                           rs_bytes_requested := rs_bytes_requested stats +
                             push_bit (unat (ax_size (m_ar master))) (ucast (ax_length (m_ar master)) + 1)\<rparr>
                    else stats)
      in if r_ready master \<and> r_valid slave then stats1\<lparr>rs_beats_received := rs_beats_received stats1 + 1\<rparr> else stats1)"

definition stats_sample :: "master_signals list \<Rightarrow> slave_signals list \<Rightarrow> bool \<Rightarrow> read_statistics \<Rightarrow> read_statistics" where
  "stats_sample masters slaves reset st =
     (if \<not> rs_enabled st \<or> reset then st
      else st\<lparr>rs_ports := map (\<lambda>port. stats_port (masters ! port) (slaves ! port) (rs_ports st ! port)) [0..<length (rs_ports st)]\<rparr>)"

definition stats_print :: "u64 \<Rightarrow> read_statistics \<Rightarrow> string" where
  "stats_print active_cycles st =
     (if \<not> rs_enabled st then []
      else ''SIM_STATS active_cycles='' @ show_dec (unat active_cycles) @ newline @
           concat (map (\<lambda>port. let stats = rs_ports st ! port
             in ''AXI_STATS port='' @ show_dec port @ '' read_requests='' @ show_dec (unat (rs_requests stats)) @
                '' read_bytes_requested='' @ show_dec (unat (rs_bytes_requested stats)) @
                '' read_beats_received='' @ show_dec (unat (rs_beats_received stats)) @ newline) [0..<length (rs_ports st)]))"

section \<open>The target\<close>

text \<open>The choices of the generated \<^verbatim>\<open>config.hpp\<close>: widths, thread count, tracing, address map, and the platform and sideband types.\<close>

datatype platform_choice = DefaultPlatform | FuxiPlatform fuxi_config

datatype sideband_choice = NoSideband | SidebandBinding

record sim_config =
  sc_fabric :: fabric_config
  sc_threads :: nat
  sc_trace_enabled :: bool
  sc_map :: default_map
  sc_platform :: platform_choice
  sc_sideband :: sideband_choice

fun platform_register_devices :: "platform_choice \<Rightarrow> device_registry \<Rightarrow> device_registry result" where
  "platform_register_devices DefaultPlatform reg = Inr reg"
| "platform_register_devices (FuxiPlatform fx) reg = fuxi_register_devices reg"

fun platform_defaults :: "platform_choice \<Rightarrow> default_map \<Rightarrow> platform_spec result" where
  "platform_defaults DefaultPlatform m = Inr (default_platform m)"
| "platform_defaults (FuxiPlatform fx) m = fuxi_defaults fx m"

fun bind_sideband :: "sideband_choice \<Rightarrow> platform \<Rightarrow> sideband option result" where
  "bind_sideband NoSideband p = Inr None"
| "bind_sideband SidebandBinding p = result_bind (sideband_new p) (\<lambda>sb. Inr (Some sb))"

fun drive_sideband :: "sideband option \<Rightarrow> heap \<Rightarrow> u64 list \<Rightarrow> u64 list" where
  "drive_sideband None h pins = pins"
| "drive_sideband (Some sb) h pins = sideband_drive sb h"

section \<open>The design under test\<close>

record 'd dut =
  du_pins :: axi_pins
  du_clk :: u8
  du_aresetn :: u8
  du_sideband :: "u64 list"
  du_time :: u64
  du_state :: 'd

record 'd verilated =
  vl_initial :: "'d dut"
  vl_eval :: "'d dut \<Rightarrow> 'd dut"
  vl_got_finish :: "'d dut \<Rightarrow> bool"
  vl_threads :: nat

text \<open>\<^verbatim>\<open>evaluate\<close>; the trace writer only observes the model and its dumps are not part of the state.\<close>

definition evaluate :: "'d verilated \<Rightarrow> 'd dut \<Rightarrow> 'd dut" where
  "evaluate v t = (vl_eval v t)\<lparr>du_time := du_time t + 1\<rparr>"

section \<open>One cycle\<close>

record 'd sim =
  si_platform :: platform
  si_fabric :: fabric
  si_dut :: "'d dut"
  si_stats :: read_statistics
  si_active :: u64
  si_total :: u64

text \<open>The fabric works on the devices of the platform: it gets the heap before it runs, and the platform gets it back.\<close>

definition cycle_fabric :: "sim_config \<Rightarrow> bool \<Rightarrow> 'd sim \<Rightarrow> fabric" where
  "cycle_fabric sc reset s = drive (sc_fabric sc) reset ((si_fabric s)\<lparr>fa_heap := pf_heap (begin_cycle reset (si_platform s))\<rparr>)"

definition cycle_inputs :: "sideband option \<Rightarrow> bool \<Rightarrow> 'd sim \<Rightarrow> 'd dut" where
  "cycle_inputs sb reset s =
     (si_dut s)\<lparr>du_sideband := drive_sideband sb (pf_heap (begin_cycle reset (si_platform s))) (du_sideband (si_dut s)), du_clk := 0,
       du_aresetn := (if reset then 0 else 1)\<rparr>"

definition cycle :: "'d verilated \<Rightarrow> sim_config \<Rightarrow> sideband option \<Rightarrow> bool \<Rightarrow> 'd sim \<Rightarrow> 'd sim result" where
  "cycle v sc sb reset s =
     (let p = begin_cycle reset (si_platform s);
          t0 = cycle_inputs sb reset s;
          f = cycle_fabric sc reset s
      in result_bind (drive_pins (sc_fabric sc) (du_pins t0) (fa_outputs f)) (\<lambda>pins.
         let t1 = evaluate v (t0\<lparr>du_pins := pins\<rparr>)
         in result_bind (sample (sc_fabric sc) (du_pins t1)) (\<lambda>sampled.
            let st = stats_sample sampled (fa_outputs f) reset (si_stats s);
                t2 = evaluate v (t1\<lparr>du_clk := 1\<rparr>)
            in case commit (sc_fabric sc) sampled reset f of
                 (Inl e, f') \<Rightarrow> Inl e
               | (Inr _, f') \<Rightarrow>
                   Inr (s\<lparr>si_platform := end_cycle reset (p\<lparr>pf_heap := fa_heap f'\<rparr>), si_fabric := f', si_dut := t2, si_stats := st,
                          si_total := si_total s + 1, si_active := si_active s + (if reset then 0 else 1)\<rparr>))))"

lemma cycle_stages:
  assumes "cycle v sc sb reset s = Inr s'"
  obtains pins sampled f' where
    "drive_pins (sc_fabric sc) (du_pins (cycle_inputs sb reset s)) (fa_outputs (cycle_fabric sc reset s)) = Inr pins"
    "sample (sc_fabric sc) (du_pins (evaluate v ((cycle_inputs sb reset s)\<lparr>du_pins := pins\<rparr>))) = Inr sampled"
    "commit (sc_fabric sc) sampled reset (cycle_fabric sc reset s) = (Inr (), f')"
    "s' = s\<lparr>si_platform := end_cycle reset ((begin_cycle reset (si_platform s))\<lparr>pf_heap := fa_heap f'\<rparr>), si_fabric := f',
       si_dut := evaluate v ((evaluate v ((cycle_inputs sb reset s)\<lparr>du_pins := pins\<rparr>))\<lparr>du_clk := 1\<rparr>),
       si_stats := stats_sample sampled (fa_outputs (cycle_fabric sc reset s)) reset (si_stats s),
       si_total := si_total s + 1, si_active := si_active s + (if reset then 0 else 1)\<rparr>"
proof -
  obtain pins sampled where 1: "drive_pins (sc_fabric sc) (du_pins (cycle_inputs sb reset s)) (fa_outputs (cycle_fabric sc reset s)) = Inr pins"
    "sample (sc_fabric sc) (du_pins (evaluate v ((cycle_inputs sb reset s)\<lparr>du_pins := pins\<rparr>))) = Inr sampled"
    using assms unfolding cycle_def Let_def result_bind_Inr_iff by blast
  obtain f' where "commit (sc_fabric sc) sampled reset (cycle_fabric sc reset s) = (Inr (), f')"
    using assms 1 by (cases "commit (sc_fabric sc) sampled reset (cycle_fabric sc reset s)") (auto simp: cycle_def Let_def split: sum.splits)
  then show ?thesis using that [OF 1] assms 1 by (simp add: cycle_def Let_def)
qed

section \<open>The loop\<close>

datatype 'd loop_exit = GuestExit u32 "'d sim" | LoopEnded nat "'d sim"

lemma cycle_counters:
  assumes "cycle v sc sb reset s = Inr s'"
  shows "si_total s' = si_total s + 1" "si_active s' = si_active s + (if reset then 0 else 1)"
  by (rule cycle_stages [OF assms]; simp)+

lemma word_Suc: "a < b \<Longrightarrow> unat (a + 1) = unat a + 1" for a b :: u64
  using unat_u64_less [of b] by (simp add: word_less_nat_alt unat_word_ariths)

function sim_loop :: "'d verilated \<Rightarrow> sim_config \<Rightarrow> options \<Rightarrow> sideband option \<Rightarrow> (nat \<Rightarrow> bool) \<Rightarrow> nat \<Rightarrow> 'd sim \<Rightarrow> 'd loop_exit result" where
  "sim_loop v sc opts sb flag n s =
     (if si_active s < opt_max_cycles opts \<and> \<not> flag n \<and> \<not> vl_got_finish v (si_dut s) then
        result_bind (cycle v sc sb (si_total s < opt_reset_cycles opts) s) (\<lambda>s'.
          if fa_exit_completed (si_fabric s') then Inr (GuestExit (fa_exit_code (si_fabric s')) s')
          else sim_loop v sc opts sb flag (n + 1) s')
      else Inr (LoopEnded n s))"
  by pat_completeness auto

termination
proof (relation "inv_image (less_than <*lex*> less_than) (\<lambda>(v, sc, opts, sb, flag, n, s).
    (unat (opt_max_cycles opts) - unat (si_active s), unat (opt_reset_cycles opts) - unat (si_total s)))")
  fix v :: "'d verilated" and sc opts sb flag and n :: nat and s s' :: "'d sim"
  assume a: "si_active s < opt_max_cycles opts \<and> \<not> flag n \<and> \<not> vl_got_finish v (si_dut s)"
    and c: "cycle v sc sb (si_total s < opt_reset_cycles opts) s = Inr s'"
  show "((v, sc, opts, sb, flag, n + 1, s'), (v, sc, opts, sb, flag, n, s))
    \<in> inv_image (less_than <*lex*> less_than) (\<lambda>(v, sc, opts, sb, flag, n, s).
      (unat (opt_max_cycles opts) - unat (si_active s), unat (opt_reset_cycles opts) - unat (si_total s)))"
  proof (cases "si_total s < opt_reset_cycles opts")
    case True
    then show ?thesis using cycle_counters [OF c] word_Suc [OF True] by (simp add: word_less_nat_alt)
  next
    case False
    then show ?thesis using cycle_counters [OF c] a word_Suc [of "si_active s" "opt_max_cycles opts"] by (auto simp: word_less_nat_alt)
  qed
qed auto

declare sim_loop.simps [simp del]

section \<open>A run\<close>

definition CONFIGURATION_ERROR :: nat where "CONFIGURATION_ERROR = 2"
definition PROTOCOL_ERROR :: nat where "PROTOCOL_ERROR = 3"
definition TIMEOUT_ERROR :: nat where "TIMEOUT_ERROR = 124"

text \<open>What the host supplies: files, the conversion of fractions, the signals.\<close>

record sim_host =
  sh_services :: host_services
  sh_read_file :: "string \<Rightarrow> u8 list result"
  sh_trace_opens :: "string \<Rightarrow> bool"
  sh_strtod :: strtod
  sh_flag :: "nat \<Rightarrow> bool"

definition setup_simulation ::
  "sim_host \<Rightarrow> 'd verilated \<Rightarrow> sim_config \<Rightarrow> options \<Rightarrow> device_registry \<Rightarrow> platform_spec \<Rightarrow> (sideband option \<times> 'd sim) result" where
  "setup_simulation host v sc opts reg spec =
     result_bind (platform_new (sh_services host) reg spec (address_bits (sc_fabric sc))) (\<lambda>p.
     result_bind (bind_sideband (sc_sideband sc) p) (\<lambda>sb.
     case load_images (sh_read_file host) opts p of
       (Inl e, _) \<Rightarrow> Inl e
     | (Inr _, p1) \<Rightarrow>
         if vl_threads v \<noteq> sc_threads sc
         then Inl (RuntimeError ''generated Verilator model thread count does not match configuration'')
         else result_bind (set_stall_probability (opt_stall_probability opts)
                (set_seed (opt_seed opts) (fabric_new (sc_fabric sc) (pf_space p1) (pf_heap p1) False))) (\<lambda>f.
              if sc_trace_enabled sc \<and> (case opt_trace opts of None \<Rightarrow> False | Some path \<Rightarrow> \<not> sh_trace_opens host path)
              then Inl (RuntimeError (''cannot open trace output: '' @ the (opt_trace opts)))
              else Inr (sb, \<lparr>si_platform = p1, si_fabric = f, si_dut = vl_initial v,
                     si_stats = stats_new (num_ports (sc_fabric sc)) (opt_stats opts), si_active = 0, si_total = 0\<rparr>))))"

text \<open>The exit status and the text on the standard error stream. The handler sets \<^verbatim>\<open>interrupted\<close> to 1 for every signal.\<close>

definition conclude :: "'d verilated \<Rightarrow> (nat \<Rightarrow> bool) \<Rightarrow> 'd loop_exit \<Rightarrow> nat \<times> string" where
  "conclude v flag x =
     (case x of
        GuestExit guest_code s \<Rightarrow>
          (if guest_code = 0 then 0 else 1,
           ''[axi-tb] guest exit code '' @ show_dec (unat guest_code) @ '' (0x'' @ show_hex (unat guest_code) @ '') after '' @
           show_dec (unat (si_active s)) @ '' cycle(s)'' @ newline @ stats_print (si_active s) (si_stats s))
      | LoopEnded n s \<Rightarrow>
          (let report = stats_print (si_active s) (si_stats s)
           in if flag (n + 1)
              then (128 + 1, report @ ''[axi-tb] interrupted after '' @ show_dec (unat (si_active s)) @ '' active cycle(s)'' @ newline)
              else if vl_got_finish v (si_dut s)
              then (PROTOCOL_ERROR, report @ ''[axi-tb] DUT called $finish before writing the exit device'' @ newline)
              else (TIMEOUT_ERROR, report @ ''[axi-tb] timeout after '' @ show_dec (unat (si_active s)) @ '' active cycle(s)'' @ newline)))"

definition run_simulation ::
  "sim_host \<Rightarrow> 'd verilated \<Rightarrow> sim_config \<Rightarrow> options \<Rightarrow> device_registry \<Rightarrow> platform_spec \<Rightarrow> (nat \<times> string) result" where
  "run_simulation host v sc opts reg spec =
     result_bind (setup_simulation host v sc opts reg spec) (\<lambda>(sb, s).
     result_bind (sim_loop v sc opts sb (sh_flag host) 0 s) (\<lambda>x. Inr (conclude v (sh_flag host) x)))"

text \<open>\<^verbatim>\<open>main\<close>: the status of an exception, and the order in which the configuration is built.\<close>

fun exit_status :: "exn \<Rightarrow> nat" where
  "exit_status (ProtocolError m) = PROTOCOL_ERROR"
| "exit_status e = CONFIGURATION_ERROR"

fun exit_message :: "exn \<Rightarrow> string" where
  "exit_message (ProtocolError m) = ''[axi-tb] AXI protocol error: '' @ m @ newline"
| "exit_message (ElfError m) = ''[axi-tb] image error: '' @ m @ newline"
| "exit_message (LogicError m) = ''[axi-tb] configuration error: '' @ m @ newline"
| "exit_message (InvalidArgument m) = ''[axi-tb] configuration error: '' @ m @ newline"
| "exit_message (OutOfRange m) = ''[axi-tb] configuration error: '' @ m @ newline"
| "exit_message (RuntimeError m) = ''[axi-tb] configuration error: '' @ m @ newline"
| "exit_message (UndefinedBehaviour m) = []"

definition print_help :: "string \<Rightarrow> string" where
  "print_help program = concat (map (\<lambda>l. l @ newline)
     [''Usage: '' @ program @ '' [options]'', [],
      ''Images:'',
      ''  --elf FILE             Load ELF32/ELF64 PT_LOADs (repeatable)'',
      ''  --load TARGET=FILE     Load raw bytes at an address or mapped instance'',
      ''  --set ID.OPTION=VALUE  Override a registered device property'',
      ''  --rom-image FILE       Load a raw image at the ROM base'',
      ''  --ram-image FILE       Load a raw image at the RAM base'', [],
      ''Simulation:'',
      ''  --max-cycles N         Active cycles before timeout (default 10000000)'',
      ''  --reset-cycles N       Reset rising edges (default 5)'',
      ''  --seed N               Random-stall seed (default 1)'',
      ''  --stall-probability P  AW/W/AR READY stall probability [0,1]'',
      ''  --stats                Print full-run per-port AXI read traffic'',
      ''  --trace FILE           Write the build-selected VCD or FST trace'',
      ''  +NAME[=VALUE]          Pass a plusarg through to the RTL model'', [],
      ''UART:'',
      ''  --uart-in FILE|-       Input bytes (default stdin)'',
      ''  --uart-out FILE|-      Output bytes (default stdout)''])"

definition configure_target :: "sim_config \<Rightarrow> (device_registry \<times> platform_spec) result" where
  "configure_target sc =
     result_bind (register_builtin_devices []) (\<lambda>reg0.
     result_bind (platform_register_devices (sc_platform sc) reg0) (\<lambda>reg.
     result_bind (platform_defaults (sc_platform sc) (sc_map sc)) (\<lambda>spec. Inr (reg, spec))))"

definition sim_main :: "sim_host \<Rightarrow> 'd verilated \<Rightarrow> sim_config \<Rightarrow> string \<Rightarrow> string list \<Rightarrow> nat \<times> string" where
  "sim_main host v sc program args =
     (case result_bind (configure_target sc) (\<lambda>(reg, spec).
             result_bind (parse_options (sh_strtod host) (sc_trace_enabled sc) args spec) (\<lambda>(opts, spec').
               if opt_help opts then Inr (0, print_help program @ registry_help reg)
               else run_simulation host v sc opts reg spec')) of
        Inl e \<Rightarrow> (exit_status e, exit_message e)
      | Inr r \<Rightarrow> r)"

section \<open>Invariant\<close>

text \<open>What the simulator relies on of the generated model: \<^verbatim>\<open>eval\<close> cannot change the types of the pins.\<close>

definition dut_ok :: "fabric_config \<Rightarrow> 'd verilated \<Rightarrow> bool" where
  "dut_ok cfg v \<longleftrightarrow> pins_ok cfg (du_pins (vl_initial v)) \<and> (\<forall>t. pins_ok cfg (du_pins t) \<longrightarrow> pins_ok cfg (du_pins (vl_eval v t)))"

definition sim_wf :: "sim_config \<Rightarrow> 'd sim \<Rightarrow> bool" where
  "sim_wf sc s \<longleftrightarrow>
     platform_wf (si_platform s) \<and> fabric_wf (sc_fabric sc) (si_fabric s) \<and> fa_space (si_fabric s) = pf_space (si_platform s) \<and>
     devices_ok (pf_space (si_platform s)) (pf_heap (si_platform s)) \<and> pins_ok (sc_fabric sc) (du_pins (si_dut s)) \<and>
     length (rs_ports (si_stats s)) = num_ports (sc_fabric sc)"

lemma hooks_fields [simp]:
  "pf_order (begin_cycle r p) = pf_order p" "pf_space (begin_cycle r p) = pf_space p"
  "pf_order (end_cycle r p) = pf_order p" "pf_space (end_cycle r p) = pf_space p"
  by (auto simp: begin_cycle_def end_cycle_def platform_settle_def platform_reset_def)

lemma platform_wf_length: "platform_wf p \<Longrightarrow> platform_wf p' \<Longrightarrow> pf_order p' = pf_order p \<Longrightarrow> length (pf_heap p') = length (pf_heap p)"
  by (metis card_lessThan platform_wf_def)

lemma devices_ok_length: "length h' = length h \<Longrightarrow> devices_ok sp h' = devices_ok sp h"
  by (simp add: devices_ok_def)

lemma stats_sample_length [simp]: "length (rs_ports (stats_sample ms ss r st)) = length (rs_ports st)"
  by (simp add: stats_sample_def)

lemma evaluate_pins: "dut_ok cfg v \<Longrightarrow> pins_ok cfg (du_pins t) \<Longrightarrow> pins_ok cfg (du_pins (evaluate v t))"
  by (simp add: dut_ok_def evaluate_def)

lemma commit_reset_step:
  assumes "fabric_wf cfg s" and "commit cfg inputs True s = (r, s')"
  shows "heap_step (fa_heap s) (fa_heap s')"
proof -
  have "devices_ok (fa_space s) (fa_heap s)" using assms(1) by (simp add: fabric_wf_def)
  then have "heap_step (fa_heap s) (as_reset (fa_space s) (fa_heap s))" by (rule as_reset_step)
  then show ?thesis using assms(2) by (auto simp: commit_def modify_exec_def Let_def reset_state_def)
qed

lemma commit_outcome:
  assumes "fabric_wf cfg s" and "driven cfg s" and "inputs_wf cfg inputs"
  shows "case commit cfg inputs r s of
      (Inl e, s') \<Rightarrow> is_protocol_error e \<and> \<not> r
    | (Inr _, s') \<Rightarrow> fabric_wf cfg s' \<and> fa_space s' = fa_space s \<and> heap_step (fa_heap s) (fa_heap s')"
proof (cases r)
  case True
  then show ?thesis
    using commit_reset_wp [OF assms(1), of inputs] commit_reset_step [OF assms(1), of inputs]
    by (auto simp: wp_def split: prod.splits sum.splits)
next
  case False
  then show ?thesis using commit_wp [OF assms] by (auto simp: wp_def split: prod.splits sum.splits)
qed

lemma cycle_fabric_facts:
  assumes "sim_wf sc s"
  shows "platform_wf (begin_cycle r (si_platform s))" "fabric_wf (sc_fabric sc) (cycle_fabric sc r s)" "driven (sc_fabric sc) (cycle_fabric sc r s)"
    "slaves_wf (sc_fabric sc) (fa_outputs (cycle_fabric sc r s))" "fa_heap (cycle_fabric sc r s) = pf_heap (begin_cycle r (si_platform s))"
    "fa_space (cycle_fabric sc r s) = pf_space (si_platform s)"
proof -
  let ?p = "begin_cycle r (si_platform s)" and ?f = "(si_fabric s)\<lparr>fa_heap := pf_heap (begin_cycle r (si_platform s))\<rparr>"
  have pw: "platform_wf (si_platform s)" using assms by (simp add: sim_wf_def)
  show p: "platform_wf ?p" by (rule begin_cycle_wf [OF pw])
  have "length (pf_heap ?p) = length (pf_heap (si_platform s))" by (rule platform_wf_length [OF pw p]) simp
  from devices_ok_length [OF this, of "pf_space (si_platform s)"] have f: "fabric_wf (sc_fabric sc) ?f"
    using assms p by (auto simp: sim_wf_def fabric_wf_def platform_wf_def)
  note d = drive_facts [OF f, of r]
  show "fabric_wf (sc_fabric sc) (cycle_fabric sc r s)" "driven (sc_fabric sc) (cycle_fabric sc r s)"
    "slaves_wf (sc_fabric sc) (fa_outputs (cycle_fabric sc r s))"
    unfolding cycle_fabric_def by (fact d(1), fact d(2), rule drive_slaves_wf [OF f])
  show "fa_heap (cycle_fabric sc r s) = pf_heap ?p" "fa_space (cycle_fabric sc r s) = pf_space (si_platform s)"
    unfolding cycle_fabric_def using d(3) assms by (auto simp: sim_wf_def)
qed

lemma cycle_outcome:
  assumes wf: "sim_wf sc s" and v: "dut_ok (sc_fabric sc) v"
  shows "case cycle v sc sb r s of Inl e \<Rightarrow> is_protocol_error e \<and> \<not> r | Inr s' \<Rightarrow> sim_wf sc s'"
proof -
  let ?cfg = "sc_fabric sc" and ?f = "cycle_fabric sc r s" and ?t = "cycle_inputs sb r s" and ?p = "begin_cycle r (si_platform s)"
  note f = cycle_fabric_facts [OF wf, of r]
  have c: "config_ok ?cfg" and pins: "pins_ok ?cfg (du_pins ?t)" using wf by (auto simp: sim_wf_def fabric_wf_def cycle_inputs_def)
  obtain ps where ps: "drive_pins ?cfg (du_pins ?t) (fa_outputs ?f) = Inr ps" "pins_ok ?cfg ps"
    using drive_pins_driven [OF c pins f(4), of "num_ports ?cfg"] driven_pins_ok [OF pins _ c] by (auto simp: drive_pins_def)
  let ?t1 = "evaluate v (?t\<lparr>du_pins := ps\<rparr>)"
  have t1: "pins_ok ?cfg (du_pins ?t1)" by (rule evaluate_pins [OF v]) (simp add: ps(2))
  have t2: "pins_ok ?cfg (du_pins (evaluate v (?t1\<lparr>du_clk := 1\<rparr>)))" by (rule evaluate_pins [OF v]) (simp add: t1)
  let ?in = "map (master_lanes ?cfg (du_pins ?t1)) [0..<num_ports ?cfg]"
  note sm = sample_lanes [OF c t1]
  note o = commit_outcome [OF f(2,3) sample_wf [OF c, of "du_pins ?t1"], of r]
  have eq: "cycle v sc sb r s = (case commit ?cfg ?in r ?f of
      (Inl e, f') \<Rightarrow> Inl e
    | (Inr _, f') \<Rightarrow> Inr (s\<lparr>si_platform := end_cycle r (?p\<lparr>pf_heap := fa_heap f'\<rparr>), si_fabric := f',
         si_dut := evaluate v (?t1\<lparr>du_clk := 1\<rparr>), si_stats := stats_sample ?in (fa_outputs ?f) r (si_stats s),
         si_total := si_total s + 1, si_active := si_active s + (if r then 0 else 1)\<rparr>))"
    by (simp only: cycle_def Let_def ps(1) sm result_bind_simps)
  show ?thesis
  proof (cases "commit ?cfg ?in r ?f")
    case (Pair res f')
    show ?thesis
    proof (cases res)
      case (Inl e)
      then show ?thesis using Pair o unfolding eq by simp
    next
      case (Inr u)
      then have h: "fabric_wf ?cfg f'" "fa_space f' = pf_space (si_platform s)" "heap_step (pf_heap ?p) (fa_heap f')"
        using Pair o f(5,6) by simp_all
      let ?p' = "end_cycle r (?p\<lparr>pf_heap := fa_heap f'\<rparr>)"
      have p': "platform_wf ?p'" by (rule end_cycle_wf [OF platform_wf_step [OF f(1) h(3)]])
      have pw: "platform_wf (si_platform s)" using wf by (simp add: sim_wf_def)
      have "length (pf_heap ?p') = length (pf_heap (si_platform s))" by (rule platform_wf_length [OF pw p']) simp
      from devices_ok_length [OF this] have "devices_ok (pf_space (si_platform s)) (pf_heap ?p')" using wf by (simp add: sim_wf_def)
      then show ?thesis
        unfolding eq using wf h(1,2) p' t2 Pair Inr by (simp add: sim_wf_def)
    qed
  qed
qed

end
