(* ===== verification/Sim_Run.thy ===== *)
theory Sim_Run
  imports Simulator
begin

text \<open>
  Properties of whole runs of the simulator: the loop keeps the invariant of all components and can only fail with a
  protocol error, it ends after the configured number of cycles, its exit statuses mean what they say, and
  the read statistics count the handshakes.
\<close>

section \<open>The loop\<close>

fun final_sim :: "'d loop_exit \<Rightarrow> 'd sim" where
  "final_sim (GuestExit c s) = s"
| "final_sim (LoopEnded n s) = s"

fun loop_reason :: "'d verilated \<Rightarrow> options \<Rightarrow> (nat \<Rightarrow> bool) \<Rightarrow> 'd loop_exit \<Rightarrow> bool" where
  "loop_reason v opts flag (GuestExit c s) = (fa_exit_completed (si_fabric s) \<and> fa_exit_code (si_fabric s) = c)"
| "loop_reason v opts flag (LoopEnded n s) = (\<not> si_active s < opt_max_cycles opts \<or> flag n \<or> vl_got_finish v (si_dut s))"

lemma sim_loop_outcome:
  assumes "sim_wf sc s" and "dut_ok (sc_fabric sc) v"
  shows "case sim_loop v sc opts sb flag n s of
      Inl e \<Rightarrow> is_protocol_error e
    | Inr x \<Rightarrow> sim_wf sc (final_sim x) \<and> loop_reason v opts flag x"
  using assms
proof (induction v sc opts sb flag n s rule: sim_loop.induct)
  case (1 v sc opts sb flag n s)
  let ?go = "si_active s < opt_max_cycles opts \<and> \<not> flag n \<and> \<not> vl_got_finish v (si_dut s)"
  let ?c = "cycle v sc sb (si_total s < opt_reset_cycles opts) s"
  note c = cycle_outcome [OF "1.prems", where sb = sb and r = "si_total s < opt_reset_cycles opts"]
  show ?case
  proof (cases ?go)
    case False
    then show ?thesis using "1.prems"(1) by (subst sim_loop.simps) auto
  next
    case go: True
    show ?thesis
    proof (cases ?c)
      case (Inl e)
      then show ?thesis using go c by (subst sim_loop.simps) simp
    next
      case (Inr s')
      then have wf: "sim_wf sc s'" using c by simp
      show ?thesis
      proof (cases "fa_exit_completed (si_fabric s')")
        case True
        then show ?thesis using go Inr wf by (subst sim_loop.simps) simp
      next
        case False
        then show ?thesis using "1.IH" [OF go Inr False wf "1.prems"(2)] go Inr by (subst sim_loop.simps) simp
      qed
    qed
  qed
qed

text \<open>The counters after \<open>n\<close> iterations.\<close>

definition counted :: "options \<Rightarrow> nat \<Rightarrow> 'd sim \<Rightarrow> bool" where
  "counted opts n s \<longleftrightarrow> unat (si_total s) = n \<and> unat (si_active s) = n - unat (opt_reset_cycles opts) \<and>
     n \<le> unat (opt_reset_cycles opts) + unat (opt_max_cycles opts)"

lemma counted_cycle:
  assumes "counted opts n s" and "si_active s < opt_max_cycles opts"
    and "unat (opt_reset_cycles opts) + unat (opt_max_cycles opts) < 2 ^ 64"
    and "cycle v sc sb (si_total s < opt_reset_cycles opts) s = Inr s'"
  shows "counted opts (Suc n) s'"
proof -
  let ?r = "unat (opt_reset_cycles opts)" and ?m = "unat (opt_max_cycles opts)"
  note c = cycle_counters [OF assms(4)]
  have n: "n - ?r < ?m" using assms(1,2) by (simp add: counted_def word_less_nat_alt)
  then have "Suc n \<le> ?r + ?m" by linarith
  then have "unat (si_total s') = Suc n"
    using c(1) assms(1,3) by (simp add: counted_def unat_word_ariths)
  moreover have "unat (si_active s') = Suc n - ?r"
  proof (cases "n < ?r")
    case True
    then have "si_total s < opt_reset_cycles opts" using assms(1) by (simp add: counted_def word_less_nat_alt)
    then show ?thesis using c(2) assms(1) True by (simp add: counted_def)
  next
    case False
    then have "\<not> si_total s < opt_reset_cycles opts" using assms(1) by (simp add: counted_def word_less_nat_alt)
    then have "unat (si_active s') = Suc (unat (si_active s))" using c(2) word_Suc [OF assms(2)] by simp
    then show ?thesis using assms(1) False by (simp add: counted_def)
  qed
  ultimately show ?thesis using \<open>Suc n \<le> ?r + ?m\<close> by (simp add: counted_def)
qed

lemma sim_loop_counts:
  assumes "counted opts n s" and "unat (opt_reset_cycles opts) + unat (opt_max_cycles opts) < 2 ^ 64"
    and "sim_loop v sc opts sb flag n s = Inr x"
  shows "counted opts (unat (si_total (final_sim x))) (final_sim x) \<and> (\<forall>m s'. x = LoopEnded m s' \<longrightarrow> unat (si_total s') = m)"
  using assms
proof (induction v sc opts sb flag n s rule: sim_loop.induct)
  case (1 v sc opts sb flag n s)
  let ?go = "si_active s < opt_max_cycles opts \<and> \<not> flag n \<and> \<not> vl_got_finish v (si_dut s)"
  have t: "counted opts k u \<Longrightarrow> unat (si_total u) = k" for k and u :: "'a sim" by (simp add: counted_def)
  show ?case
  proof (cases ?go)
    case False
    then have "x = LoopEnded n s" using "1.prems"(3) by (subst (asm) sim_loop.simps) auto
    then show ?thesis using "1.prems"(1) t by auto
  next
    case go: True
    then obtain s' where s': "cycle v sc sb (si_total s < opt_reset_cycles opts) s = Inr s'"
      and x: "(if fa_exit_completed (si_fabric s') then Inr (GuestExit (fa_exit_code (si_fabric s')) s')
          else sim_loop v sc opts sb flag (n + 1) s') = Inr x"
      using "1.prems"(3) by (subst (asm) sim_loop.simps) auto
    have cs: "counted opts (Suc n) s'" using counted_cycle [OF "1.prems"(1) _ "1.prems"(2) s'] go by blast
    show ?thesis
    proof (cases "fa_exit_completed (si_fabric s')")
      case True
      then show ?thesis using x cs t by auto
    next
      case False
      then show ?thesis using "1.IH" [OF go s' False _ "1.prems"(2)] x cs by simp
    qed
  qed
qed

lemma sim_loop_reason: "sim_loop v sc opts sb flag n s = Inr x \<Longrightarrow> loop_reason v opts flag x"
proof (induction v sc opts sb flag n s rule: sim_loop.induct)
  case (1 v sc opts sb flag n s)
  let ?go = "si_active s < opt_max_cycles opts \<and> \<not> flag n \<and> \<not> vl_got_finish v (si_dut s)"
  show ?case
  proof (cases ?go)
    case False
    then have "x = LoopEnded n s" using "1.prems" by (subst (asm) sim_loop.simps) auto
    then show ?thesis using False by auto
  next
    case go: True
    then obtain s' where s': "cycle v sc sb (si_total s < opt_reset_cycles opts) s = Inr s'"
      and x: "(if fa_exit_completed (si_fabric s') then Inr (GuestExit (fa_exit_code (si_fabric s')) s')
          else sim_loop v sc opts sb flag (n + 1) s') = Inr x"
      using "1.prems" by (subst (asm) sim_loop.simps) auto
    then show ?thesis using "1.IH" [OF go s'] by (cases "fa_exit_completed (si_fabric s')") auto
  qed
qed

section \<open>Setup\<close>

lemma configure_target_ok:
  assumes "configure_target sc = Inr (reg, spec)"
  shows "registry_ok reg" "factories_ok reg" "length (sp_connections spec) \<le> 1"
proof -
  obtain reg0 where r: "register_builtin_devices [] = Inr reg0" "platform_register_devices (sc_platform sc) reg0 = Inr reg"
    and d: "platform_defaults (sc_platform sc) (sc_map sc) = Inr spec" using assms by (auto simp: configure_target_def)
  have 0: "registry_ok reg0 \<and> factories_ok reg0" using register_builtin_ok [OF _ _ r(1)] empty_registry_ok by blast
  then have "registry_ok reg \<and> factories_ok reg" using r(2) fuxi_register_ok by (cases "sc_platform sc") auto
  then show "registry_ok reg" "factories_ok reg" by simp_all
  show "length (sp_connections spec) \<le> 1"
    using d by (cases "sc_platform sc") (auto simp: fuxi_defaults_def default_platform_def spec_map_def Let_def)
qed

lemma fabric_setup_wf:
  assumes "config_ok cfg" "as_wf sp" "heap_wf h" "devices_ok sp h"
    and "set_stall_probability q (set_seed seed (fabric_new cfg sp h False)) = Inr f"
  shows "fabric_wf cfg f" "fa_space f = sp"
proof -
  have n: "fabric_wf cfg (fabric_new cfg sp h False)" by (rule fabric_new_wf [OF assms(1-4)])
  obtain p where f: "f = (set_seed seed (fabric_new cfg sp h False))\<lparr>fa_stall_probability := p\<rparr>"
    using assms(5) by (cases q) (auto split: if_splits)
  show "fabric_wf cfg f" using n unfolding f set_seed_def by (simp add: fabric_wf_def)
  show "fa_space f = sp" unfolding f set_seed_def by (simp add: fabric_new_def)
qed

lemma setup_simulation_wf:
  assumes "config_ok (sc_fabric sc)" and "dut_ok (sc_fabric sc) v" and "files_fit (sh_read_file host)"
    and "registry_ok reg" "factories_ok reg" "length (sp_connections spec) \<le> 1"
    and "setup_simulation host v sc opts reg spec = Inr (sb, s)"
  shows "sim_wf sc s" "si_active s = 0" "si_total s = 0"
proof -
  obtain p sb' where p: "platform_new (sh_services host) reg spec (address_bits (sc_fabric sc)) = Inr p"
    "bind_sideband (sc_sideband sc) p = Inr sb'" using assms(7) by (auto simp: setup_simulation_def)
  have "length (sp_connections spec) < 2 ^ 32" using assms(6) by simp
  from platform_new_wf [OF assms(4,5) this p(1)] have pw: "platform_wf p" "as_wf (pf_space p)" "devices_ok (pf_space p) (pf_heap p)" by blast+
  obtain r p1 where l: "load_images (sh_read_file host) opts p = (r, p1)" by fastforce
  obtain u where r: "r = Inr u" using assms(7) p l by (cases r) (auto simp: setup_simulation_def)
  have p1: "platform_wf p1" using load_images_outcome [OF pw assms(3), of opts] l r by simp
  have same: "pf_space p1 = pf_space p" "pf_order p1 = pf_order p" using l by (auto simp: load_images_def split: prod.splits)
  have d1: "devices_ok (pf_space p1) (pf_heap p1)"
    using devices_ok_length [OF platform_wf_length [OF pw(1) p1 same(2)]] pw(3) same(1) by simp
  have h1: "heap_wf (pf_heap p1)" using p1 by (simp add: platform_wf_def)
  have a1: "as_wf (pf_space p1)" using pw(2) same(1) by simp
  obtain f where f: "set_stall_probability (opt_stall_probability opts)
      (set_seed (opt_seed opts) (fabric_new (sc_fabric sc) (pf_space p1) (pf_heap p1) False)) = Inr f"
    and s: "s = \<lparr>si_platform = p1, si_fabric = f, si_dut = vl_initial v,
      si_stats = stats_new (num_ports (sc_fabric sc)) (opt_stats opts), si_active = 0, si_total = 0\<rparr>"
    using assms(7) p l r by (auto simp: setup_simulation_def split: if_splits)
  show "sim_wf sc s" "si_active s = 0" "si_total s = 0"
    using fabric_setup_wf [OF assms(1) a1 h1 d1 f] p1 d1 assms(2)
    unfolding s by (simp_all add: sim_wf_def stats_new_def dut_ok_def)
qed

section \<open>Statistics\<close>

definition request_bytes :: "address_payload \<Rightarrow> u64" where
  "request_bytes a = push_bit (unat (ax_size a)) (ucast (ax_length a) + 1)"

lemma stats_port_counts:
  "rs_requests (stats_port m sl st) = rs_requests st + of_bool (ar_valid m \<and> ar_ready sl)"
  "rs_bytes_requested (stats_port m sl st) = rs_bytes_requested st + (if ar_valid m \<and> ar_ready sl then request_bytes (m_ar m) else 0)"
  "rs_beats_received (stats_port m sl st) = rs_beats_received st + of_bool (r_ready m \<and> r_valid sl)"
  by (simp_all add: stats_port_def Let_def request_bytes_def)

definition stats_run :: "(master_signals list \<times> slave_signals list \<times> bool) list \<Rightarrow> read_statistics \<Rightarrow> read_statistics" where
  "stats_run xs st = fold (\<lambda>(ms, ss, reset). stats_sample ms ss reset) xs st"

lemma stats_run_snoc: "stats_run (xs @ [(ms, ss, r)]) st = stats_sample ms ss r (stats_run xs st)"
  by (simp add: stats_run_def)

lemma stats_run_fields [simp]: "rs_enabled (stats_run xs st) = rs_enabled st" "length (rs_ports (stats_run xs st)) = length (rs_ports st)"
  by (induction xs rule: rev_induct) (auto simp: stats_run_def stats_sample_def split: prod.splits)

lemma stats_run_counts:
  assumes "p < n"
  shows "let st = rs_ports (stats_run xs (stats_new n True)) ! p; ys = filter (\<lambda>(ms, ss, r). \<not> r) xs;
           ars = filter (\<lambda>(ms, ss, r). ar_valid (ms ! p) \<and> ar_ready (ss ! p)) ys
    in rs_requests st = of_nat (length ars) \<and>
       rs_bytes_requested st = sum_list (map (\<lambda>(ms, ss, r). request_bytes (m_ar (ms ! p))) ars) \<and>
       rs_beats_received st = of_nat (length (filter (\<lambda>(ms, ss, r). r_ready (ms ! p) \<and> r_valid (ss ! p)) ys))"
proof (induction xs rule: rev_induct)
  case Nil
  then show ?case using assms by (simp add: stats_run_def stats_new_def)
next
  case (snoc x xs)
  obtain ms ss r where x: "x = (ms, ss, r)" by (cases x) auto
  have "rs_ports (stats_run (xs @ [x]) (stats_new n True)) ! p =
      (if r then rs_ports (stats_run xs (stats_new n True)) ! p
       else stats_port (ms ! p) (ss ! p) (rs_ports (stats_run xs (stats_new n True)) ! p))"
    using assms unfolding x stats_run_snoc by (simp add: stats_sample_def) (simp add: stats_new_def)
  then show ?case using snoc x by (simp add: Let_def stats_port_counts)
qed

section \<open>Properties\<close>

text \<open>C2: the composed simulator cannot fail internally. For every command line, host, address map and design, once the setup has succeeded the run
  ends, either with a \<^verbatim>\<open>ProtocolError\<close> raised by a violation of the design, or with a status. Platform,
  fabric and pins keep their invariants to the end, so no access leaves a pin, no queue overflows and no
  other exception escapes.\<close>

theorem run_simulation_outcome:
  assumes "config_ok (sc_fabric sc)" and "dut_ok (sc_fabric sc) v" and "files_fit (sh_read_file host)"
    and "configure_target sc = Inr (reg, spec0)" and "parse_options (sh_strtod host) (sc_trace_enabled sc) args spec0 = Inr (opts, spec)"
    and "setup_simulation host v sc opts reg spec = Inr (sb, s)"
  shows "(\<exists>m. run_simulation host v sc opts reg spec = Inl (ProtocolError m)) \<or>
    (\<exists>x. sim_loop v sc opts sb (sh_flag host) 0 s = Inr x \<and> sim_wf sc (final_sim x) \<and>
       run_simulation host v sc opts reg spec = Inr (conclude v (sh_flag host) x))"
proof -
  note c = configure_target_ok [OF assms(4)]
  have "same_layout spec0 spec" using assms(5) parse_options_layout by blast
  then have "length (sp_connections spec) \<le> 1" using c(3) by (simp add: same_layout_def)
  from setup_simulation_wf [OF assms(1-3) c(1,2) this assms(6)] have wf: "sim_wf sc s" by simp
  have run: "run_simulation host v sc opts reg spec =
      result_bind (sim_loop v sc opts sb (sh_flag host) 0 s) (\<lambda>x. Inr (conclude v (sh_flag host) x))"
    by (simp add: run_simulation_def assms(6))
  show ?thesis
    using sim_loop_outcome [OF wf assms(2), where opts = opts and sb = sb and flag = "sh_flag host" and n = 0] unfolding run
    by (auto simp: is_protocol_error_def split: sum.splits exn.splits)
qed

text \<open>C7: the run ends on time. Starting from fresh counters, the loop performs at most \<^verbatim>\<open>reset_cycles + max_cycles\<close> iterations; the
  active cycles are exactly those after the reset cycles; and a loop that ends without a guest exit, a
  signal or \<^verbatim>\<open>$finish\<close> has performed exactly that many.\<close>

theorem simulation_ends_on_time:
  assumes "si_active s = 0" and "si_total s = 0" and "opt_max_cycles opts \<noteq> 0"
    and "unat (opt_reset_cycles opts) + unat (opt_max_cycles opts) < 2 ^ 64"
    and "sim_loop v sc opts sb flag 0 s = Inr x"
  shows "unat (si_total (final_sim x)) \<le> unat (opt_reset_cycles opts) + unat (opt_max_cycles opts) \<and>
    unat (si_active (final_sim x)) = unat (si_total (final_sim x)) - unat (opt_reset_cycles opts) \<and>
    (\<forall>m s'. x = LoopEnded m s' \<longrightarrow> unat (si_total s') = m \<and>
       (\<not> flag m \<longrightarrow> \<not> vl_got_finish v (si_dut s') \<longrightarrow> m = unat (opt_reset_cycles opts) + unat (opt_max_cycles opts)))"
proof -
  have "counted opts 0 s" using assms(1,2) by (simp add: counted_def)
  note c = sim_loop_counts [OF this assms(4,5)] and r = sim_loop_reason [OF assms(5)]
  have m: "0 < unat (opt_max_cycles opts)" using assms(3) by (simp add: unat_gt_0)
  have "m = unat (opt_reset_cycles opts) + unat (opt_max_cycles opts)"
    if x: "x = LoopEnded m s'" and "\<not> flag m" "\<not> vl_got_finish v (si_dut s')" for m s'
  proof -
    have "\<not> si_active s' < opt_max_cycles opts" using r that by simp
    then have "unat (opt_max_cycles opts) \<le> unat (si_active s')" by (simp add: word_less_nat_alt)
    then show ?thesis using c m x by (auto simp: counted_def)
  qed
  then show ?thesis using c by (auto simp: counted_def)
qed

text \<open>Exit statuses. With a flag that stays set once a signal has arrived: 0 and 1 report a completed exit write with code zero
  or not; 129 (and not 130) an interrupt; 3 a \<^verbatim>\<open>$finish\<close> of the design; and 124 that all active cycles have been
  used. No other status is returned.\<close>

theorem exit_status_meaning:
  assumes "\<forall>n. flag n \<longrightarrow> flag (Suc n)" and "sim_loop v sc opts sb flag n s = Inr x"
  shows "case x of
      GuestExit code s' \<Rightarrow> fa_exit_completed (si_fabric s') \<and> code = fa_exit_code (si_fabric s') \<and>
        fst (conclude v flag x) = (if code = 0 then 0 else 1)
    | LoopEnded m s' \<Rightarrow>
        (fst (conclude v flag x) = 129 \<longleftrightarrow> flag (Suc m)) \<and>
        (fst (conclude v flag x) = PROTOCOL_ERROR \<longleftrightarrow> \<not> flag (Suc m) \<and> vl_got_finish v (si_dut s')) \<and>
        (fst (conclude v flag x) = TIMEOUT_ERROR \<longleftrightarrow> \<not> flag (Suc m) \<and> \<not> vl_got_finish v (si_dut s')) \<and>
        fst (conclude v flag x) \<in> {129, PROTOCOL_ERROR, TIMEOUT_ERROR} \<and>
        (fst (conclude v flag x) = TIMEOUT_ERROR \<longrightarrow> opt_max_cycles opts \<le> si_active s')"
  using sim_loop_reason [OF assms(2)] assms(1)
  by (cases x) (auto simp: conclude_def Let_def PROTOCOL_ERROR_def TIMEOUT_ERROR_def)

text \<open>The statistics count handshakes. After any sequence of sampled cycles the counters of a port are, modulo \<open>2\<^sup>6\<^sup>4\<close>, the number of AR
  handshakes outside reset, the bytes those requests ask for (beats times beat size), and the number of R
  handshakes outside reset.\<close>

theorem read_statistics_exact:
  assumes "p < n"
  shows "let st = rs_ports (stats_run xs (stats_new n True)) ! p; ys = filter (\<lambda>(ms, ss, r). \<not> r) xs;
           ars = filter (\<lambda>(ms, ss, r). ar_valid (ms ! p) \<and> ar_ready (ss ! p)) ys
    in rs_requests st = of_nat (length ars) \<and>
       rs_bytes_requested st = sum_list (map (\<lambda>(ms, ss, r). request_bytes (m_ar (ms ! p))) ars) \<and>
       rs_beats_received st = of_nat (length (filter (\<lambda>(ms, ss, r). r_ready (ms ! p) \<and> r_valid (ss ! p)) ys))"
  by (rule stats_run_counts [OF assms])

section \<open>Examples\<close>

text \<open>A design that never requests anything, on the preset platform.\<close>

definition example_target :: sim_config where
  "example_target = \<lparr>sc_fabric = example_config, sc_threads = 1, sc_trace_enabled = False, sc_map = preset_map,
     sc_platform = DefaultPlatform, sc_sideband = NoSideband\<rparr>"

definition idle_dut :: "unit verilated" where
  "idle_dut = \<lparr>vl_initial = \<lparr>du_pins = zero_pins example_config, du_clk = 0, du_aresetn = 0, du_sideband = [], du_time = 0, du_state = ()\<rparr>,
     vl_eval = (\<lambda>t. t), vl_got_finish = (\<lambda>_. False), vl_threads = 1\<rparr>"

definition example_sim_host :: sim_host where
  "example_sim_host = \<lparr>sh_services = example_host, sh_read_file = (\<lambda>_. Inr []), sh_trace_opens = (\<lambda>_. False),
     sh_strtod = (\<lambda>_. (NotANumber, None, False)), sh_flag = (\<lambda>n. True)\<rparr>"

lemma example_target_ok:
  "config_ok (sc_fabric example_target)" "dut_ok (sc_fabric example_target) idle_dut" "files_fit (sh_read_file example_sim_host)"
  "configure_target example_target = Inr (example_registry, default_platform preset_map)"
  "parse_options (sh_strtod example_sim_host) (sc_trace_enabled example_target) [] (default_platform preset_map) = Inr (default_options, default_platform preset_map)"
  using example_parts(1) zero_pins_ok example_registry_ok(1)
  by (simp_all add: example_target_def dut_ok_def idle_dut_def files_fit_def example_sim_host_def configure_target_def parse_options_def default_options_def)

lemma empty_files_load: "load_images (\<lambda>_. Inr []) default_options p = (Inr (), p)"
proof -
  have "result_fold (\<lambda>i plan. result_bind (Inr []) (\<lambda>img. add_raw img (ri_address i) sp h plan)) images plan = Inr plan" for images sp h plan
    by (induction images) (simp_all add: add_raw_def)
  then have "plan_images (\<lambda>_. Inr []) default_options (pf_images p) (pf_space p) (pf_heap p) = Inr []"
    by (simp add: plan_images_def default_options_def)
  then show ?thesis by (simp add: load_images_def exec_defs apply_plan_def validate_plan_def)
qed

lemma example_setup:
  obtains sb s where "setup_simulation example_sim_host idle_dut example_target default_options example_registry (default_platform preset_map) = Inr (sb, s)"
    "si_active s = 0" "si_total s = 0"
proof -
  obtain p where "platform_new example_host example_registry (default_platform preset_map) 32 = Inr p" by (rule example_platform)
  then show ?thesis
    using that empty_files_load [of p]
    by (auto simp: setup_simulation_def example_sim_host_def example_target_def example_config_def idle_dut_def default_options_def)
qed

theorem run_simulation_outcome_witness:
  "\<exists>sb s. setup_simulation example_sim_host idle_dut example_target default_options example_registry (default_platform preset_map) = Inr (sb, s) \<and>
     ((\<exists>m. run_simulation example_sim_host idle_dut example_target default_options example_registry (default_platform preset_map) = Inl (ProtocolError m)) \<or>
      (\<exists>r. run_simulation example_sim_host idle_dut example_target default_options example_registry (default_platform preset_map) = Inr r))"
proof -
  obtain sb s where s: "setup_simulation example_sim_host idle_dut example_target default_options example_registry (default_platform preset_map) = Inr (sb, s)"
    by (rule example_setup)
  from run_simulation_outcome [OF example_target_ok s] s show ?thesis by blast
qed

theorem simulation_ends_on_time_witness:
  "\<exists>sb (s :: unit sim). setup_simulation example_sim_host idle_dut example_target default_options example_registry (default_platform preset_map) = Inr (sb, s) \<and>
     sim_loop idle_dut example_target default_options sb (\<lambda>n. True) 0 s = Inr (LoopEnded 0 s) \<and> unat (si_active s) = 0"
proof -
  obtain sb s where s: "setup_simulation example_sim_host idle_dut example_target default_options example_registry (default_platform preset_map) = Inr (sb, s)"
    "si_active s = 0" "si_total s = 0" by (rule example_setup)
  have l: "sim_loop idle_dut example_target default_options sb (\<lambda>n. True) 0 s = Inr (LoopEnded 0 s)" by (subst sim_loop.simps) simp
  have o: "opt_max_cycles default_options \<noteq> 0" "unat (opt_reset_cycles default_options) + unat (opt_max_cycles default_options) < 2 ^ 64"
    by (simp_all add: default_options_def)
  from simulation_ends_on_time [OF s(2,3) o l] show ?thesis using s(1,3) l by simp
qed

theorem exit_status_meaning_witness:
  "\<exists>sb s. setup_simulation example_sim_host idle_dut example_target default_options example_registry (default_platform preset_map) = Inr (sb, s) \<and>
     fst (conclude idle_dut (\<lambda>n. True) (LoopEnded 0 s)) = 129"
proof -
  obtain sb s where s: "setup_simulation example_sim_host idle_dut example_target default_options example_registry (default_platform preset_map) = Inr (sb, s)"
    by (rule example_setup)
  have l: "sim_loop idle_dut example_target default_options sb (\<lambda>n. True) 0 s = Inr (LoopEnded 0 s)" by (subst sim_loop.simps) simp
  have "\<forall>n :: nat. (\<lambda>n. True) n \<longrightarrow> (\<lambda>n. True) (Suc n)" by simp
  from exit_status_meaning [OF this l] s show ?thesis by auto
qed

theorem read_statistics_exact_witness:
  "rs_requests (rs_ports (stats_run
     [([default_master_signals 4], [default_slave_signals 4], False),
      ([(default_master_signals 4)\<lparr>ar_valid := True\<rparr>], [(default_slave_signals 4)\<lparr>ar_ready := True\<rparr>], False),
      ([(default_master_signals 4)\<lparr>ar_valid := True\<rparr>], [(default_slave_signals 4)\<lparr>ar_ready := True\<rparr>], True)]
     (stats_new 1 True)) ! 0) = 1"
  using read_statistics_exact [of 0 1] by (simp add: Let_def default_master_signals_def default_slave_signals_def)

end
