(* ===== verification/Spec2Isabelle.thy ===== *)
theory Spec2Isabelle
  imports Fabric_Safety Fabric_Arbitration Fabric_Routing Exclusive_Access Elf_Images Platform_New Verilated_Binding Host_Services Sim_Run
begin

text \<open>
  Verification of \<^verbatim>\<open>verilator-axi-testbench\<close>, a C++ testbench that clocks a Verilated AXI4 initiator against simulated devices.

  \<^bold>\<open>The program.\<close> A design under test presents AXI requests on the packed pins of a generated class. The pin binding
  (\<^verbatim>\<open>src/verilated_binding.hpp\<close>, \<^verbatim>\<open>src/packed.hpp\<close>) turns them into channel signals. The fabric (\<^verbatim>\<open>src/fabric.hpp\<close>) checks the
  protocol, queues the handshakes in ring buffers, arbitrates, walks bursts with a cursor (\<^verbatim>\<open>src/axi.hpp\<close>), stages whole write
  bursts, keeps exclusive reservations and accesses the devices behind the address space (\<^verbatim>\<open>src/device.hpp\<close>,
  \<^verbatim>\<open>src/devices.cpp\<close>). A platform (\<^verbatim>\<open>src/platform.cpp\<close>) creates the devices from a registry and a specification, maps them, wires
  their interrupt signals and settles them once per cycle. Images are loaded before the run (\<^verbatim>\<open>src/elf_loader.cpp\<close>). The
  simulator (\<^verbatim>\<open>src/sim_main.cpp\<close>) parses the command line, builds all this, runs the clock and returns an exit status. The
  Fuxi example adds a CLINT, a PLIC and a sideband binding (\<^verbatim>\<open>examples/fuxi/sim\<close>).

  \<^bold>\<open>Conventions.\<close> C++ integers are words of their width; sizes and indices are natural numbers. An exception is the left
  summand of \<open>result\<close>; code that mutates an object and may throw is an \<open>exec\<close>, which returns the state also after a throw.
  Objects reached through pointers live in a \<open>heap\<close>, a list of devices, and a pointer is an index, so that several windows can
  lead to one device and a signal reference is a device index with a port name. Virtual functions are dispatched over a datatype
  of the devices of the repository. Accesses outside a raw array, undefined in C++, are the outcome \<open>UndefinedBehaviour\<close>, and
  the theorems about such accesses exclude it.

  \<^bold>\<open>Theories.\<close>

  \<^item> \<open>Axi_Prelude\<close>: exceptions, \<open>exec\<close> with weakest preconditions, number formatting and parsing, shared facts.
  \<^item> \<open>Axi_Types\<close>, \<open>Ring_Buffer\<close>, \<open>Burst_Cursor\<close>: \<^verbatim>\<open>axi.hpp\<close>. The ring buffer refines a bounded queue (locale \<open>bounded_fifo\<close> and its
    interpretation); INCR and WRAP bursts visit exactly their bytes; the 4 KiB check is exact.
  \<^item> \<open>Device_Interface\<close>, \<open>Memory_Devices\<close>, \<open>Uart\<close>, \<open>Interrupt_Devices\<close>, \<open>Device_Dispatch\<close>: the devices, \<^verbatim>\<open>Device::read\<close> and \<^verbatim>\<open>write\<close> as a
    locale over the hooks of a device, interpreted for every device and for the dispatcher. RAM is a byte memory, the UART is a
    lossless link, a PLIC claim returns the best source and a claimed source is not delivered again.
  \<^item> \<open>Address_Space\<close>: mapping, decoding, access and reset; the table stays sorted and disjoint and decoding is exact.
  \<^item> \<open>Fabric\<close>: the definitions of \<^verbatim>\<open>AxiFabric\<close>, one per member function and loop. \<open>Fabric_Invariant\<close>, \<open>Fabric_Process\<close>,
    \<open>Fabric_Handshake\<close>: the invariant \<open>fabric_wf\<close> and the weakest precondition of every phase. \<open>Fabric_Safety\<close>,
    \<open>Fabric_Arbitration\<close>, \<open>Fabric_Routing\<close>, \<open>Exclusive_Access\<close>: no internal failure, writes wait for the whole burst, fair
    arbitration, exact routing, memory effects of beats, exclusive accesses.
  \<^item> \<open>Elf_Loader\<close>, \<open>Image_Load\<close>, \<open>Elf_Images\<close>: parsing, validation and the load plan; loading is all or nothing.
  \<^item> \<open>Platform_Spec\<close>, \<open>Platform_Build\<close>: registry, specification, construction and cycle hooks. \<open>Platform_Config\<close>, \<open>Platform_Order\<close>,
    \<open>Platform_Theorems\<close>, \<open>Platform_New\<close>: validated configuration, the topological sort, settling in one pass, well-formed platforms.
  \<^item> \<open>Host_Services\<close>: opening streams and restoring terminal modes.
  \<^item> \<open>Packed\<close>, \<open>Verilated_Binding\<close>: bit fields of packed signals (locale \<open>field_store\<close>) and the pins; sampling and driving are exact.
  \<^item> \<open>Sim_Options\<close>, \<open>Simulator\<close>, \<open>Sim_Run\<close>: command line, image loading, the simulation loop and \<^verbatim>\<open>main\<close>; the composition of all
    components keeps their invariants, ends on time, and can only fail with a protocol error.

  \<^bold>\<open>Loops, bounds and fuel.\<close> Loops over ranges are folds. The loops of \<^verbatim>\<open>read_u64\<close> and \<^verbatim>\<open>write_u64\<close>, the zero fill of BSS and the
  simulation loop are total functions with a termination measure; the simulation loop needs no fuel because in every iteration
  either the active count grows towards \<^verbatim>\<open>max_cycles\<close> or the total count towards \<^verbatim>\<open>reset_cycles\<close>. The topological sort of
  \<^verbatim>\<open>connect\<close> runs on fuel equal to the number of devices, which is shown to be enough. The degree counters of \<^verbatim>\<open>connect\<close> have 32
  bits, hence the bound \<open>2\<^sup>3\<^sup>2\<close> on the number of connections.

  \<^bold>\<open>Parameters.\<close> The Verilator model is a state with \<^verbatim>\<open>eval\<close> and \<^verbatim>\<open>$finish\<close>; it is only assumed to keep the types of its pins
  (\<open>dut_ok\<close>). Files, \<^verbatim>\<open>mmap\<close>, terminal calls, the moment a signal arrives and the rounding of \<^verbatim>\<open>strtod\<close> are arguments. The
  constants of the generated headers are the fields of \<open>sim_config\<close> and \<open>fuxi_config\<close>.

  \<^bold>\<open>Not modelled.\<close> Reading files and polling descriptors (host input and output), stream buffering, trace files, the CMake
  code, the RTL, the guest software and the tests. Floating-point rounding of the stall threshold is idealised: a stall
  probability is a rational number.
\<close>

end
